(* ===== verification/Prelude.thy ===== *)
theory Prelude
  imports Main "HOL-Library.Word" "HOL-Library.AList"
begin

text \<open>
  Shared vocabulary of the development: the C++ types and the pieces of the C++ standard
  library that the sources of hxrpc use.

  \<^item> \<open>std::string\<close> (text and binary alike) is the HOL type \<^typ>\<open>string\<close>, a list of
    8-bit characters; sizes are \<^typ>\<open>nat\<close>, and every narrowing cast of a size is
    written out as a conversion to a word.
  \<^item> \<open>std::expected<T, E>\<close> is \<^typ>\<open>'e + 'a\<close> with \<open>Err\<close> and \<open>Ok\<close>.
  \<^item> \<open>std::unordered_map\<close> is an association list with distinct keys (\<open>umap\<close>), whose
    order stands for the unspecified iteration order of the hash table.
  \<^item> \<open>htonl\<close> followed by \<open>memcpy\<close> is \<open>be32\<close>, the big-endian image of a 32-bit word;
    \<open>memcpy\<close> followed by \<open>ntohl\<close> is \<open>un_be32\<close>.
  \<^item> \<open>std::to_string\<close>, \<open>std::stoul\<close>, \<open>std::stoi\<close>, \<open>find\<close> and \<open>substr\<close> are modelled
    with their error cases (\<open>None\<close> where the library throws or returns \<open>npos\<close>).
  \<^item> a computation that may not return, or that may touch freed memory, has type \<open>run\<close>.
\<close>

named_theorems framing_simps
  \<open>rewrite rules for length prefixes and frames\<close>

named_theorems umap_simps
  \<open>lookup and key-set laws of unordered maps\<close>

section \<open>Machine integers and result types\<close>

type_synonym u16 = "16 word"
type_synonym u32 = "32 word"
type_synonym u64 = "64 word"

abbreviation Ok :: "'a \<Rightarrow> 'e + 'a" where
  "Ok \<equiv> Inr"

abbreviation Err :: "'e \<Rightarrow> 'e + 'a" where
  "Err \<equiv> Inl"

text \<open>
  Outcomes of C++ code that loops over system calls. \<open>None\<close>: the call does not return;
  \<open>Some (Inl UseAfterFree)\<close>: the execution reads an object that was already erased
  (undefined behaviour); \<open>Some (Inr x)\<close>: it returns \<open>x\<close>.
\<close>

datatype fault = UseAfterFree

type_synonym 'a run = "(fault + 'a) option"

abbreviation returns :: "'a \<Rightarrow> 'a run" where
  "returns x \<equiv> Some (Inr x)"

definition bind_run :: "'a run \<Rightarrow> ('a \<Rightarrow> 'b run) \<Rightarrow> 'b run" where
  "bind_run m f = (case m of None \<Rightarrow> None | Some (Inl e) \<Rightarrow> Some (Inl e) | Some (Inr x) \<Rightarrow> f x)"

lemma bind_run_simps [simp]:
  "bind_run None f = None"
  "bind_run (Some (Inl e)) f = Some (Inl e)"
  "bind_run (returns x) f = f x"
  by (simp_all add: bind_run_def)

lemma bind_run_returns [simp]: "bind_run m Some_Inr = m" if "Some_Inr = (\<lambda>x. returns x)"
  using that by (auto simp: bind_run_def split: option.splits sum.splits)

lemma bind_run_eq_returns:
  "bind_run m f = returns y \<longleftrightarrow> (\<exists>x. m = returns x \<and> f x = returns y)"
  by (auto simp: bind_run_def split: option.splits sum.splits)

section \<open>Unordered maps\<close>

type_synonym ('k, 'v) umap = "('k \<times> 'v) list"

definition umap_ok :: "('k, 'v) umap \<Rightarrow> bool" where
  "umap_ok m \<longleftrightarrow> distinct (map fst m)"

abbreviation umap_find :: "('k, 'v) umap \<Rightarrow> 'k \<Rightarrow> 'v option" where
  "umap_find m k \<equiv> map_of m k"

abbreviation umap_put :: "'k \<Rightarrow> 'v \<Rightarrow> ('k, 'v) umap \<Rightarrow> ('k, 'v) umap" where
  "umap_put k v m \<equiv> AList.update k v m"

abbreviation umap_erase :: "'k \<Rightarrow> ('k, 'v) umap \<Rightarrow> ('k, 'v) umap" where
  "umap_erase k m \<equiv> AList.delete k m"

text \<open>\<open>emplace\<close> inserts only when the key is absent.\<close>

definition umap_emplace :: "'k \<Rightarrow> 'v \<Rightarrow> ('k, 'v) umap \<Rightarrow> ('k, 'v) umap" where
  "umap_emplace k v m = (case map_of m k of None \<Rightarrow> AList.update k v m | Some _ \<Rightarrow> m)"

abbreviation umap_keys :: "('k, 'v) umap \<Rightarrow> 'k set" where
  "umap_keys m \<equiv> fst ` set m"

lemma umap_find_put [simp, umap_simps]:
  "umap_find (umap_put k v m) j = (if j = k then Some v else umap_find m j)"
  by (simp add: update_conv')

lemma umap_find_erase [simp, umap_simps]:
  "umap_find (umap_erase k m) j = (if j = k then None else umap_find m j)"
  by (simp add: delete_conv')

lemma umap_ok_Nil [simp]: "umap_ok []"
  by (simp add: umap_ok_def)

lemma umap_ok_put [simp]: "umap_ok m \<Longrightarrow> umap_ok (umap_put k v m)"
  by (simp add: umap_ok_def distinct_update)

lemma umap_ok_erase [simp]: "umap_ok m \<Longrightarrow> umap_ok (umap_erase k m)"
  by (simp add: umap_ok_def distinct_delete)

lemma umap_ok_emplace [simp]: "umap_ok m \<Longrightarrow> umap_ok (umap_emplace k v m)"
  by (simp add: umap_emplace_def split: option.splits)

lemma umap_find_emplace [simp, umap_simps]:
  "umap_find (umap_emplace k v m) j =
     (if j = k then (case umap_find m k of None \<Rightarrow> Some v | Some u \<Rightarrow> Some u) else umap_find m j)"
  by (auto simp: umap_emplace_def split: option.splits)

lemma umap_keys_dom: "umap_keys m = dom (map_of m)"
  by (simp add: dom_map_of_conv_image_fst)

lemma umap_keys_put [simp, umap_simps]: "umap_keys (umap_put k v m) = insert k (umap_keys m)"
  by (auto simp: umap_keys_dom update_conv')

lemma umap_keys_erase [simp, umap_simps]: "umap_keys (umap_erase k m) = umap_keys m - {k}"
  by (simp add: umap_keys_dom delete_conv' dom_def set_eq_iff)

lemma umap_find_None: "umap_find m k = None \<longleftrightarrow> k \<notin> umap_keys m"
  by (rule map_of_eq_None_iff)

lemma umap_find_mem: "umap_ok m \<Longrightarrow> umap_find m k = Some v \<longleftrightarrow> (k, v) \<in> set m"
  by (simp add: umap_ok_def)

lemma umap_find_key: "umap_find m k = Some v \<Longrightarrow> k \<in> umap_keys m"
  using umap_find_None [of m k] by auto

section \<open>Big-endian length prefixes\<close>

lemma unat_u32: "n < 4294967296 \<Longrightarrow> unat (word_of_nat n :: u32) = n"
  by (simp add: unsigned_of_nat take_bit_nat_eq_self)

lemma unat_u32_mod: "unat (word_of_nat n :: u32) = n mod 4294967296"
  by (simp add: unsigned_of_nat take_bit_eq_mod)

lemma unat_u32_less: "unat (w :: u32) < 4294967296"
  using unsigned_less [of w] by simp

definition be32 :: "u32 \<Rightarrow> string" where
  "be32 w = (let n = unat w in
     [char_of (n div 16777216), char_of (n div 65536), char_of (n div 256), char_of n])"

definition un_be32 :: "string \<Rightarrow> u32" where
  "un_be32 s = word_of_nat (foldl (\<lambda>acc c. acc * 256 + of_char c) 0 s)"

lemma length_be32 [simp, framing_simps]: "length (be32 w) = 4"
  by (simp add: be32_def Let_def)

lemma take4_be32 [simp, framing_simps]: "take 4 (be32 w @ s) = be32 w"
  by simp

lemma drop4_be32 [simp, framing_simps]: "drop 4 (be32 w @ s) = s"
  by simp

lemma base256_digits:
  fixes n :: nat
  assumes "n < 4294967296"
  shows "((n div 16777216 mod 256 * 256 + n div 65536 mod 256) * 256 + n div 256 mod 256) * 256
    + n mod 256 = n"
proof -
  have step: "m div 256 * 256 + m mod 256 = m" for m :: nat
    by (rule div_mult_mod_eq)
  have "n div 16777216 < 256"
    using assms by (simp add: less_mult_imp_div_less)
  then have a: "n div 16777216 mod 256 = n div 65536 div 256"
    by (simp add: div_mult2_eq [symmetric])
  have b: "n div 65536 = n div 256 div 256"
    by (simp add: div_mult2_eq [symmetric])
  show ?thesis
    by (simp only: a step) (simp only: b step)
qed

lemma un_be32_be32 [simp, framing_simps]: "un_be32 (be32 w) = w"
proof -
  from base256_digits [OF unat_u32_less, of w]
  have "foldl (\<lambda>acc c. acc * 256 + of_char c) 0 (be32 w) = unat w"
    by (simp only: be32_def Let_def foldl.simps of_char_of mult_0 add_0_left)
  then show ?thesis
    by (simp add: un_be32_def)
qed

lemma of_char_le: "(of_char c :: nat) \<le> 255"
proof -
  have "(of_char c :: nat) mod 256 = of_char c"
    by simp
  then show ?thesis by linarith
qed

lemma be32_un_be32: "length s = 4 \<Longrightarrow> be32 (un_be32 s) = s"
proof -
  assume "length s = 4"
  then obtain a b c d where s: "s = [a, b, c, d]"
    by (auto simp: numeral_eq_Suc length_Suc_conv)
  define p q r t where "p = (of_char a :: nat)" and "q = (of_char b :: nat)"
    and "r = (of_char c :: nat)" and "t = (of_char d :: nat)"
  note defs = p_def q_def r_def t_def
  have bounds: "p \<le> 255" "q \<le> 255" "r \<le> 255" "t \<le> 255"
    by (simp_all add: defs of_char_le)
  define n where "n = p * 16777216 + q * 65536 + r * 256 + t"
  have n: "n < 4294967296"
    using bounds unfolding n_def by linarith
  have chars: "char_of p = a" "char_of q = b" "char_of r = c" "char_of t = d"
    by (simp_all add: defs)
  have quots: "n div 16777216 = p" "n div 65536 = p * 256 + q"
    "n div 256 = (p * 256 + q) * 256 + r" "n = ((p * 256 + q) * 256 + r) * 256 + t"
    using bounds unfolding n_def distrib_right mult.assoc by simp_all
  have low: "char_of (x * 256 + y) = char_of y" for x y :: nat
    by (metis char_of_mod_256 mod_mult_self3)
  have "char_of (n div 16777216) = a" "char_of (n div 65536) = b" "char_of (n div 256) = c"
    by (simp_all only: quots(1-3) low chars)
  moreover have "char_of n = d"
    by (subst quots(4)) (simp only: low chars)
  moreover have "foldl (\<lambda>acc c. acc * 256 + of_char c) 0 s = n"
    by (simp add: s defs [symmetric] n_def algebra_simps)
  then have "unat (un_be32 s) = n"
    using n by (simp only: un_be32_def unat_u32)
  ultimately show ?thesis
    by (simp add: s be32_def Let_def)
qed

end
