(* ===== verification/StdText.thy ===== *)
theory StdText
  imports Prelude
begin

text \<open>
  The text operations of the C++ standard library that hxrpc calls: \<open>find\<close> and
  \<open>find_last_of\<close> of a character, \<open>std::to_string\<close> of an unsigned value, and the number
  parsers \<open>std::stoul\<close> and \<open>std::stoi\<close>, which skip white space, read an optional sign and
  the longest run of decimal digits, ignore what follows, and throw (\<open>None\<close>) when there is
  no digit or the value does not fit. \<open>std::stoul\<close> negates modulo $2^{64}$ after a minus sign.
\<close>

section \<open>Searching\<close>

definition find_char :: "char \<Rightarrow> string \<Rightarrow> nat option" where
  "find_char c s =
     (let n = length (takeWhile (\<lambda>x. x \<noteq> c) s) in if n < length s then Some n else None)"

definition find_last_char :: "char \<Rightarrow> string \<Rightarrow> nat option" where
  "find_last_char c s = map_option (\<lambda>i. length s - 1 - i) (find_char c (rev s))"

definition find_char_from :: "char \<Rightarrow> nat \<Rightarrow> string \<Rightarrow> nat option" where
  "find_char_from c i s = map_option (\<lambda>j. i + j) (find_char c (drop i s))"

lemma find_char_None: "find_char c s = None \<longleftrightarrow> c \<notin> set s"
  by (induction s) (auto simp: find_char_def Let_def split: if_splits)

lemma find_char_Some:
  "find_char c s = Some i \<Longrightarrow> i < length s \<and> s = take i s @ c # drop (Suc i) s \<and> c \<notin> set (take i s)"
proof -
  assume "find_char c s = Some i"
  then have i: "i = length (takeWhile (\<lambda>x. x \<noteq> c) s)" and less: "i < length s"
    by (auto simp: find_char_def Let_def split: if_splits)
  have "take i s = takeWhile (\<lambda>x. x \<noteq> c) s"
    by (simp add: i takeWhile_eq_take [symmetric])
  moreover have "s ! i = c"
    using nth_length_takeWhile [of "\<lambda>x. x \<noteq> c" s] less i by auto
  ultimately show ?thesis
    using less id_take_nth_drop [OF less] by (auto dest: set_takeWhileD)
qed

lemma find_char_append: "c \<notin> set a \<Longrightarrow> find_char c (a @ c # b) = Some (length a)"
  by (simp add: find_char_def takeWhile_append2 takeWhile_append)

lemma find_last_char_append: "c \<notin> set b \<Longrightarrow> find_last_char c (a @ c # b) = Some (length a)"
  by (simp add: find_last_char_def find_char_append)

lemma find_char_from_bounds: "find_char_from c i s = Some k \<Longrightarrow> i \<le> k \<and> k < length s"
  by (auto simp: find_char_from_def dest: find_char_Some)

section \<open>Decimal numbers\<close>

definition is_digit :: "char \<Rightarrow> bool" where
  "is_digit c \<longleftrightarrow> (48::nat) \<le> of_char c \<and> (of_char c :: nat) \<le> 57"

definition is_space :: "char \<Rightarrow> bool" where
  "is_space c \<longleftrightarrow> (of_char c :: nat) = 32 \<or> (9::nat) \<le> of_char c \<and> (of_char c :: nat) \<le> 13"

definition digit_char :: "nat \<Rightarrow> char" where
  "digit_char d = char_of (48 + d)"

definition digit_value :: "char \<Rightarrow> nat" where
  "digit_value c = of_char c - 48"

definition dec_value :: "string \<Rightarrow> nat" where
  "dec_value ds = foldl (\<lambda>acc c. acc * 10 + digit_value c) 0 ds"

fun nat_to_string :: "nat \<Rightarrow> string" where
  "nat_to_string n =
     (if n < 10 then [digit_char n] else nat_to_string (n div 10) @ [digit_char (n mod 10)])"

declare nat_to_string.simps [simp del]

definition split_sign :: "string \<Rightarrow> bool \<times> string" where
  "split_sign s = (case s of
       [] \<Rightarrow> (False, [])
     | c # r \<Rightarrow> if c = CHR ''-'' then (True, r) else if c = CHR ''+'' then (False, r) else (False, s))"

definition stoul :: "string \<Rightarrow> u64 option" where
  "stoul s =
     (let (neg, t) = split_sign (dropWhile is_space s); ds = takeWhile is_digit t; v = dec_value ds
      in if ds = [] then None
         else if 2 ^ 64 \<le> v then None
         else Some (if neg then - word_of_nat v else word_of_nat v))"

definition stoi :: "string \<Rightarrow> int option" where
  "stoi s =
     (let (neg, t) = split_sign (dropWhile is_space s); ds = takeWhile is_digit t;
          v = (if neg then - int (dec_value ds) else int (dec_value ds))
      in if ds = [] then None
         else if v < - (2 ^ 31) \<or> 2 ^ 31 \<le> v then None
         else Some v)"

lemma digit_char_code: "d < 10 \<Longrightarrow> (of_char (digit_char d) :: nat) = 48 + d"
  by (simp add: digit_char_def)

lemma is_digit_digit_char [simp]: "d < 10 \<Longrightarrow> is_digit (digit_char d)"
  by (simp add: is_digit_def digit_char_code)

lemma digit_value_digit_char [simp]: "d < 10 \<Longrightarrow> digit_value (digit_char d) = d"
  by (simp add: digit_value_def digit_char_code)

lemma is_digit_not_space: "is_digit c \<Longrightarrow> \<not> is_space c"
  by (auto simp: is_digit_def is_space_def)

lemma is_digit_not_sign: "is_digit c \<Longrightarrow> c \<noteq> CHR ''-'' \<and> c \<noteq> CHR ''+'' \<and> c \<noteq> CHR '':''"
  by (auto simp: is_digit_def)

lemma dec_value_snoc: "dec_value (ds @ [c]) = dec_value ds * 10 + digit_value c"
  by (simp add: dec_value_def)

lemma nat_to_string_digits: "c \<in> set (nat_to_string n) \<Longrightarrow> is_digit c"
proof (induction n arbitrary: c rule: nat_to_string.induct)
  case (1 n)
  then show ?case
    by (cases "n < 10") (auto simp: nat_to_string.simps [of n])
qed

lemma nat_to_string_nonempty [simp]: "nat_to_string n \<noteq> []"
  by (subst nat_to_string.simps) simp

lemma dec_value_nat_to_string [simp]: "dec_value (nat_to_string n) = n"
proof (induction n rule: nat_to_string.induct)
  case (1 n)
  show ?case
  proof (cases "n < 10")
    case True
    then show ?thesis by (simp add: nat_to_string.simps [of n] dec_value_def)
  next
    case False
    with 1 show ?thesis
      by (simp add: nat_to_string.simps [of n] dec_value_snoc)
  qed
qed

lemma nat_to_string_inject: "nat_to_string m = nat_to_string n \<Longrightarrow> m = n"
  using dec_value_nat_to_string by metis

lemma split_sign_digits:
  assumes "s \<noteq> []" and "is_digit (hd s)"
  shows "split_sign (dropWhile is_space s) = (False, s)"
  using assms by (cases s) (auto simp: split_sign_def is_digit_not_space dest: is_digit_not_sign)

lemma takeWhile_digits:
  "takeWhile is_digit (nat_to_string n @ r) = nat_to_string n @ takeWhile is_digit r"
  by (simp add: takeWhile_append2 nat_to_string_digits)

lemma hd_nat_to_string: "is_digit (hd (nat_to_string n @ r))"
  by (simp add: hd_append nat_to_string_digits [OF hd_in_set])

lemma stoul_nat_to_string:
  assumes "n < 2 ^ 64" and "takeWhile is_digit r = []"
  shows "stoul (nat_to_string n @ r) = Some (word_of_nat n)"
  using assms split_sign_digits [OF _ hd_nat_to_string [of n r]]
  by (simp add: stoul_def takeWhile_digits)

lemma stoi_nat_to_string:
  assumes "n < 2 ^ 31" and "takeWhile is_digit r = []"
  shows "stoi (nat_to_string n @ r) = Some (int n)"
  using assms split_sign_digits [OF _ hd_nat_to_string [of n r]]
  by (simp add: stoi_def takeWhile_digits)

lemma stoi_range: "stoi s = Some v \<Longrightarrow> - (2 ^ 31) \<le> v \<and> v < 2 ^ 31"
  by (auto simp: stoi_def Let_def split: prod.splits if_splits)

end
