(* ===== verification/Types.thy ===== *)
theory Types
  imports StdText
begin

text \<open>
  The data model of \<open>src/src/include/types.h\<close>, \<open>src/src/types.cc\<close> and
  \<open>src/src/include/status_helper.h\<close>: status codes, errors, endpoints, service instances,
  call options and the framework-level request and response.

  \<open>RpcStatusCode\<close> is an enumeration with a fixed 32-bit underlying type, so a value read
  from the wire may be none of the named ones; \<open>kUnnamed\<close> stands for those values.
\<close>

section \<open>Status codes and errors\<close>

datatype RpcStatusCode =
    kOk
  | kInvalidPacket
  | kUnknownService
  | kUnknownMethod
  | kSerializeError
  | kDeserializeError
  | kNetworkError
  | kDiscoveryError
  | kInternalError
  | kUnnamed u32

definition status_to_int32 :: "RpcStatusCode \<Rightarrow> u32" where
  "status_to_int32 code = (case code of
       kOk \<Rightarrow> 0 | kInvalidPacket \<Rightarrow> 1 | kUnknownService \<Rightarrow> 2 | kUnknownMethod \<Rightarrow> 3
     | kSerializeError \<Rightarrow> 4 | kDeserializeError \<Rightarrow> 5 | kNetworkError \<Rightarrow> 6
     | kDiscoveryError \<Rightarrow> 7 | kInternalError \<Rightarrow> 8 | kUnnamed w \<Rightarrow> w)"

definition status_of_int32 :: "u32 \<Rightarrow> RpcStatusCode" where
  "status_of_int32 w =
     (if w = 0 then kOk else if w = 1 then kInvalidPacket else if w = 2 then kUnknownService
      else if w = 3 then kUnknownMethod else if w = 4 then kSerializeError
      else if w = 5 then kDeserializeError else if w = 6 then kNetworkError
      else if w = 7 then kDiscoveryError else if w = 8 then kInternalError else kUnnamed w)"

text \<open>A status value in the form \<open>status_of_int32\<close> gives it.\<close>

definition named_status :: "RpcStatusCode \<Rightarrow> bool" where
  "named_status code \<longleftrightarrow> (case code of kUnnamed w \<Rightarrow> 8 < w | _ \<Rightarrow> True)"

definition status_text :: "RpcStatusCode \<Rightarrow> string" where
  "status_text code = (case code of
       kOk \<Rightarrow> ''ok''
     | kInvalidPacket \<Rightarrow> ''invalid_packet''
     | kUnknownService \<Rightarrow> ''unknown_service''
     | kUnknownMethod \<Rightarrow> ''unknown_method''
     | kSerializeError \<Rightarrow> ''serialize_error''
     | kDeserializeError \<Rightarrow> ''deserialize_error''
     | kNetworkError \<Rightarrow> ''network_error''
     | kDiscoveryError \<Rightarrow> ''discovery_error''
     | kInternalError \<Rightarrow> ''internal_error''
     | kUnnamed _ \<Rightarrow> ''unknown'')"

record RpcError =
  err_code :: RpcStatusCode
  err_message :: string

abbreviation rpc_error :: "RpcStatusCode \<Rightarrow> string \<Rightarrow> RpcError" where
  "rpc_error c m \<equiv> \<lparr>err_code = c, err_message = m\<rparr>"

section \<open>Call options, endpoints, instances\<close>

record CallOptions =
  timeout_ms :: int
  opt_metadata :: string

definition default_call_options :: CallOptions where
  "default_call_options = \<lparr>timeout_ms = 3000, opt_metadata = []\<rparr>"

record Endpoint =
  ep_host :: string
  ep_port :: u16

definition default_endpoint :: Endpoint where
  "default_endpoint = \<lparr>ep_host = [], ep_port = 0\<rparr>"

definition Endpoint_ToString :: "Endpoint \<Rightarrow> string" where
  "Endpoint_ToString e = ep_host e @ '':'' @ nat_to_string (unat (ep_port e))"

definition Endpoint_IsValid :: "Endpoint \<Rightarrow> bool" where
  "Endpoint_IsValid e \<longleftrightarrow> ep_host e \<noteq> [] \<and> ep_port e \<noteq> 0"

record ServiceInstance =
  inst_id :: string
  inst_endpoint :: Endpoint

datatype ResolverSelectionPolicy = kRandom

section \<open>Framework requests and responses\<close>

record RpcRequest =
  req_request_id :: u64
  req_service_name :: string
  req_method_name :: string
  req_metadata :: string
  req_payload :: string

record RpcResponse =
  resp_request_id :: u64
  resp_status :: RpcStatusCode
  resp_error_text :: string
  resp_payload :: string

definition RpcResponse_Ok :: "RpcResponse \<Rightarrow> bool" where
  "RpcResponse_Ok r \<longleftrightarrow> resp_status r = kOk"

section \<open>Laws\<close>

lemma status_to_of_int32 [simp]: "status_to_int32 (status_of_int32 w) = w"
  by (simp add: status_to_int32_def status_of_int32_def)

lemma status_of_to_int32: "named_status code \<Longrightarrow> status_of_int32 (status_to_int32 code) = code"
  by (cases code) (auto simp: named_status_def status_to_int32_def status_of_int32_def)

lemma named_status_of_int32 [simp]: "named_status (status_of_int32 w)"
proof -
  have "8 < w" if "w \<noteq> 0" "w \<noteq> 1" "w \<noteq> 2" "w \<noteq> 3" "w \<noteq> 4" "w \<noteq> 5" "w \<noteq> 6" "w \<noteq> 7" "w \<noteq> 8"
  proof (rule ccontr)
    assume "\<not> 8 < w"
    then have "unat w \<le> 8"
      by (simp add: word_le_nat_alt not_less)
    then have "unat w \<in> {0, 1, 2, 3, 4, 5, 6, 7, 8}"
      by auto
    then have "w \<in> {0, 1, 2, 3, 4, 5, 6, 7, 8}"
      by (auto simp flip: word_unat_eq_iff simp: word_unat_eq_iff)
    with that show False by simp
  qed
  then show ?thesis
    by (simp add: named_status_def status_of_int32_def)
qed

text \<open>The rendered endpoint determines the endpoint: hosts without a colon never collide.\<close>

lemma Endpoint_ToString_inject:
  assumes "CHR '':'' \<notin> set (ep_host e)" "CHR '':'' \<notin> set (ep_host f)"
    and "Endpoint_ToString e = Endpoint_ToString f"
  shows "e = f"
proof -
  have eq: "ep_host e @ CHR '':'' # nat_to_string (unat (ep_port e)) =
      ep_host f @ CHR '':'' # nat_to_string (unat (ep_port f))"
    using assms(3) by (simp add: Endpoint_ToString_def)
  from arg_cong [OF eq, of "find_char CHR '':''"] have "length (ep_host e) = length (ep_host f)"
    using assms(1,2) by (simp add: find_char_append)
  with eq have "ep_host e = ep_host f"
    "nat_to_string (unat (ep_port e)) = nat_to_string (unat (ep_port f))"
    by simp_all
  then show ?thesis
    using nat_to_string_inject by (metis Endpoint.equality unit.exhaust word_unat_eq_iff)
qed

end
