(* ===== verification/Sys.thy ===== *)
theory Sys
  imports Types
begin

text \<open>
  The operating system as hxrpc sees it. The kernel is not part of the repository: each
  system call the sources make is a field of the record \<open>sys\<close>, a function of the state \<open>'w\<close>
  of the outside world, and every definition that performs a system call takes the record as
  an argument. A negative return value with \<open>errno\<close> is \<open>Err e\<close>; a transfer of zero bytes is
  \<open>Ok []\<close> or \<open>Ok 0\<close>. On Linux \<open>EWOULDBLOCK\<close> and \<open>EAGAIN\<close> are the same value.

  The predicates at the end state the documented behaviour the theorems rely on, each about
  an observation of the world: which descriptors are open (\<open>fd_laws\<close>), which bytes were handed
  to the peer (\<open>send_laws\<close>) and which bytes are waiting to be read (\<open>recv_laws\<close>).
\<close>

unbundle bit_operations_syntax

datatype errno = EAGAIN | EINTR | EINPROGRESS | EEXIST | EOTHER nat

abbreviation EWOULDBLOCK :: errno where
  "EWOULDBLOCK \<equiv> EAGAIN"

definition EPOLLIN :: u32 where "EPOLLIN = 1"
definition EPOLLOUT :: u32 where "EPOLLOUT = 4"
definition EPOLLERR :: u32 where "EPOLLERR = 8"
definition EPOLLHUP :: u32 where "EPOLLHUP = 16"
definition EPOLLONESHOT :: u32 where "EPOLLONESHOT = 1073741824"
definition O_NONBLOCK :: u32 where "O_NONBLOCK = 2048"

lemmas epoll_defs = EPOLLIN_def EPOLLOUT_def EPOLLERR_def EPOLLHUP_def EPOLLONESHOT_def

datatype epoll_op = EPOLL_CTL_ADD | EPOLL_CTL_MOD | EPOLL_CTL_DEL

record epoll_event =
  ev_events :: u32
  ev_fd :: int

record timeval =
  tv_sec :: int
  tv_usec :: int

datatype sockopt = SO_REUSEADDR | SO_RCVTIMEO timeval | SO_SNDTIMEO timeval

record 'w sys =
  sys_socket :: "'w \<Rightarrow> (errno + int) \<times> 'w"
  sys_setsockopt :: "int \<Rightarrow> sockopt \<Rightarrow> 'w \<Rightarrow> (errno + unit) \<times> 'w"
  sys_getfl :: "int \<Rightarrow> 'w \<Rightarrow> (errno + u32) \<times> 'w"
  sys_setfl :: "int \<Rightarrow> u32 \<Rightarrow> 'w \<Rightarrow> (errno + unit) \<times> 'w"
  sys_inet_pton :: "string \<Rightarrow> u32 option"
  sys_bind :: "int \<Rightarrow> u32 \<Rightarrow> u16 \<Rightarrow> 'w \<Rightarrow> (errno + unit) \<times> 'w"
  sys_listen :: "int \<Rightarrow> 'w \<Rightarrow> (errno + unit) \<times> 'w"
  sys_accept :: "int \<Rightarrow> 'w \<Rightarrow> (errno + int) \<times> 'w"
  sys_connect :: "int \<Rightarrow> u32 \<Rightarrow> u16 \<Rightarrow> 'w \<Rightarrow> (errno + unit) \<times> 'w"
  sys_so_error :: "int \<Rightarrow> 'w \<Rightarrow> (errno + errno option) \<times> 'w"
  sys_recv :: "int \<Rightarrow> nat \<Rightarrow> 'w \<Rightarrow> (errno + string) \<times> 'w"
  sys_send :: "int \<Rightarrow> string \<Rightarrow> 'w \<Rightarrow> (errno + nat) \<times> 'w"
  sys_close :: "int \<Rightarrow> 'w \<Rightarrow> 'w"
  sys_epoll_create :: "'w \<Rightarrow> (errno + int) \<times> 'w"
  sys_epoll_ctl :: "int \<Rightarrow> epoll_op \<Rightarrow> int \<Rightarrow> u32 \<Rightarrow> 'w \<Rightarrow> (errno + unit) \<times> 'w"
  sys_epoll_wait :: "int \<Rightarrow> nat \<Rightarrow> int \<Rightarrow> 'w \<Rightarrow> (errno + epoll_event list) \<times> 'w"
  sys_strerror :: "errno \<Rightarrow> string"

section \<open>Documented behaviour\<close>

text \<open>
  \<open>opened w\<close> is the set of open socket descriptors. Creating a descriptor gives a
  non-negative number that was not open; closing removes it; no other call changes the set.
\<close>

fun creates_fd :: "('w \<Rightarrow> int set) \<Rightarrow> 'w \<Rightarrow> (errno + int) \<times> 'w \<Rightarrow> bool" where
  "creates_fd opened w (Ok fd, w') \<longleftrightarrow>
     0 \<le> fd \<and> fd \<notin> opened w \<and> opened w' = insert fd (opened w)"
| "creates_fd opened w (Err e, w') \<longleftrightarrow> opened w' = opened w"

definition fd_laws :: "'w sys \<Rightarrow> ('w \<Rightarrow> int set) \<Rightarrow> bool" where
  "fd_laws os opened \<longleftrightarrow>
     (\<forall>w. creates_fd opened w (sys_socket os w)) \<and>
     (\<forall>l w. creates_fd opened w (sys_accept os l w)) \<and>
     (\<forall>fd w. opened (sys_close os fd w) = opened w - {fd}) \<and>
     (\<forall>fd opt w. opened (snd (sys_setsockopt os fd opt w)) = opened w) \<and>
     (\<forall>fd w. opened (snd (sys_getfl os fd w)) = opened w) \<and>
     (\<forall>fd fl w. opened (snd (sys_setfl os fd fl w)) = opened w) \<and>
     (\<forall>fd a p w. opened (snd (sys_bind os fd a p w)) = opened w) \<and>
     (\<forall>fd w. opened (snd (sys_listen os fd w)) = opened w) \<and>
     (\<forall>fd a p w. opened (snd (sys_connect os fd a p w)) = opened w) \<and>
     (\<forall>fd w. opened (snd (sys_so_error os fd w)) = opened w) \<and>
     (\<forall>fd n w. opened (snd (sys_recv os fd n w)) = opened w) \<and>
     (\<forall>fd d w. opened (snd (sys_send os fd d w)) = opened w) \<and>
     (\<forall>ep oper fd ev w. opened (snd (sys_epoll_ctl os ep oper fd ev w)) = opened w) \<and>
     (\<forall>ep n t w. opened (snd (sys_epoll_wait os ep n t w)) = opened w)"

text \<open>
  \<open>wire w fd\<close> is everything the kernel has taken over for the peer of \<open>fd\<close>, in order: \<open>send\<close>
  takes a prefix of what it is offered, a failed \<open>send\<close> takes nothing, and receiving, changing
  the epoll interest set or closing a descriptor takes back nothing.
\<close>

fun takes_prefix ::
  "('w \<Rightarrow> int \<Rightarrow> string) \<Rightarrow> int \<Rightarrow> string \<Rightarrow> 'w \<Rightarrow> (errno + nat) \<times> 'w \<Rightarrow> bool" where
  "takes_prefix wire fd d w (Ok n, w') \<longleftrightarrow>
     n \<le> length d \<and> wire w' = (wire w)(fd := wire w fd @ take n d)"
| "takes_prefix wire fd d w (Err e, w') \<longleftrightarrow> wire w' = wire w"

definition send_laws :: "'w sys \<Rightarrow> ('w \<Rightarrow> int \<Rightarrow> string) \<Rightarrow> bool" where
  "send_laws os wire \<longleftrightarrow>
     (\<forall>fd d w. takes_prefix wire fd d w (sys_send os fd d w)) \<and>
     (\<forall>ep oper fd ev w. wire (snd (sys_epoll_ctl os ep oper fd ev w)) = wire w) \<and>
     (\<forall>fd w. wire (sys_close os fd w) = wire w) \<and>
     (\<forall>fd n w. wire (snd (sys_recv os fd n w)) = wire w)"

text \<open>
  \<open>inbox w fd\<close> is the byte stream from the peer of \<open>fd\<close> that was not read yet: \<open>recv\<close> removes
  what it returns from its front, at most as many bytes as asked for.
\<close>

fun reads_front ::
  "('w \<Rightarrow> int \<Rightarrow> string) \<Rightarrow> int \<Rightarrow> nat \<Rightarrow> 'w \<Rightarrow> (errno + string) \<times> 'w \<Rightarrow> bool" where
  "reads_front inbox fd n w (Ok d, w') \<longleftrightarrow>
     length d \<le> n \<and> inbox w = (inbox w')(fd := d @ inbox w' fd)"
| "reads_front inbox fd n w (Err e, w') \<longleftrightarrow> inbox w' = inbox w"

definition recv_laws :: "'w sys \<Rightarrow> ('w \<Rightarrow> int \<Rightarrow> string) \<Rightarrow> bool" where
  "recv_laws os inbox \<longleftrightarrow> (\<forall>fd n w. reads_front inbox fd n w (sys_recv os fd n w))"

lemma fd_laws_socket: "fd_laws os opened \<Longrightarrow> creates_fd opened w (sys_socket os w)"
  by (simp add: fd_laws_def)

lemma fd_laws_accept: "fd_laws os opened \<Longrightarrow> creates_fd opened w (sys_accept os l w)"
  by (simp add: fd_laws_def)

lemma fd_laws_keep:
  assumes "fd_laws os opened"
  shows "opened (sys_close os fd w) = opened w - {fd}"
    and "opened (snd (sys_setsockopt os fd opt w)) = opened w"
    and "opened (snd (sys_getfl os fd w)) = opened w"
    and "opened (snd (sys_setfl os fd fl w)) = opened w"
    and "opened (snd (sys_bind os fd a p w)) = opened w"
    and "opened (snd (sys_listen os fd w)) = opened w"
    and "opened (snd (sys_connect os fd a p w)) = opened w"
    and "opened (snd (sys_so_error os fd w)) = opened w"
    and "opened (snd (sys_recv os fd n w)) = opened w"
    and "opened (snd (sys_send os fd d w)) = opened w"
    and "opened (snd (sys_epoll_ctl os ep oper fd ev w)) = opened w"
    and "opened (snd (sys_epoll_wait os ep n t w)) = opened w"
  using assms by (simp_all add: fd_laws_def)

text \<open>The same facts for a call whose result is known, as proofs by cases need them.\<close>

lemma fd_laws_results:
  assumes "fd_laws os opened"
  shows "sys_setsockopt os fd opt w = (r1, w') \<Longrightarrow> opened w' = opened w"
    and "sys_getfl os fd w = (r2, w') \<Longrightarrow> opened w' = opened w"
    and "sys_setfl os fd fl w = (r3, w') \<Longrightarrow> opened w' = opened w"
    and "sys_bind os fd a p w = (r4, w') \<Longrightarrow> opened w' = opened w"
    and "sys_listen os fd w = (r5, w') \<Longrightarrow> opened w' = opened w"
    and "sys_connect os fd a p w = (r6, w') \<Longrightarrow> opened w' = opened w"
    and "sys_so_error os fd w = (r7, w') \<Longrightarrow> opened w' = opened w"
    and "sys_recv os fd n w = (r8, w') \<Longrightarrow> opened w' = opened w"
    and "sys_send os fd d w = (r9, w') \<Longrightarrow> opened w' = opened w"
    and "sys_epoll_wait os ep n t w = (r10, w') \<Longrightarrow> opened w' = opened w"
  using fd_laws_keep [OF assms] by (metis snd_conv)+

lemma send_laws_send: "send_laws os wire \<Longrightarrow> takes_prefix wire fd d w (sys_send os fd d w)"
  by (simp add: send_laws_def)

lemma send_laws_keep:
  assumes "send_laws os wire"
  shows "wire (snd (sys_epoll_ctl os ep oper fd ev w)) = wire w"
    and "wire (sys_close os fd w) = wire w"
    and "wire (snd (sys_recv os fd n w)) = wire w"
  using assms by (simp_all add: send_laws_def)

lemma recv_laws_recv: "recv_laws os inbox \<Longrightarrow> reads_front inbox fd n w (sys_recv os fd n w)"
  by (simp add: recv_laws_def)

end
