(* ===== verification/Reactor.thy ===== *)
theory Reactor
  imports Sys
begin

text \<open>
  The event dispatcher of the server, \<open>src/src/reactor.cc\<close> and
  \<open>src/src/include/reactor.h\<close>: registration of descriptors with their callbacks, and the
  epoll loop that dispatches ready events.

  Callbacks (\<open>std::function\<close> values) are identifiers of a type \<open>'cb\<close>; an empty
  \<open>std::function\<close> is \<open>None\<close>. What a callback does is the argument \<open>invoke\<close>: it may change
  the whole state of the program, of which the reactor is the base record, including the
  reactor's own handler table. \<open>dispatch_event\<close> keeps the iterator of the source: when
  the readable callback erased the entry, the following look at its writable callback is a
  read of freed memory, the outcome \<open>UseAfterFree\<close>.
\<close>

record 'cb Handler =
  h_events :: u32
  on_readable :: "'cb option"
  on_writable :: "'cb option"
  on_error :: "'cb option"

record ('cb, 'w) reactor =
  world :: 'w
  epoll_fd :: int
  running :: bool
  max_events :: nat
  handlers :: "(int, 'cb Handler) umap"

definition Reactor_new :: "'w sys \<Rightarrow> nat \<Rightarrow> 'w \<Rightarrow> ('cb, 'w) reactor" where
  "Reactor_new os n w =
     (let (r, w') = sys_epoll_create os w
      in \<lparr>world = w', epoll_fd = (case r of Ok fd \<Rightarrow> fd | Err _ \<Rightarrow> -1), running = False,
          max_events = n, handlers = []\<rparr>)"

definition Reactor_destroy ::
  "'w sys \<Rightarrow> ('cb, 'w, 'z) reactor_scheme \<Rightarrow> ('cb, 'w, 'z) reactor_scheme" where
  "Reactor_destroy os s =
     (if 0 \<le> epoll_fd s then s\<lparr>world := sys_close os (epoll_fd s) (world s)\<rparr> else s)"

definition Reactor_Add ::
  "'w sys \<Rightarrow> int \<Rightarrow> u32 \<Rightarrow> 'cb option \<Rightarrow> 'cb option \<Rightarrow> 'cb option \<Rightarrow>
   ('cb, 'w, 'z) reactor_scheme \<Rightarrow> ('cb, 'w, 'z) reactor_scheme" where
  "Reactor_Add os fd events readable writable err s =
     s\<lparr>world := snd (sys_epoll_ctl os (epoll_fd s) EPOLL_CTL_ADD fd events (world s)),
       handlers := umap_put fd
         \<lparr>h_events = events, on_readable = readable, on_writable = writable, on_error = err\<rparr>
         (handlers s)\<rparr>"

definition Reactor_Update ::
  "'w sys \<Rightarrow> int \<Rightarrow> u32 \<Rightarrow> ('cb, 'w, 'z) reactor_scheme \<Rightarrow> ('cb, 'w, 'z) reactor_scheme" where
  "Reactor_Update os fd events s =
     (case umap_find (handlers s) fd of
        None \<Rightarrow> s
      | Some h \<Rightarrow>
          s\<lparr>world := snd (sys_epoll_ctl os (epoll_fd s) EPOLL_CTL_MOD fd events (world s)),
            handlers := umap_put fd (h\<lparr>h_events := events\<rparr>) (handlers s)\<rparr>)"

definition Reactor_Remove ::
  "'w sys \<Rightarrow> int \<Rightarrow> ('cb, 'w, 'z) reactor_scheme \<Rightarrow> ('cb, 'w, 'z) reactor_scheme" where
  "Reactor_Remove os fd s =
     s\<lparr>world := snd (sys_epoll_ctl os (epoll_fd s) EPOLL_CTL_DEL fd 0 (world s)),
       handlers := umap_erase fd (handlers s)\<rparr>"

definition Reactor_Stop :: "('cb, 'w, 'z) reactor_scheme \<Rightarrow> ('cb, 'w, 'z) reactor_scheme" where
  "Reactor_Stop s = s\<lparr>running := False\<rparr>"

definition has_event :: "u32 \<Rightarrow> u32 \<Rightarrow> bool" where
  "has_event events bits \<longleftrightarrow> events AND bits \<noteq> 0"

definition call_if_set ::
  "('cb \<Rightarrow> int \<Rightarrow> 's \<Rightarrow> 's run) \<Rightarrow> 'cb option \<Rightarrow> int \<Rightarrow> 's \<Rightarrow> 's run" where
  "call_if_set invoke cb fd s = (case cb of None \<Rightarrow> returns s | Some c \<Rightarrow> invoke c fd s)"

definition dispatch_event ::
  "('cb \<Rightarrow> int \<Rightarrow> ('cb, 'w, 'z) reactor_scheme \<Rightarrow> ('cb, 'w, 'z) reactor_scheme run) \<Rightarrow>
   epoll_event \<Rightarrow> ('cb, 'w, 'z) reactor_scheme \<Rightarrow> ('cb, 'w, 'z) reactor_scheme run" where
  "dispatch_event invoke ev s =
     (let fd = ev_fd ev in
      case umap_find (handlers s) fd of
        None \<Rightarrow> returns s
      | Some h \<Rightarrow>
          if has_event (ev_events ev) (EPOLLERR OR EPOLLHUP) then call_if_set invoke (on_error h) fd s
          else
            bind_run
              (if has_event (ev_events ev) EPOLLIN then call_if_set invoke (on_readable h) fd s
               else returns s)
              (\<lambda>s1. if has_event (ev_events ev) EPOLLOUT
                    then (case umap_find (handlers s1) fd of
                            None \<Rightarrow> Some (Inl UseAfterFree)
                          | Some h1 \<Rightarrow> call_if_set invoke (on_writable h1) fd s1)
                    else returns s1))"

fun dispatch_events ::
  "('cb \<Rightarrow> int \<Rightarrow> ('cb, 'w, 'z) reactor_scheme \<Rightarrow> ('cb, 'w, 'z) reactor_scheme run) \<Rightarrow>
   epoll_event list \<Rightarrow> ('cb, 'w, 'z) reactor_scheme \<Rightarrow> ('cb, 'w, 'z) reactor_scheme run" where
  "dispatch_events invoke [] s = returns s"
| "dispatch_events invoke (ev # evs) s =
     bind_run (dispatch_event invoke ev s) (dispatch_events invoke evs)"

text \<open>
  One turn of the loop: \<open>True\<close> with the new state when the loop goes on to test \<open>running_\<close>
  again, \<open>False\<close> when it breaks out after an \<open>epoll_wait\<close> failure other than \<open>EINTR\<close>.
\<close>

definition Reactor_turn ::
  "'w sys \<Rightarrow> ('cb \<Rightarrow> int \<Rightarrow> ('cb, 'w, 'z) reactor_scheme \<Rightarrow> ('cb, 'w, 'z) reactor_scheme run) \<Rightarrow>
   ('cb, 'w, 'z) reactor_scheme \<Rightarrow> (bool \<times> ('cb, 'w, 'z) reactor_scheme) run" where
  "Reactor_turn os invoke s =
     (let (ready, w') = sys_epoll_wait os (epoll_fd s) (max_events s) 100 (world s);
          s1 = s\<lparr>world := w'\<rparr>
      in case ready of
           Err e \<Rightarrow> if e = EINTR then returns (True, s1) else returns (False, s1)
         | Ok evs \<Rightarrow> bind_run (dispatch_events invoke evs s1) (\<lambda>s2. returns (True, s2)))"

partial_function (option) Reactor_loop ::
  "'w sys \<Rightarrow> ('cb \<Rightarrow> int \<Rightarrow> ('cb, 'w, 'z) reactor_scheme \<Rightarrow> ('cb, 'w, 'z) reactor_scheme run) \<Rightarrow>
   ('cb, 'w, 'z) reactor_scheme \<Rightarrow> ('cb, 'w, 'z) reactor_scheme run" where
  "Reactor_loop os invoke s =
     (if running s
      then (case Reactor_turn os invoke s of
              None \<Rightarrow> None
            | Some (Inl e) \<Rightarrow> Some (Inl e)
            | Some (Inr (go_on, s1)) \<Rightarrow> if go_on then Reactor_loop os invoke s1 else returns s1)
      else returns s)"

definition Reactor_Loop ::
  "'w sys \<Rightarrow> ('cb \<Rightarrow> int \<Rightarrow> ('cb, 'w, 'z) reactor_scheme \<Rightarrow> ('cb, 'w, 'z) reactor_scheme run) \<Rightarrow>
   ('cb, 'w, 'z) reactor_scheme \<Rightarrow> ('cb, 'w, 'z) reactor_scheme run" where
  "Reactor_Loop os invoke s = Reactor_loop os invoke (s\<lparr>running := True\<rparr>)"

text \<open>
  The loop as a machine: other threads may call \<open>Stop\<close> between any two steps of the loop
  thread. \<open>served\<close> holds of the states the program can be in while serving.
\<close>

inductive served ::
  "'w sys \<Rightarrow> ('cb \<Rightarrow> int \<Rightarrow> ('cb, 'w, 'z) reactor_scheme \<Rightarrow> ('cb, 'w, 'z) reactor_scheme run) \<Rightarrow>
   ('cb, 'w, 'z) reactor_scheme \<Rightarrow> ('cb, 'w, 'z) reactor_scheme \<Rightarrow> bool"
  for os invoke s0 where
  start: "served os invoke s0 (s0\<lparr>running := True\<rparr>)"
| turn: "served os invoke s0 s \<Longrightarrow> running s \<Longrightarrow> Reactor_turn os invoke s = returns (b, s') \<Longrightarrow>
    served os invoke s0 s'"
| stop: "served os invoke s0 s \<Longrightarrow> served os invoke s0 (Reactor_Stop s)"

section \<open>Invariants of a program built on the reactor\<close>

text \<open>
  What the reactor asks of its client: an invariant of the program state that every callback
  keeps on return and that does not depend on the running flag or on the part of the world
  that \<open>epoll_wait\<close> changes. Then dispatching, a turn, the loop and concurrent stops keep it.
\<close>

locale reactor_client =
  fixes os :: "'w sys"
    and invoke :: "'cb \<Rightarrow> int \<Rightarrow> ('cb, 'w, 'z) reactor_scheme \<Rightarrow> ('cb, 'w, 'z) reactor_scheme run"
    and good :: "('cb, 'w, 'z) reactor_scheme \<Rightarrow> bool"
  assumes invoke_good: "good s \<Longrightarrow> umap_find (handlers s) fd = Some h \<Longrightarrow>
      cb \<in> set_option (on_readable h) \<union> set_option (on_writable h) \<union> set_option (on_error h) \<Longrightarrow>
      invoke cb fd s = returns s' \<Longrightarrow> good s'"
    and running_good: "good s \<Longrightarrow> good (s\<lparr>running := b\<rparr>)"
    and wait_good: "good s \<Longrightarrow> sys_epoll_wait os ep n t (world s) = (r, w') \<Longrightarrow> good (s\<lparr>world := w'\<rparr>)"
begin

lemma call_if_set_good:
  assumes "good s" "umap_find (handlers s) fd = Some h"
    and "cb = on_readable h \<or> cb = on_writable h \<or> cb = on_error h"
    and "call_if_set invoke cb fd s = returns s'"
  shows "good s'"
proof (cases cb)
  case None
  with assms show ?thesis by (simp add: call_if_set_def)
next
  case (Some c)
  with assms(3) have "c \<in> set_option (on_readable h) \<union> set_option (on_writable h) \<union> set_option (on_error h)"
    by auto
  with Some assms(1,2,4) show ?thesis
    by (auto simp: call_if_set_def intro: invoke_good)
qed

lemma dispatch_event_good:
  assumes "good s" and "dispatch_event invoke ev s = returns s'"
  shows "good s'"
proof (cases "umap_find (handlers s) (ev_fd ev)")
  case None
  with assms show ?thesis by (simp add: dispatch_event_def)
next
  case (Some h)
  show ?thesis
  proof (cases "has_event (ev_events ev) (EPOLLERR OR EPOLLHUP)")
    case True
    with Some assms show ?thesis
      by (auto simp: dispatch_event_def Let_def intro: call_if_set_good)
  next
    case False
    with Some assms(2) obtain s1 where
      one: "(if has_event (ev_events ev) EPOLLIN then call_if_set invoke (on_readable h) (ev_fd ev) s
         else returns s) = returns s1" and
      two: "(if has_event (ev_events ev) EPOLLOUT
         then (case umap_find (handlers s1) (ev_fd ev) of None \<Rightarrow> Some (Inl UseAfterFree)
               | Some h1 \<Rightarrow> call_if_set invoke (on_writable h1) (ev_fd ev) s1)
         else returns s1) = returns s'"
      by (auto simp: dispatch_event_def Let_def bind_run_eq_returns)
    from one assms(1) Some have "good s1"
      by (auto intro: call_if_set_good split: if_splits)
    with two show ?thesis
      by (auto intro: call_if_set_good split: if_splits option.splits)
  qed
qed

lemma dispatch_events_good:
  "good s \<Longrightarrow> dispatch_events invoke evs s = returns s' \<Longrightarrow> good s'"
  by (induction evs arbitrary: s) (auto simp: bind_run_eq_returns dest: dispatch_event_good)

lemma turn_good:
  assumes "good s" and "Reactor_turn os invoke s = returns (b, s')"
  shows "good s'"
proof -
  obtain r w' where wait: "sys_epoll_wait os (epoll_fd s) (max_events s) 100 (world s) = (r, w')"
    by fastforce
  have "good (s\<lparr>world := w'\<rparr>)"
    by (rule wait_good [OF assms(1) wait])
  with assms(2) wait show ?thesis
    by (auto simp: Reactor_turn_def Let_def bind_run_eq_returns dest: dispatch_events_good
        split: sum.splits if_splits)
qed

lemma served_good: "served os invoke s0 s \<Longrightarrow> good s0 \<Longrightarrow> good s"
proof (induction rule: served.induct)
  case start
  then show ?case by (rule running_good)
next
  case (turn s b s')
  then show ?case by (blast intro: turn_good)
next
  case (stop s)
  then show ?case by (simp add: Reactor_Stop_def running_good)
qed

lemma loop_good:
  assumes ret: "Reactor_loop os invoke s = returns s'" and "good s"
  shows "good s'"
proof -
  define P where "P os' inv s r \<longleftrightarrow>
    (os' = os \<longrightarrow> inv = invoke \<longrightarrow> (\<forall>t. r = Inr t \<longrightarrow> good s \<longrightarrow> good t))"
    for os' inv s and r :: "fault + ('cb, 'w, 'z) reactor_scheme"
  have "P os invoke s (Inr s')"
  proof (rule Reactor_loop.raw_induct [where P = P, OF _ ret])
    fix f os' inv s r
    assume IH: "\<And>os' inv s r. f os' inv s = Some r \<Longrightarrow> P os' inv s r"
      and eq: "(if running s
        then (case Reactor_turn os' inv s of None \<Rightarrow> None | Some (Inl e) \<Rightarrow> Some (Inl e)
              | Some (Inr (go_on, s1)) \<Rightarrow> if go_on then f os' inv s1 else returns s1)
        else returns s) = Some r"
    show "P os' inv s r"
      unfolding P_def
    proof (intro impI allI)
      fix t
      assume "os' = os" "inv = invoke" "r = Inr t" "good s"
      then show "good t"
        using eq by (auto split: if_splits option.splits sum.splits prod.splits
            dest: turn_good IH [unfolded P_def, rule_format])
    qed
  qed
  with assms(2) show ?thesis by (simp add: P_def)
qed

end

end
