(* ===== verification/Codec.thy ===== *)
theory Codec
  imports Types
begin

text \<open>
  The wire codec, \<open>src/src/codec.cc\<close>: \<open>EncodeFrame\<close> and \<open>SplitFrame\<close> at the level of
  frames, \<open>EncodeRequest\<close>, \<open>EncodeResponse\<close>, \<open>DecodeRequest\<close> and \<open>DecodeResponse\<close> at the
  level of requests and responses.

  The two header messages of \<open>src/src/header.proto\<close> are records; the classes that the
  protobuf compiler generates from them are not part of the repository, so serialising
  and parsing a header is a parameter (\<open>pb_headers\<close>), and \<open>pb_headers_ok\<close> states the
  documented protobuf contract: a message serialises to less than 2 GiB and parses back to
  itself. \<open>wire_codec\<close> is the interface that client and server rely on; both directions of
  the codec interpret it.
\<close>

section \<open>Headers\<close>

record RpcHeader =
  hdr_request_id :: u64
  hdr_service_name :: string
  hdr_method_name :: string
  hdr_args_size :: u32
  hdr_meta_size :: u32

record RpcResponseHeader =
  rhdr_request_id :: u64
  rhdr_status_code :: u32
  rhdr_error_text :: string
  rhdr_payload_size :: u32

record pb_headers =
  SerializeRpcHeader :: "RpcHeader \<Rightarrow> string option"
  ParseRpcHeader :: "string \<Rightarrow> int \<Rightarrow> RpcHeader option"
  SerializeRpcResponseHeader :: "RpcResponseHeader \<Rightarrow> string option"
  ParseRpcResponseHeader :: "string \<Rightarrow> int \<Rightarrow> RpcResponseHeader option"

definition pb_headers_ok :: "pb_headers \<Rightarrow> bool" where
  "pb_headers_ok pb \<longleftrightarrow>
     (\<forall>h b. SerializeRpcHeader pb h = Some b \<longrightarrow>
        length b < 2 ^ 31 \<and> ParseRpcHeader pb b (int (length b)) = Some h) \<and>
     (\<forall>h b. SerializeRpcResponseHeader pb h = Some b \<longrightarrow>
        length b < 2 ^ 31 \<and> ParseRpcResponseHeader pb b (int (length b)) = Some h)"

text \<open>\<open>static_cast<int>\<close> of a size.\<close>

definition size_to_int :: "nat \<Rightarrow> int" where
  "size_to_int n = sint (word_of_nat n :: u32)"

section \<open>Frames\<close>

definition kLengthPrefixSize :: nat where
  "kLengthPrefixSize = 4"

definition EncodeFrame :: "string \<Rightarrow> string \<Rightarrow> RpcError + string" where
  "EncodeFrame header payload =
     (let frame_size = word_of_nat (kLengthPrefixSize + length header + length payload);
          header_size = word_of_nat (length header)
      in Ok (be32 frame_size @ be32 header_size @ header @ payload))"

definition SplitFrame :: "string \<Rightarrow> RpcError + (string \<times> string)" where
  "SplitFrame frame =
     (if length frame < kLengthPrefixSize * 2
      then Err (rpc_error kInvalidPacket ''frame is too small'')
      else
        let declared_frame_size = un_be32 (take kLengthPrefixSize frame) in
        if length frame \<noteq> kLengthPrefixSize + unat declared_frame_size
        then Err (rpc_error kInvalidPacket ''frame length prefix does not match'')
        else
          let header_size = un_be32 (take kLengthPrefixSize (drop kLengthPrefixSize frame)) in
          if length frame < kLengthPrefixSize * 2 + unat header_size
          then Err (rpc_error kInvalidPacket ''header length exceeds frame size'')
          else Ok (take (unat header_size) (drop (kLengthPrefixSize * 2) frame),
                   drop (kLengthPrefixSize * 2 + unat header_size) frame))"

section \<open>Requests and responses\<close>

definition EncodeRequest :: "pb_headers \<Rightarrow> RpcRequest \<Rightarrow> RpcError + string" where
  "EncodeRequest pb request =
     (let header = \<lparr>hdr_request_id = req_request_id request,
                    hdr_service_name = req_service_name request,
                    hdr_method_name = req_method_name request,
                    hdr_args_size = word_of_nat (length (req_payload request)),
                    hdr_meta_size = word_of_nat (length (req_metadata request))\<rparr>
      in case SerializeRpcHeader pb header of
           None \<Rightarrow> Err (rpc_error kSerializeError ''failed to serialize request header'')
         | Some header_buffer \<Rightarrow>
             EncodeFrame header_buffer (req_metadata request @ req_payload request))"

definition EncodeResponse :: "pb_headers \<Rightarrow> RpcResponse \<Rightarrow> RpcError + string" where
  "EncodeResponse pb response =
     (let header = \<lparr>rhdr_request_id = resp_request_id response,
                    rhdr_status_code = status_to_int32 (resp_status response),
                    rhdr_error_text = resp_error_text response,
                    rhdr_payload_size = word_of_nat (length (resp_payload response))\<rparr>
      in case SerializeRpcResponseHeader pb header of
           None \<Rightarrow> Err (rpc_error kSerializeError ''failed to serialize response header'')
         | Some header_buffer \<Rightarrow> EncodeFrame header_buffer (resp_payload response))"

definition DecodeRequest :: "pb_headers \<Rightarrow> string \<Rightarrow> RpcError + RpcRequest" where
  "DecodeRequest pb frame =
     (case SplitFrame frame of
        Err e \<Rightarrow> Err e
      | Ok (header_view, payload_view) \<Rightarrow>
          (case ParseRpcHeader pb header_view (size_to_int (length header_view)) of
             None \<Rightarrow> Err (rpc_error kInvalidPacket ''failed to parse request header'')
           | Some header \<Rightarrow>
               let expected_size = unat (hdr_meta_size header) + unat (hdr_args_size header) in
               if length payload_view \<noteq> expected_size
               then Err (rpc_error kInvalidPacket ''request payload length mismatch'')
               else Ok \<lparr>req_request_id = hdr_request_id header,
                        req_service_name = hdr_service_name header,
                        req_method_name = hdr_method_name header,
                        req_metadata = take (unat (hdr_meta_size header)) payload_view,
                        req_payload = drop (unat (hdr_meta_size header)) payload_view\<rparr>))"

definition DecodeResponse :: "pb_headers \<Rightarrow> string \<Rightarrow> RpcError + RpcResponse" where
  "DecodeResponse pb frame =
     (case SplitFrame frame of
        Err e \<Rightarrow> Err e
      | Ok (header_view, payload_view) \<Rightarrow>
          (case ParseRpcResponseHeader pb header_view (size_to_int (length header_view)) of
             None \<Rightarrow> Err (rpc_error kInvalidPacket ''failed to parse response header'')
           | Some header \<Rightarrow>
               if length payload_view \<noteq> unat (rhdr_payload_size header)
               then Err (rpc_error kInvalidPacket ''response payload length mismatch'')
               else Ok \<lparr>resp_request_id = rhdr_request_id header,
                        resp_status = status_of_int32 (rhdr_status_code header),
                        resp_error_text = rhdr_error_text header,
                        resp_payload = payload_view\<rparr>))"

section \<open>Facts about frames\<close>

text \<open>A byte string whose length prefix says how long it is, as the framing layers require.\<close>

definition well_framed :: "string \<Rightarrow> bool" where
  "well_framed f \<longleftrightarrow> 8 \<le> length f \<and> length f = 4 + unat (un_be32 (take 4 f))"

lemma size_to_int_small: "n < 2 ^ 31 \<Longrightarrow> size_to_int n = int n"
  by (simp add: size_to_int_def signed_of_nat signed_take_bit_eq_if_positive
      bit_iff_odd take_bit_nat_eq_self flip: of_nat_take_bit)

lemma EncodeFrame_length: "EncodeFrame h p = Ok f \<Longrightarrow> length f = 8 + length h + length p"
  by (auto simp: EncodeFrame_def Let_def)

lemma SplitFrame_too_long:
  assumes "EncodeFrame h p = Ok f" and "4294967300 \<le> length f"
  shows "SplitFrame f = Err (rpc_error kInvalidPacket ''frame length prefix does not match'')"
proof -
  have f: "f = be32 (word_of_nat (4 + length h + length p)) @ be32 (word_of_nat (length h)) @ h @ p"
    using assms(1) by (simp add: EncodeFrame_def Let_def kLengthPrefixSize_def)
  have "unat (word_of_nat (4 + length h + length p) :: u32) < 4294967296"
    by (rule unat_u32_less)
  then show ?thesis
    using assms by (simp add: SplitFrame_def Let_def kLengthPrefixSize_def f)
qed

lemma SplitFrame_EncodeFrame:
  assumes "EncodeFrame h p = Ok f" and "length f < 4294967300"
  shows "SplitFrame f = Ok (h, p)"
proof -
  have f: "f = be32 (word_of_nat (4 + length h + length p)) @ be32 (word_of_nat (length h)) @ h @ p"
    using assms(1) by (simp add: EncodeFrame_def Let_def kLengthPrefixSize_def)
  have small: "4 + length h + length p < 4294967296"
    using assms EncodeFrame_length by fastforce
  then have sizes: "unat (word_of_nat (4 + length h + length p) :: u32) = 4 + length h + length p"
    "unat (word_of_nat (length h) :: u32) = length h"
    by (simp_all only: unat_u32)
  show ?thesis
    unfolding SplitFrame_def Let_def kLengthPrefixSize_def f
    by (simp add: sizes del: of_nat_add)
qed

lemma EncodeFrame_well_framed:
  assumes "EncodeFrame h p = Ok f" and "length f < 4294967300"
  shows "well_framed f"
proof -
  have f: "f = be32 (word_of_nat (4 + length h + length p)) @ be32 (word_of_nat (length h)) @ h @ p"
    using assms(1) by (simp add: EncodeFrame_def Let_def kLengthPrefixSize_def)
  have "unat (word_of_nat (4 + length h + length p) :: u32) = 4 + length h + length p"
    using assms EncodeFrame_length by (intro unat_u32) fastforce
  then show ?thesis
    unfolding well_framed_def f by (simp del: of_nat_add)
qed

lemma SplitFrame_Ok_iff:
  "SplitFrame f = Ok (h, p) \<longleftrightarrow> EncodeFrame h p = Ok f \<and> length f < 4294967300"
proof
  assume split: "SplitFrame f = Ok (h, p)"
  define n where "n = un_be32 (take 4 f)"
  define k where "k = un_be32 (take 4 (drop 4 f))"
  from split have len: "length f = 4 + unat n" "8 \<le> length f" "8 + unat k \<le> length f"
    and h: "h = take (unat k) (drop 8 f)" and p: "p = drop (8 + unat k) f"
    by (auto simp: SplitFrame_def Let_def kLengthPrefixSize_def n_def k_def split: if_splits)
  have "be32 n = take 4 f" "be32 k = take 4 (drop 4 f)"
    using len by (simp_all add: n_def k_def be32_un_be32)
  moreover have "4 + length h + length p = unat n" "length h = unat k"
    using len by (simp_all add: h p)
  moreover have "f = take 4 f @ take 4 (drop 4 f) @ h @ p"
  proof -
    have "drop 8 f = h @ p"
      by (simp add: h p add.commute flip: drop_drop)
    moreover have "drop 4 f = take 4 (drop 4 f) @ drop 8 f"
      using append_take_drop_id [of 4 "drop 4 f"] by simp
    ultimately show ?thesis
      using append_take_drop_id [of 4 f] by simp
  qed
  ultimately have "EncodeFrame h p = Ok f"
    unfolding EncodeFrame_def Let_def kLengthPrefixSize_def by simp
  moreover have "length f < 4294967300"
    using len(1) unat_u32_less [of n] by linarith
  ultimately show "EncodeFrame h p = Ok f \<and> length f < 4294967300" ..
next
  assume "EncodeFrame h p = Ok f \<and> length f < 4294967300"
  then show "SplitFrame f = Ok (h, p)"
    by (blast intro: SplitFrame_EncodeFrame)
qed

lemma SplitFrame_error_code: "SplitFrame f = Err e \<Longrightarrow> err_code e = kInvalidPacket"
  by (auto simp: SplitFrame_def Let_def split: if_splits)

section \<open>Requests and responses through the wire\<close>

abbreviation frame_limit :: nat where
  "frame_limit \<equiv> 4294967300"

lemma frame_part_sizes:
  assumes "EncodeFrame h (m @ p) = Ok f" and "length f < frame_limit"
  shows "unat (word_of_nat (length m) :: u32) = length m"
    and "unat (word_of_nat (length p) :: u32) = length p"
  using EncodeFrame_length [OF assms(1)] assms(2) by (simp_all add: unat_u32)

lemma request_roundtrip:
  assumes ok: "pb_headers_ok pb" and enc: "EncodeRequest pb r = Ok f" and len: "length f < frame_limit"
  shows "DecodeRequest pb f = Ok r"
proof -
  define h where "h = \<lparr>hdr_request_id = req_request_id r, hdr_service_name = req_service_name r,
    hdr_method_name = req_method_name r, hdr_args_size = word_of_nat (length (req_payload r)),
    hdr_meta_size = word_of_nat (length (req_metadata r))\<rparr>"
  from enc obtain hb where ser: "SerializeRpcHeader pb h = Some hb"
    and fr: "EncodeFrame hb (req_metadata r @ req_payload r) = Ok f"
    by (auto simp: EncodeRequest_def Let_def h_def split: option.splits)
  from ok ser have "ParseRpcHeader pb hb (size_to_int (length hb)) = Some h"
    by (simp add: pb_headers_ok_def size_to_int_small)
  with SplitFrame_EncodeFrame [OF fr len] frame_part_sizes [OF fr len] show ?thesis
    by (simp add: DecodeRequest_def Let_def h_def)
qed

lemma request_oversize:
  assumes "EncodeRequest pb r = Ok f" and "frame_limit \<le> length f"
  shows "DecodeRequest pb f = Err (rpc_error kInvalidPacket ''frame length prefix does not match'')"
  using assms by (auto simp: EncodeRequest_def DecodeRequest_def Let_def SplitFrame_too_long
      split: option.splits)

lemma response_roundtrip:
  assumes ok: "pb_headers_ok pb" and named: "named_status (resp_status r)"
    and enc: "EncodeResponse pb r = Ok f" and len: "length f < frame_limit"
  shows "DecodeResponse pb f = Ok r"
proof -
  define h where "h = \<lparr>rhdr_request_id = resp_request_id r,
    rhdr_status_code = status_to_int32 (resp_status r), rhdr_error_text = resp_error_text r,
    rhdr_payload_size = word_of_nat (length (resp_payload r))\<rparr>"
  from enc obtain hb where ser: "SerializeRpcResponseHeader pb h = Some hb"
    and fr: "EncodeFrame hb (resp_payload r) = Ok f"
    by (auto simp: EncodeResponse_def Let_def h_def split: option.splits)
  from ok ser have "ParseRpcResponseHeader pb hb (size_to_int (length hb)) = Some h"
    by (simp add: pb_headers_ok_def size_to_int_small)
  moreover have "unat (word_of_nat (length (resp_payload r)) :: u32) = length (resp_payload r)"
    using frame_part_sizes(2) [of hb "[]"] fr len by simp
  ultimately show ?thesis
    using SplitFrame_EncodeFrame [OF fr len] named
    by (simp add: DecodeResponse_def Let_def h_def status_of_to_int32)
qed

lemma response_oversize:
  assumes "EncodeResponse pb r = Ok f" and "frame_limit \<le> length f"
  shows "DecodeResponse pb f = Err (rpc_error kInvalidPacket ''frame length prefix does not match'')"
  using assms by (auto simp: EncodeResponse_def DecodeResponse_def Let_def SplitFrame_too_long
      split: option.splits)

lemma EncodeRequest_framed:
  "EncodeRequest pb r = Ok f \<Longrightarrow> length f < frame_limit \<Longrightarrow> well_framed f"
  by (auto simp: EncodeRequest_def Let_def intro: EncodeFrame_well_framed split: option.splits)

lemma EncodeResponse_framed:
  "EncodeResponse pb r = Ok f \<Longrightarrow> length f < frame_limit \<Longrightarrow> well_framed f"
  by (auto simp: EncodeResponse_def Let_def intro: EncodeFrame_well_framed split: option.splits)

lemma DecodeRequest_error_code: "DecodeRequest pb f = Err e \<Longrightarrow> err_code e = kInvalidPacket"
  by (auto simp: DecodeRequest_def Let_def dest: SplitFrame_error_code
      split: sum.splits prod.splits option.splits if_splits)

lemma DecodeResponse_error_code: "DecodeResponse pb f = Err e \<Longrightarrow> err_code e = kInvalidPacket"
  by (auto simp: DecodeResponse_def Let_def dest: SplitFrame_error_code
      split: sum.splits prod.splits option.splits if_splits)

section \<open>The codec interface\<close>

text \<open>
  What a sender and a receiver rely on: a frame that fits the 32-bit length prefix decodes to
  the value it was made from and carries a consistent prefix; a longer one is refused; every
  refusal is reported as an invalid packet.
\<close>

locale wire_codec =
  fixes encode :: "'x \<Rightarrow> RpcError + string"
    and decode :: "string \<Rightarrow> RpcError + 'x"
    and wf :: "'x \<Rightarrow> bool"
  assumes decode_encode: "wf x \<Longrightarrow> encode x = Ok f \<Longrightarrow> length f < frame_limit \<Longrightarrow> decode f = Ok x"
    and encode_framed: "encode x = Ok f \<Longrightarrow> length f < frame_limit \<Longrightarrow> well_framed f"
    and decode_oversize: "encode x = Ok f \<Longrightarrow> frame_limit \<le> length f \<Longrightarrow> \<exists>e. decode f = Err e"
    and decode_error: "decode f = Err e \<Longrightarrow> err_code e = kInvalidPacket"
begin

lemma decode_never_wrong:
  assumes "wf x" "encode x = Ok f" "decode f = Ok y"
  shows "y = x"
proof (cases "length f < frame_limit")
  case True
  then show ?thesis using decode_encode [OF assms(1,2)] assms(3) by simp
next
  case False
  then show ?thesis using decode_oversize [OF assms(2)] assms(3) by auto
qed

lemma encode_inject:
  assumes "wf x" "wf y" "encode x = Ok f" "encode y = Ok f" "length f < frame_limit"
  shows "x = y"
  using decode_encode [OF assms(1,3,5)] decode_encode [OF assms(2,4,5)] by simp

lemma decode_or_invalid:
  assumes "wf x" "encode x = Ok f"
  shows "decode f = Ok x \<and> length f < frame_limit \<or>
    (\<exists>m. decode f = Err (rpc_error kInvalidPacket m)) \<and> frame_limit \<le> length f"
proof (cases "length f < frame_limit")
  case True
  then show ?thesis using decode_encode [OF assms] by simp
next
  case False
  then obtain e where e: "decode f = Err e"
    using decode_oversize [OF assms(2)] by auto
  then have "e = rpc_error kInvalidPacket (err_message e)"
    using decode_error [OF e] by (cases e) simp
  with e False show ?thesis by (metis not_le)
qed

end

interpretation request_codec: wire_codec "EncodeRequest pb" "DecodeRequest pb"
  "\<lambda>_. pb_headers_ok pb" for pb
  by unfold_locales
    (auto intro: request_roundtrip EncodeRequest_framed DecodeRequest_error_code dest: request_oversize)

interpretation response_codec: wire_codec "EncodeResponse pb" "DecodeResponse pb"
  "\<lambda>r. pb_headers_ok pb \<and> named_status (resp_status r)" for pb
  by unfold_locales
    (auto intro: response_roundtrip EncodeResponse_framed DecodeResponse_error_code
      dest: response_oversize)

section \<open>What a decoded frame contains\<close>

lemma DecodeRequest_layout:
  assumes "DecodeRequest pb f = Ok r"
  shows "\<exists>hb h. ParseRpcHeader pb hb (size_to_int (length hb)) = Some h \<and>
    EncodeFrame hb (req_metadata r @ req_payload r) = Ok f \<and>
    req_request_id r = hdr_request_id h \<and> req_service_name r = hdr_service_name h \<and>
    req_method_name r = hdr_method_name h \<and>
    length (req_metadata r) = unat (hdr_meta_size h) \<and>
    length (req_payload r) = unat (hdr_args_size h)"
proof -
  from assms obtain hb pv h where split: "SplitFrame f = Ok (hb, pv)"
    and parse: "ParseRpcHeader pb hb (size_to_int (length hb)) = Some h"
    and len: "length pv = unat (hdr_meta_size h) + unat (hdr_args_size h)"
    and r: "r = \<lparr>req_request_id = hdr_request_id h, req_service_name = hdr_service_name h,
      req_method_name = hdr_method_name h, req_metadata = take (unat (hdr_meta_size h)) pv,
      req_payload = drop (unat (hdr_meta_size h)) pv\<rparr>"
    by (auto simp: DecodeRequest_def Let_def split: sum.splits prod.splits option.splits if_splits)
  from split have "EncodeFrame hb pv = Ok f"
    by (simp add: SplitFrame_Ok_iff)
  with parse len show ?thesis
    by (intro exI [of _ hb] exI [of _ h]) (simp add: r)
qed

lemma DecodeResponse_layout:
  assumes "DecodeResponse pb f = Ok r"
  shows "\<exists>hb h. ParseRpcResponseHeader pb hb (size_to_int (length hb)) = Some h \<and>
    EncodeFrame hb (resp_payload r) = Ok f \<and>
    resp_request_id r = rhdr_request_id h \<and> resp_error_text r = rhdr_error_text h \<and>
    status_to_int32 (resp_status r) = rhdr_status_code h \<and>
    length (resp_payload r) = unat (rhdr_payload_size h)"
proof -
  from assms obtain hb pv h where split: "SplitFrame f = Ok (hb, pv)"
    and parse: "ParseRpcResponseHeader pb hb (size_to_int (length hb)) = Some h"
    and len: "length pv = unat (rhdr_payload_size h)"
    and r: "r = \<lparr>resp_request_id = rhdr_request_id h, resp_status = status_of_int32 (rhdr_status_code h),
      resp_error_text = rhdr_error_text h, resp_payload = pv\<rparr>"
    by (auto simp: DecodeResponse_def Let_def split: sum.splits prod.splits option.splits if_splits)
  from split have "EncodeFrame hb pv = Ok f"
    by (simp add: SplitFrame_Ok_iff)
  with parse len show ?thesis
    by (intro exI [of _ hb] exI [of _ h]) (simp add: r)
qed

end
