(* ===== verification/Framing.thy ===== *)
theory Framing
  imports Codec
begin

text \<open>
  The abstract specification of turning a TCP byte stream into frames: \<open>cut_frames\<close> takes the
  bytes received so far and gives the complete frames at their front, what is left over, and
  whether the stream is still acceptable (\<open>False\<close> once a length prefix is out of bounds).
  The server's \<open>ConnectionManager::ProcessInput\<close> and the client's \<open>ReceiveFrame\<close> are shown to
  implement it. The key fact is \<open>cut_frames_append\<close>: how the stream was divided into reads
  does not matter.
\<close>

definition kMaxFrameBodySize :: u32 where
  "kMaxFrameBodySize = 4 * 1024 * 1024"

definition bad_prefix :: "u32 \<Rightarrow> bool" where
  "bad_prefix frame_size \<longleftrightarrow> unat frame_size < 4 \<or> kMaxFrameBodySize < frame_size"

function cut_frames :: "string \<Rightarrow> string list \<times> string \<times> bool" where
  "cut_frames input =
     (if length input < 4 then ([], input, True)
      else let n = un_be32 (take 4 input) in
        if bad_prefix n then ([], input, False)
        else if length input < 4 + unat n then ([], input, True)
        else let (fs, r, good) = cut_frames (drop (4 + unat n) input)
             in (take (4 + unat n) input # fs, r, good))"
  by pat_completeness auto
termination
  by (relation "measure length") auto

declare cut_frames.simps [simp del]

text \<open>A frame that the framing layers accept.\<close>

definition acceptable_frame :: "string \<Rightarrow> bool" where
  "acceptable_frame f \<longleftrightarrow> well_framed f \<and> \<not> bad_prefix (un_be32 (take 4 f))"

lemma bad_prefix_nat: "bad_prefix n \<longleftrightarrow> unat n < 4 \<or> 4194304 < unat n"
  by (simp add: bad_prefix_def kMaxFrameBodySize_def word_less_nat_alt)

lemma acceptable_frame_length: "acceptable_frame f \<longleftrightarrow> well_framed f \<and> length f \<le> 4194308"
  by (auto simp: acceptable_frame_def bad_prefix_nat well_framed_def)

lemma cut_frames_short: "length input < 4 \<Longrightarrow> cut_frames input = ([], input, True)"
  by (simp add: cut_frames.simps)

lemma cut_frames_bad:
  "4 \<le> length input \<Longrightarrow> bad_prefix (un_be32 (take 4 input)) \<Longrightarrow> cut_frames input = ([], input, False)"
  by (simp add: cut_frames.simps)

lemma cut_frames_partial:
  "4 \<le> length input \<Longrightarrow> \<not> bad_prefix (un_be32 (take 4 input)) \<Longrightarrow>
   length input < 4 + unat (un_be32 (take 4 input)) \<Longrightarrow> cut_frames input = ([], input, True)"
  by (simp add: cut_frames.simps)

lemma cut_frames_step:
  assumes "4 \<le> length input" "n = un_be32 (take 4 input)" "\<not> bad_prefix n"
    and "4 + unat n \<le> length input" "cut_frames (drop (4 + unat n) input) = (fs, r, good)"
  shows "cut_frames input = (take (4 + unat n) input # fs, r, good)"
  using assms by (simp add: cut_frames.simps [of input])

lemma cut_frames_cases:
  obtains (short) "length input < 4" "cut_frames input = ([], input, True)"
  | (bad) "4 \<le> length input" "bad_prefix (un_be32 (take 4 input))" "cut_frames input = ([], input, False)"
  | (part) "4 \<le> length input" "\<not> bad_prefix (un_be32 (take 4 input))"
      "length input < 4 + unat (un_be32 (take 4 input))" "cut_frames input = ([], input, True)"
  | (frame) n fs r good where "4 \<le> length input" "n = un_be32 (take 4 input)" "\<not> bad_prefix n"
      "4 + unat n \<le> length input" "cut_frames (drop (4 + unat n) input) = (fs, r, good)"
      "cut_frames input = (take (4 + unat n) input # fs, r, good)"
proof -
  consider "length input < 4" | "4 \<le> length input" "bad_prefix (un_be32 (take 4 input))"
    | "4 \<le> length input" "\<not> bad_prefix (un_be32 (take 4 input))"
      "length input < 4 + unat (un_be32 (take 4 input))"
    | "4 \<le> length input" "\<not> bad_prefix (un_be32 (take 4 input))"
      "4 + unat (un_be32 (take 4 input)) \<le> length input"
    by linarith
  then show thesis
  proof cases
    case 1
    then show ?thesis using cut_frames_short short by blast
  next
    case 2
    then show ?thesis using cut_frames_bad bad by blast
  next
    case 3
    then show ?thesis using cut_frames_partial part by blast
  next
    case 4
    obtain fs r good where "cut_frames (drop (4 + unat (un_be32 (take 4 input))) input) = (fs, r, good)"
      by (cases "cut_frames (drop (4 + unat (un_be32 (take 4 input))) input)") auto
    with 4 show ?thesis by (blast intro: frame cut_frames_step)
  qed
qed

lemma cut_frames_partition:
  "cut_frames input = (fs, r, good) \<Longrightarrow> concat fs @ r = input"
proof (induction input arbitrary: fs r good rule: measure_induct_rule [where f = length])
  case (less input)
  show ?case
  proof (cases rule: cut_frames_cases [of input])
    case (frame n fs' r' good')
    then have "concat fs' @ r' = drop (4 + unat n) input"
      by (intro less.IH [of "drop (4 + unat n) input"]) auto
    with frame less.prems show ?thesis
      by (auto simp: append_take_drop_id)
  qed (use less.prems in auto)
qed

lemma cut_frames_acceptable:
  "cut_frames input = (fs, r, good) \<Longrightarrow> f \<in> set fs \<Longrightarrow> acceptable_frame f"
proof (induction input arbitrary: fs r good f rule: measure_induct_rule [where f = length])
  case (less input)
  show ?case
  proof (cases rule: cut_frames_cases [of input])
    case (frame n fs' r' good')
    have "acceptable_frame (take (4 + unat n) input)"
      using frame by (auto simp: acceptable_frame_def well_framed_def bad_prefix_nat min_def)
    moreover have "acceptable_frame g" if "g \<in> set fs'" for g
      using frame that by (intro less.IH [of "drop (4 + unat n) input" fs' r' good']) auto
    ultimately show ?thesis
      using frame less.prems by auto
  qed (use less.prems in auto)
qed

text \<open>The remainder of an acceptable stream holds no further complete frame.\<close>

lemma cut_frames_rest:
  "cut_frames input = (fs, r, good) \<Longrightarrow> cut_frames r = ([], r, good)"
proof (induction input arbitrary: fs r good rule: measure_induct_rule [where f = length])
  case (less input)
  show ?case
  proof (cases rule: cut_frames_cases [of input])
    case (frame n fs' r' good')
    then show ?thesis
      using less.IH [of "drop (4 + unat n) input" fs' r' good'] less.prems by auto
  qed (use less.prems in auto)
qed

theorem cut_frames_append:
  assumes "cut_frames a = (fs, r, good)"
  shows "cut_frames (a @ b) =
    (if good then (let (gs, q, good') = cut_frames (r @ b) in (fs @ gs, q, good'))
     else (fs, r @ b, False))"
  using assms
proof (induction a arbitrary: fs r good rule: measure_induct_rule [where f = length])
  case (less a)
  show ?case
  proof (cases rule: cut_frames_cases [of a])
    case bad
    with less.prems show ?thesis
      by (auto simp: cut_frames_bad)
  next
    case (frame n fs' r' good')
    let ?d = "drop (4 + unat n) a"
    obtain gs q g where app: "cut_frames (?d @ b) = (gs, q, g)"
      by (cases "cut_frames (?d @ b)") auto
    have "cut_frames (a @ b) = (take (4 + unat n) (a @ b) # gs, q, g)"
      using frame app by (intro cut_frames_step) auto
    moreover have "cut_frames (?d @ b) =
        (if good' then (let (gs, q, g) = cut_frames (r' @ b) in (fs' @ gs, q, g))
         else (fs', r' @ b, False))"
      using frame by (intro less.IH) auto
    ultimately show ?thesis
      using frame less.prems app by (auto simp: Let_def split: if_splits prod.splits)
  qed (use less.prems in auto)
qed

lemma cut_frames_one:
  assumes "acceptable_frame f" and "cut_frames rest = (fs, r, good)"
  shows "cut_frames (f @ rest) = (f # fs, r, good)"
proof -
  obtain n where n: "n = un_be32 (take 4 f)" and len: "4 \<le> length f" "length f = 4 + unat n"
    and ok: "\<not> bad_prefix n"
    using assms(1) unfolding acceptable_frame_def well_framed_def by auto
  have "cut_frames (f @ rest) = (take (4 + unat n) (f @ rest) # fs, r, good)"
    using n len ok assms(2) by (intro cut_frames_step) (simp_all only: take_append drop_append, simp_all)
  then show ?thesis
    by (simp only: len(2) [symmetric]) simp
qed

lemma cut_frames_concat:
  assumes "\<And>f. f \<in> set fs \<Longrightarrow> acceptable_frame f" and "cut_frames rest = (gs, r, good)"
  shows "cut_frames (concat fs @ rest) = (fs @ gs, r, good)"
  using assms(1)
proof (induction fs)
  case Nil
  then show ?case using assms(2) by simp
next
  case (Cons f fs)
  then have "cut_frames (concat fs @ rest) = (fs @ gs, r, good)" by simp
  from cut_frames_one [OF _ this, of f] Cons.prems show ?case by simp
qed

end
