(* ===== verification/ConnectionManager.thy ===== *)
theory ConnectionManager
  imports Reactor Framing
begin

text \<open>
  The connection layer of the server, \<open>src/src/connection_manager.cc\<close>: listening, accepting,
  per-connection input and output buffers, cutting the input into frames, flushing the output
  and closing.

  The state extends the reactor's record by the listening descriptor and the connection
  table. The frame handler that \<open>SetFrameHandler\<close> stores is an argument \<open>fh\<close> of the operations
  that can call it (\<open>None\<close> is an empty \<open>std::function\<close>); it may change the whole state. The
  loops over system calls are \<open>partial_function\<close>s, since nothing in the source bounds them.
  References into the connection table that the source keeps across calls are re-read from
  the table; where the entry is gone, the source reads freed memory and the outcome is
  \<open>UseAfterFree\<close>.
\<close>

record ConnectionState =
  input_buffer :: string
  output_buffer :: string
  bytes_sent :: nat

definition new_connection :: ConnectionState where
  "new_connection = \<lparr>input_buffer = [], output_buffer = [], bytes_sent = 0\<rparr>"

datatype cm_callback = CbAcceptLoop | CbHandleReadable | CbHandleWritable | CbClose

record 'w conn_mgr = "(cm_callback, 'w) reactor" +
  listen_fd :: int
  connections :: "(int, ConnectionState) umap"

section \<open>Operations\<close>

definition UpdateInterest ::
  "'w sys \<Rightarrow> int \<Rightarrow> bool \<Rightarrow> ('w, 'z) conn_mgr_scheme \<Rightarrow> ('w, 'z) conn_mgr_scheme" where
  "UpdateInterest os fd want_write s =
     Reactor_Update os fd (if want_write then EPOLLIN OR EPOLLOUT else EPOLLIN) s"

definition Close :: "'w sys \<Rightarrow> int \<Rightarrow> ('w, 'z) conn_mgr_scheme \<Rightarrow> ('w, 'z) conn_mgr_scheme" where
  "Close os fd s =
     (if fd = listen_fd s then
        (let s1 = Reactor_Remove os fd s
         in s1\<lparr>world := sys_close os fd (world s1), listen_fd := -1\<rparr>)
      else case umap_find (connections s) fd of
        None \<Rightarrow> s
      | Some _ \<Rightarrow>
          (let s1 = Reactor_Remove os fd s
           in s1\<lparr>world := sys_close os fd (world s1), connections := umap_erase fd (connections s1)\<rparr>))"

definition SetNonBlocking :: "'w sys \<Rightarrow> int \<Rightarrow> 'w \<Rightarrow> bool \<times> 'w" where
  "SetNonBlocking os fd w =
     (case sys_getfl os fd w of
        (Err _, w1) \<Rightarrow> (False, w1)
      | (Ok flags, w1) \<Rightarrow>
          (case sys_setfl os fd (flags OR O_NONBLOCK) w1 of
             (Err _, w2) \<Rightarrow> (False, w2)
           | (Ok _, w2) \<Rightarrow> (True, w2)))"

definition Listen ::
  "'w sys \<Rightarrow> Endpoint \<Rightarrow> ('w, 'z) conn_mgr_scheme \<Rightarrow> bool \<times> ('w, 'z) conn_mgr_scheme" where
  "Listen os endpoint s =
     (case sys_socket os (world s) of
        (Err _, w1) \<Rightarrow> (False, s\<lparr>world := w1, listen_fd := -1\<rparr>)
      | (Ok fd, w1) \<Rightarrow>
          let w2 = snd (sys_setsockopt os fd SO_REUSEADDR w1);
              fail = (\<lambda>w. (False, s\<lparr>world := sys_close os fd w, listen_fd := -1\<rparr>))
          in case SetNonBlocking os fd w2 of (nonblocking, w3) \<Rightarrow>
               if \<not> nonblocking then fail w3
               else
                 (case sys_inet_pton os (ep_host endpoint) of
                    None \<Rightarrow> fail w3
                  | Some addr \<Rightarrow>
                      (case sys_bind os fd addr (ep_port endpoint) w3 of
                         (Err _, w4) \<Rightarrow> fail w4
                       | (Ok _, w4) \<Rightarrow>
                           (case sys_listen os fd w4 of
                              (Err _, w5) \<Rightarrow> fail w5
                            | (Ok _, w5) \<Rightarrow>
                                (True, Reactor_Add os fd EPOLLIN (Some CbAcceptLoop) None (Some CbClose)
                                   (s\<lparr>world := w5, listen_fd := fd\<rparr>))))))"

partial_function (option) AcceptLoop ::
  "'w sys \<Rightarrow> int \<Rightarrow> ('w, 'z) conn_mgr_scheme \<Rightarrow> ('w, 'z) conn_mgr_scheme run" where
  "AcceptLoop os lfd s =
     (case sys_accept os lfd (world s) of
        (Err e, w1) \<Rightarrow>
          if e = EAGAIN \<or> e = EWOULDBLOCK then returns (s\<lparr>world := w1\<rparr>)
          else if e = EINTR then AcceptLoop os lfd (s\<lparr>world := w1\<rparr>)
          else returns (s\<lparr>world := w1\<rparr>)
      | (Ok fd, w1) \<Rightarrow>
          (case SetNonBlocking os fd w1 of
             (nonblocking, w2) \<Rightarrow>
               if \<not> nonblocking then AcceptLoop os lfd (s\<lparr>world := sys_close os fd w2\<rparr>)
               else
                 AcceptLoop os lfd
                   (Reactor_Add os fd EPOLLIN (Some CbHandleReadable) (Some CbHandleWritable) (Some CbClose)
                     (s\<lparr>world := w2, connections := umap_emplace fd new_connection (connections s)\<rparr>))))"

partial_function (option) HandleWritable ::
  "'w sys \<Rightarrow> int \<Rightarrow> ('w, 'z) conn_mgr_scheme \<Rightarrow> ('w, 'z) conn_mgr_scheme run" where
  "HandleWritable os fd s =
     (case umap_find (connections s) fd of
        None \<Rightarrow> returns s
      | Some state \<Rightarrow>
          if bytes_sent state < length (output_buffer state) then
            (case sys_send os fd (drop (bytes_sent state) (output_buffer state)) (world s) of
               (Ok written, w1) \<Rightarrow>
                 if 0 < written then
                   HandleWritable os fd
                     (s\<lparr>world := w1,
                        connections := umap_put fd
                          (state\<lparr>bytes_sent := bytes_sent state + written\<rparr>) (connections s)\<rparr>)
                 else returns (Close os fd (s\<lparr>world := w1\<rparr>))
             | (Err e, w1) \<Rightarrow>
                 if e = EINTR then HandleWritable os fd (s\<lparr>world := w1\<rparr>)
                 else if e = EAGAIN \<or> e = EWOULDBLOCK then
                   returns (UpdateInterest os fd True (s\<lparr>world := w1\<rparr>))
                 else returns (Close os fd (s\<lparr>world := w1\<rparr>)))
          else
            returns (UpdateInterest os fd False
              (s\<lparr>connections := umap_put fd (state\<lparr>output_buffer := [], bytes_sent := 0\<rparr>)
                 (connections s)\<rparr>)))"

definition Send ::
  "'w sys \<Rightarrow> int \<Rightarrow> string \<Rightarrow> ('w, 'z) conn_mgr_scheme \<Rightarrow> ('w, 'z) conn_mgr_scheme run" where
  "Send os fd frame s =
     (case umap_find (connections s) fd of
        None \<Rightarrow> returns s
      | Some state \<Rightarrow>
          HandleWritable os fd
            (UpdateInterest os fd True
              (s\<lparr>connections := umap_put fd
                   (state\<lparr>output_buffer := output_buffer state @ frame\<rparr>) (connections s)\<rparr>)))"

text \<open>
  The loop of \<open>ProcessInput\<close>; \<open>input\<close> is a reference into the table entry, read again after
  every call of the frame handler.
\<close>

partial_function (option) cut_loop ::
  "'w sys \<Rightarrow> (int \<Rightarrow> string \<Rightarrow> ('w, 'z) conn_mgr_scheme \<Rightarrow> ('w, 'z) conn_mgr_scheme run) option \<Rightarrow>
   int \<Rightarrow> ('w, 'z) conn_mgr_scheme \<Rightarrow> ('w, 'z) conn_mgr_scheme run" where
  "cut_loop os fh fd s =
     (case umap_find (connections s) fd of
        None \<Rightarrow> Some (Inl UseAfterFree)
      | Some state \<Rightarrow>
          let input = input_buffer state in
          if length input < 4 then returns s
          else let frame_size = un_be32 (take 4 input) in
            if unat frame_size < 4 \<or> kMaxFrameBodySize < frame_size then returns (Close os fd s)
            else let total_size = 4 + unat frame_size in
              if length input < total_size then returns s
              else let s1 = s\<lparr>connections := umap_put fd
                                (state\<lparr>input_buffer := drop total_size input\<rparr>) (connections s)\<rparr>
                   in case fh of
                        None \<Rightarrow> cut_loop os fh fd s1
                      | Some handler \<Rightarrow>
                          (case handler fd (take total_size input) s1 of
                             None \<Rightarrow> None
                           | Some (Inl e) \<Rightarrow> Some (Inl e)
                           | Some (Inr s2) \<Rightarrow> cut_loop os fh fd s2))"

definition ProcessInput ::
  "'w sys \<Rightarrow> (int \<Rightarrow> string \<Rightarrow> ('w, 'z) conn_mgr_scheme \<Rightarrow> ('w, 'z) conn_mgr_scheme run) option \<Rightarrow>
   int \<Rightarrow> ('w, 'z) conn_mgr_scheme \<Rightarrow> ('w, 'z) conn_mgr_scheme run" where
  "ProcessInput os fh fd s =
     (case umap_find (connections s) fd of None \<Rightarrow> returns s | Some _ \<Rightarrow> cut_loop os fh fd s)"

text \<open>
  The read loop of \<open>HandleReadable\<close>: \<open>(True, s)\<close> when it breaks out with everything read,
  \<open>(False, s)\<close> when it closed the connection and the function returns.
\<close>

partial_function (option) recv_loop ::
  "'w sys \<Rightarrow> int \<Rightarrow> ('w, 'z) conn_mgr_scheme \<Rightarrow> (bool \<times> ('w, 'z) conn_mgr_scheme) option" where
  "recv_loop os fd s =
     (case umap_find (connections s) fd of
        None \<Rightarrow> Some (False, s)
      | Some state \<Rightarrow>
          (case sys_recv os fd 4096 (world s) of
             (Ok data, w1) \<Rightarrow>
               if data \<noteq> [] then
                 recv_loop os fd
                   (s\<lparr>world := w1,
                      connections := umap_put fd
                        (state\<lparr>input_buffer := input_buffer state @ data\<rparr>) (connections s)\<rparr>)
               else Some (False, Close os fd (s\<lparr>world := w1\<rparr>))
           | (Err e, w1) \<Rightarrow>
               if e = EINTR then recv_loop os fd (s\<lparr>world := w1\<rparr>)
               else if e = EAGAIN \<or> e = EWOULDBLOCK then Some (True, s\<lparr>world := w1\<rparr>)
               else Some (False, Close os fd (s\<lparr>world := w1\<rparr>))))"

definition HandleReadable ::
  "'w sys \<Rightarrow> (int \<Rightarrow> string \<Rightarrow> ('w, 'z) conn_mgr_scheme \<Rightarrow> ('w, 'z) conn_mgr_scheme run) option \<Rightarrow>
   int \<Rightarrow> ('w, 'z) conn_mgr_scheme \<Rightarrow> ('w, 'z) conn_mgr_scheme run" where
  "HandleReadable os fh fd s =
     (case umap_find (connections s) fd of
        None \<Rightarrow> returns s
      | Some _ \<Rightarrow>
          (case recv_loop os fd s of
             None \<Rightarrow> None
           | Some (drained, s1) \<Rightarrow> if drained then ProcessInput os fh fd s1 else returns s1))"

definition cm_invoke ::
  "'w sys \<Rightarrow> (int \<Rightarrow> string \<Rightarrow> ('w, 'z) conn_mgr_scheme \<Rightarrow> ('w, 'z) conn_mgr_scheme run) option \<Rightarrow>
   cm_callback \<Rightarrow> int \<Rightarrow> ('w, 'z) conn_mgr_scheme \<Rightarrow> ('w, 'z) conn_mgr_scheme run" where
  "cm_invoke os fh cb fd s = (case cb of
       CbAcceptLoop \<Rightarrow> AcceptLoop os fd s
     | CbHandleReadable \<Rightarrow> HandleReadable os fh fd s
     | CbHandleWritable \<Rightarrow> HandleWritable os fd s
     | CbClose \<Rightarrow> returns (Close os fd s))"

definition ConnectionManager_destroy ::
  "'w sys \<Rightarrow> ('w, 'z) conn_mgr_scheme \<Rightarrow> ('w, 'z) conn_mgr_scheme" where
  "ConnectionManager_destroy os s =
     (let w1 = fold (\<lambda>(fd, _) w. sys_close os fd w) (connections s) (world s)
      in s\<lparr>world := (if 0 \<le> listen_fd s then sys_close os (listen_fd s) w1 else w1)\<rparr>)"

end
