(* ===== verification/ConnectionInvariant.thy ===== *)
theory ConnectionInvariant
  imports ConnectionManager
begin

text \<open>
  The well-formedness invariant of the connection layer and its preservation by every
  operation of \<open>ConnectionManager\<close>, for a kernel that satisfies \<open>fd_laws\<close>.

  \<open>cm_inv opened X s\<close> says: the handler table of the reactor and the connection table describe
  the same descriptors (plus the listening one), with the callbacks the source registers; all
  of them are open; no more bytes were sent than were queued; and for every connection outside
  \<open>X\<close> the reactor waits for writability exactly when output is pending. \<open>X\<close> is empty between
  operations and names the connection being worked on inside one.

  Each loop gets a rule of Hoare style (\<open>HandleWritable_rule\<close> and its kin): a loop invariant
  and one obligation per way through the body. All facts about the loops go through them.
\<close>

section \<open>Rules for the loops\<close>

lemma HandleWritable_rule [consumes 1, case_names init gone sent zero intr again hard flushed]:
  fixes s s' :: "('w, 'z) conn_mgr_scheme"
  assumes ret: "HandleWritable os fd s = returns s'"
    and init: "I s"
    and gone: "\<And>s. I s \<Longrightarrow> umap_find (connections s) fd = None \<Longrightarrow> Q s"
    and sent: "\<And>s st n w. I s \<Longrightarrow> umap_find (connections s) fd = Some st \<Longrightarrow>
      bytes_sent st < length (output_buffer st) \<Longrightarrow>
      sys_send os fd (drop (bytes_sent st) (output_buffer st)) (world s) = (Ok n, w) \<Longrightarrow> 0 < n \<Longrightarrow>
      I (s\<lparr>world := w, connections := umap_put fd (st\<lparr>bytes_sent := bytes_sent st + n\<rparr>) (connections s)\<rparr>)"
    and zero: "\<And>s st w. I s \<Longrightarrow> umap_find (connections s) fd = Some st \<Longrightarrow>
      bytes_sent st < length (output_buffer st) \<Longrightarrow>
      sys_send os fd (drop (bytes_sent st) (output_buffer st)) (world s) = (Ok 0, w) \<Longrightarrow>
      Q (Close os fd (s\<lparr>world := w\<rparr>))"
    and intr: "\<And>s st w. I s \<Longrightarrow> umap_find (connections s) fd = Some st \<Longrightarrow>
      bytes_sent st < length (output_buffer st) \<Longrightarrow>
      sys_send os fd (drop (bytes_sent st) (output_buffer st)) (world s) = (Err EINTR, w) \<Longrightarrow>
      I (s\<lparr>world := w\<rparr>)"
    and again: "\<And>s st w. I s \<Longrightarrow> umap_find (connections s) fd = Some st \<Longrightarrow>
      bytes_sent st < length (output_buffer st) \<Longrightarrow>
      sys_send os fd (drop (bytes_sent st) (output_buffer st)) (world s) = (Err EAGAIN, w) \<Longrightarrow>
      Q (UpdateInterest os fd True (s\<lparr>world := w\<rparr>))"
    and hard: "\<And>s st e w. I s \<Longrightarrow> umap_find (connections s) fd = Some st \<Longrightarrow>
      bytes_sent st < length (output_buffer st) \<Longrightarrow>
      sys_send os fd (drop (bytes_sent st) (output_buffer st)) (world s) = (Err e, w) \<Longrightarrow>
      e \<noteq> EINTR \<Longrightarrow> e \<noteq> EAGAIN \<Longrightarrow> Q (Close os fd (s\<lparr>world := w\<rparr>))"
    and flushed: "\<And>s st. I s \<Longrightarrow> umap_find (connections s) fd = Some st \<Longrightarrow>
      \<not> bytes_sent st < length (output_buffer st) \<Longrightarrow>
      Q (UpdateInterest os fd False
        (s\<lparr>connections := umap_put fd (st\<lparr>output_buffer := [], bytes_sent := 0\<rparr>) (connections s)\<rparr>))"
  shows "Q s'"
proof -
  define P where "P os' fd' s r \<longleftrightarrow> (os' = os \<longrightarrow> fd' = fd \<longrightarrow> I s \<longrightarrow> (\<forall>t. r = Inr t \<longrightarrow> Q t))"
    for os' fd' s and r :: "fault + ('w, 'z) conn_mgr_scheme"
  have "P os fd s (Inr s')"
  proof (rule HandleWritable.raw_induct [where P = P, OF _ ret], unfold P_def, intro impI allI, goal_cases)
    case (1 f os' fd' s r t)
    note IH = 1(1) [rule_format, OF _ 1(3,4)] and eq = 1(2) and here = 1(3-6)
    show ?case
    proof (cases "umap_find (connections s) fd")
      case None
      with eq here show ?thesis by (auto intro: gone)
    next
      case (Some st)
      show ?thesis
      proof (cases "bytes_sent st < length (output_buffer st)")
        case False
        with eq here Some show ?thesis by (auto intro: flushed)
      next
        case True
        obtain x w where send: "sys_send os fd (drop (bytes_sent st) (output_buffer st)) (world s) = (x, w)"
          by fastforce
        show ?thesis
        proof (cases x)
          case (Inl e)
          with eq here Some True send show ?thesis
            by (auto split: if_splits intro: hard again IH intr)
        next
          case (Inr n)
          with eq here Some True send show ?thesis
            by (auto split: if_splits intro: zero IH sent)
        qed
      qed
    qed
  qed
  with init show ?thesis by (simp add: P_def)
qed

lemma AcceptLoop_rule [consumes 1, case_names init stop intr refused accepted]:
  fixes s s' :: "('w, 'z) conn_mgr_scheme"
  assumes ret: "AcceptLoop os lfd s = returns s'"
    and init: "I s"
    and stop: "\<And>s e w. I s \<Longrightarrow> sys_accept os lfd (world s) = (Err e, w) \<Longrightarrow> e \<noteq> EINTR \<Longrightarrow>
      Q (s\<lparr>world := w\<rparr>)"
    and intr: "\<And>s w. I s \<Longrightarrow> sys_accept os lfd (world s) = (Err EINTR, w) \<Longrightarrow> I (s\<lparr>world := w\<rparr>)"
    and refused: "\<And>s fd w w2. I s \<Longrightarrow> sys_accept os lfd (world s) = (Ok fd, w) \<Longrightarrow>
      SetNonBlocking os fd w = (False, w2) \<Longrightarrow> I (s\<lparr>world := sys_close os fd w2\<rparr>)"
    and accepted: "\<And>s fd w w2. I s \<Longrightarrow> sys_accept os lfd (world s) = (Ok fd, w) \<Longrightarrow>
      SetNonBlocking os fd w = (True, w2) \<Longrightarrow>
      I (Reactor_Add os fd EPOLLIN (Some CbHandleReadable) (Some CbHandleWritable) (Some CbClose)
           (s\<lparr>world := w2, connections := umap_emplace fd new_connection (connections s)\<rparr>))"
  shows "Q s'"
proof -
  define P where "P os' lfd' s r \<longleftrightarrow> (os' = os \<longrightarrow> lfd' = lfd \<longrightarrow> I s \<longrightarrow> (\<forall>t. r = Inr t \<longrightarrow> Q t))"
    for os' lfd' s and r :: "fault + ('w, 'z) conn_mgr_scheme"
  have "P os lfd s (Inr s')"
  proof (rule AcceptLoop.raw_induct [where P = P, OF _ ret], unfold P_def, intro impI allI, goal_cases)
    case (1 f os' lfd' s r t)
    note IH = 1(1) [rule_format, OF _ 1(3,4)] and eq = 1(2) and here = 1(3-6)
    obtain x w where acc: "sys_accept os lfd (world s) = (x, w)"
      by fastforce
    show ?case
    proof (cases x)
      case (Inl e)
      with eq here acc show ?thesis
        by (auto split: if_splits intro: stop IH intr)
    next
      case (Inr fd)
      obtain b w2 where "SetNonBlocking os fd w = (b, w2)"
        by fastforce
      with Inr eq here acc show ?thesis
        by (auto split: if_splits intro: IH refused accepted)
    qed
  qed
  with init show ?thesis by (simp add: P_def)
qed

lemma recv_loop_rule [consumes 1, case_names init gone got eof intr drained hard]:
  fixes s s' :: "('w, 'z) conn_mgr_scheme"
  assumes ret: "recv_loop os fd s = Some (b, s')"
    and init: "I s"
    and gone: "\<And>s. I s \<Longrightarrow> umap_find (connections s) fd = None \<Longrightarrow> Q False s"
    and got: "\<And>s st d w. I s \<Longrightarrow> umap_find (connections s) fd = Some st \<Longrightarrow>
      sys_recv os fd 4096 (world s) = (Ok d, w) \<Longrightarrow> d \<noteq> [] \<Longrightarrow>
      I (s\<lparr>world := w, connections := umap_put fd (st\<lparr>input_buffer := input_buffer st @ d\<rparr>) (connections s)\<rparr>)"
    and eof: "\<And>s st w. I s \<Longrightarrow> umap_find (connections s) fd = Some st \<Longrightarrow>
      sys_recv os fd 4096 (world s) = (Ok [], w) \<Longrightarrow> Q False (Close os fd (s\<lparr>world := w\<rparr>))"
    and intr: "\<And>s st w. I s \<Longrightarrow> umap_find (connections s) fd = Some st \<Longrightarrow>
      sys_recv os fd 4096 (world s) = (Err EINTR, w) \<Longrightarrow> I (s\<lparr>world := w\<rparr>)"
    and drained: "\<And>s st w. I s \<Longrightarrow> umap_find (connections s) fd = Some st \<Longrightarrow>
      sys_recv os fd 4096 (world s) = (Err EAGAIN, w) \<Longrightarrow> Q True (s\<lparr>world := w\<rparr>)"
    and hard: "\<And>s st e w. I s \<Longrightarrow> umap_find (connections s) fd = Some st \<Longrightarrow>
      sys_recv os fd 4096 (world s) = (Err e, w) \<Longrightarrow> e \<noteq> EINTR \<Longrightarrow> e \<noteq> EAGAIN \<Longrightarrow>
      Q False (Close os fd (s\<lparr>world := w\<rparr>))"
  shows "Q b s'"
proof -
  define P where "P os' fd' s r \<longleftrightarrow> (os' = os \<longrightarrow> fd' = fd \<longrightarrow> I s \<longrightarrow> Q (fst r) (snd r))"
    for os' fd' s and r :: "bool \<times> ('w, 'z) conn_mgr_scheme"
  have "P os fd s (b, s')"
  proof (rule recv_loop.raw_induct [where P = P, OF _ ret], unfold P_def, intro impI allI, goal_cases)
    case (1 f os' fd' s r)
    note IH = 1(1) [rule_format, OF _ 1(3,4)] and eq = 1(2) and here = 1(3-5)
    show ?case
    proof (cases "umap_find (connections s) fd")
      case None
      with eq here show ?thesis by (auto intro: gone)
    next
      case (Some st)
      obtain x w where recv: "sys_recv os fd 4096 (world s) = (x, w)"
        by fastforce
      show ?thesis
      proof (cases x)
        case (Inl e)
        with eq here Some recv show ?thesis
          by (auto split: if_splits intro: hard drained IH intr)
      next
        case (Inr d)
        with eq here Some recv show ?thesis
          by (auto split: if_splits intro: eof IH got)
      qed
    qed
  qed
  with init show ?thesis by (simp add: P_def)
qed

lemma cut_loop_rule [consumes 1, case_names init rest bad ignored handled]:
  fixes s s' :: "('w, 'z) conn_mgr_scheme"
  assumes ret: "cut_loop os fh fd s = returns s'"
    and init: "I s"
    and rest: "\<And>s st. I s \<Longrightarrow> umap_find (connections s) fd = Some st \<Longrightarrow>
      cut_frames (input_buffer st) = ([], input_buffer st, True) \<Longrightarrow> Q s"
    and bad: "\<And>s st. I s \<Longrightarrow> umap_find (connections s) fd = Some st \<Longrightarrow>
      cut_frames (input_buffer st) = ([], input_buffer st, False) \<Longrightarrow> Q (Close os fd s)"
    and ignored: "\<And>s st n. I s \<Longrightarrow> umap_find (connections s) fd = Some st \<Longrightarrow>
      4 + unat n \<le> length (input_buffer st) \<Longrightarrow> n = un_be32 (take 4 (input_buffer st)) \<Longrightarrow>
      \<not> bad_prefix n \<Longrightarrow> fh = None \<Longrightarrow>
      I (s\<lparr>connections := umap_put fd (st\<lparr>input_buffer := drop (4 + unat n) (input_buffer st)\<rparr>) (connections s)\<rparr>)"
    and handled: "\<And>s st n h s2. I s \<Longrightarrow> umap_find (connections s) fd = Some st \<Longrightarrow>
      4 + unat n \<le> length (input_buffer st) \<Longrightarrow> n = un_be32 (take 4 (input_buffer st)) \<Longrightarrow>
      \<not> bad_prefix n \<Longrightarrow> fh = Some h \<Longrightarrow>
      h fd (take (4 + unat n) (input_buffer st))
        (s\<lparr>connections := umap_put fd (st\<lparr>input_buffer := drop (4 + unat n) (input_buffer st)\<rparr>) (connections s)\<rparr>)
        = returns s2 \<Longrightarrow> I s2"
  shows "Q s'"
proof -
  define P where "P os' fh' fd' s r \<longleftrightarrow>
      (os' = os \<longrightarrow> fh' = fh \<longrightarrow> fd' = fd \<longrightarrow> I s \<longrightarrow> (\<forall>t. r = Inr t \<longrightarrow> Q t))"
    for os' fh' fd' s and r :: "fault + ('w, 'z) conn_mgr_scheme"
  have "P os fh fd s (Inr s')"
  proof (rule cut_loop.raw_induct [where P = P, OF _ ret], unfold P_def, intro impI allI, goal_cases)
    case (1 f os' fh' fd' s r t)
    note IH = 1(1) [rule_format, OF _ 1(3,4,5)] and eq = 1(2) and here = 1(3-7)
    show ?case
    proof (cases "umap_find (connections s) fd")
      case None
      with eq here show ?thesis by auto
    next
      case (Some st)
      note conn = this
      show ?thesis
      proof (cases rule: cut_frames_cases [of "input_buffer st"])
        case short
        with eq here Some show ?thesis by (auto intro: rest)
      next
        case bad
        with eq here Some show ?thesis
          by (auto simp: bad_prefix_def Let_def intro: assms(4))
      next
        case part
        with eq here Some show ?thesis
          by (auto simp: bad_prefix_def Let_def intro: rest)
      next
        case (frame n fs r good)
        let ?s1 = "s\<lparr>connections := umap_put fd
          (st\<lparr>input_buffer := drop (4 + unat n) (input_buffer st)\<rparr>) (connections s)\<rparr>"
        show ?thesis
        proof (cases fh)
          case None
          with eq here Some frame(1-4) have "f os fh fd ?s1 = returns t"
            by (simp add: bad_prefix_def Let_def)
          from IH [unfolded here(1-3), OF this ignored [OF here(4) Some frame(4,2,3) None]] show ?thesis
            by simp
        next
          case (Some h)
          note fh = this
          from eq here conn frame(1-4) fh
          obtain s2 where h: "h fd (take (4 + unat n) (input_buffer st)) ?s1 = returns s2"
            and "f os fh fd s2 = returns t"
            by (auto simp: bad_prefix_def Let_def split: option.splits sum.splits)
          from IH [unfolded here(1-3), OF this(2) handled [OF here(4) conn frame(4,2,3) fh h]] show ?thesis
            by simp
        qed
      qed
    qed
  qed
  with init show ?thesis by (simp add: P_def)
qed

section \<open>The invariant\<close>

definition conn_handler :: "u32 \<Rightarrow> cm_callback Handler" where
  "conn_handler ev = \<lparr>h_events = ev, on_readable = Some CbHandleReadable,
     on_writable = Some CbHandleWritable, on_error = Some CbClose\<rparr>"

definition listen_handler :: "cm_callback Handler" where
  "listen_handler = \<lparr>h_events = EPOLLIN, on_readable = Some CbAcceptLoop,
     on_writable = None, on_error = Some CbClose\<rparr>"

abbreviation pending :: "ConnectionState \<Rightarrow> bool" where
  "pending st \<equiv> bytes_sent st < length (output_buffer st)"

definition interest :: "bool \<Rightarrow> u32" where
  "interest want_write = (if want_write then EPOLLIN OR EPOLLOUT else EPOLLIN)"

definition conn_ok :: "bool \<Rightarrow> (int \<rightharpoonup> cm_callback Handler) \<Rightarrow> int \<Rightarrow> ConnectionState \<Rightarrow> bool" where
  "conn_ok strict hs fd st \<longleftrightarrow>
     0 \<le> fd \<and> bytes_sent st \<le> length (output_buffer st) \<and>
     (\<exists>want. hs fd = Some (conn_handler (interest want)) \<and> (strict \<longrightarrow> want = pending st))"

definition cm_inv :: "('w \<Rightarrow> int set) \<Rightarrow> int set \<Rightarrow> ('w, 'z) conn_mgr_scheme \<Rightarrow> bool" where
  "cm_inv opened X s \<longleftrightarrow>
     (\<forall>fd st. umap_find (connections s) fd = Some st \<longrightarrow>
        conn_ok (fd \<notin> X) (umap_find (handlers s)) fd st \<and> fd \<noteq> listen_fd s \<and> fd \<in> opened (world s)) \<and>
     (0 \<le> listen_fd s \<longrightarrow>
        umap_find (handlers s) (listen_fd s) = Some listen_handler \<and> listen_fd s \<in> opened (world s)) \<and>
     (\<forall>fd h. umap_find (handlers s) fd = Some h \<longrightarrow>
        0 \<le> fd \<and> (fd = listen_fd s \<or> umap_find (connections s) fd \<noteq> None))"

lemma cm_invD:
  assumes "cm_inv opened X s"
  shows "umap_find (connections s) fd = Some st \<Longrightarrow> conn_ok (fd \<notin> X) (umap_find (handlers s)) fd st"
    and "umap_find (connections s) fd = Some st \<Longrightarrow> fd \<noteq> listen_fd s"
    and "umap_find (connections s) fd = Some st \<Longrightarrow> fd \<in> opened (world s)"
    and "0 \<le> listen_fd s \<Longrightarrow> umap_find (handlers s) (listen_fd s) = Some listen_handler"
    and "0 \<le> listen_fd s \<Longrightarrow> listen_fd s \<in> opened (world s)"
    and "umap_find (handlers s) fd = Some h \<Longrightarrow> 0 \<le> fd"
    and "umap_find (handlers s) fd = Some h \<Longrightarrow> fd = listen_fd s \<or> (\<exists>st. umap_find (connections s) fd = Some st)"
  using assms unfolding cm_inv_def by auto

lemma cm_invI:
  assumes "\<And>fd st. umap_find (connections s) fd = Some st \<Longrightarrow>
      conn_ok (fd \<notin> X) (umap_find (handlers s)) fd st \<and> fd \<noteq> listen_fd s \<and> fd \<in> opened (world s)"
    and "0 \<le> listen_fd s \<Longrightarrow>
      umap_find (handlers s) (listen_fd s) = Some listen_handler \<and> listen_fd s \<in> opened (world s)"
    and "\<And>fd h. umap_find (handlers s) fd = Some h \<Longrightarrow>
      0 \<le> fd \<and> (fd = listen_fd s \<or> umap_find (connections s) fd \<noteq> None)"
  shows "cm_inv opened X s"
  using assms unfolding cm_inv_def by blast

text \<open>What the primitive operations change.\<close>

lemma Reactor_Remove_fields [simp]:
  "connections (Reactor_Remove os fd s) = connections s"
  "listen_fd (Reactor_Remove os fd s) = listen_fd s"
  "handlers (Reactor_Remove os fd s) = umap_erase fd (handlers s)"
  "world (Reactor_Remove os fd s) = snd (sys_epoll_ctl os (epoll_fd s) EPOLL_CTL_DEL fd 0 (world s))"
  by (simp_all add: Reactor_Remove_def)

lemma Reactor_Add_fields [simp]:
  "connections (Reactor_Add os fd ev r w e s) = connections s"
  "listen_fd (Reactor_Add os fd ev r w e s) = listen_fd s"
  "handlers (Reactor_Add os fd ev r w e s) =
     umap_put fd \<lparr>h_events = ev, on_readable = r, on_writable = w, on_error = e\<rparr> (handlers s)"
  "world (Reactor_Add os fd ev r w e s) =
     snd (sys_epoll_ctl os (epoll_fd s) EPOLL_CTL_ADD fd ev (world s))"
  by (simp_all add: Reactor_Add_def)

lemma UpdateInterest_fields [simp]:
  "connections (UpdateInterest os fd b s) = connections s"
  "listen_fd (UpdateInterest os fd b s) = listen_fd s"
  by (simp_all add: UpdateInterest_def Reactor_Update_def split: option.splits)

lemma UpdateInterest_handlers [simp]:
  "umap_find (handlers (UpdateInterest os fd b s)) g =
     (if g = fd then map_option (\<lambda>h. h\<lparr>h_events := interest b\<rparr>) (umap_find (handlers s) fd)
      else umap_find (handlers s) g)"
  by (auto simp: UpdateInterest_def Reactor_Update_def interest_def [symmetric] split: option.splits)

lemma UpdateInterest_world:
  "world (UpdateInterest os fd b s) = world s \<or>
   (\<exists>ev. world (UpdateInterest os fd b s) = snd (sys_epoll_ctl os (epoll_fd s) EPOLL_CTL_MOD fd ev (world s)))"
  by (auto simp: UpdateInterest_def Reactor_Update_def split: option.splits)

lemma UpdateInterest_opened [simp]:
  "fd_laws os opened \<Longrightarrow> opened (world (UpdateInterest os fd b s)) = opened (world s)"
  using UpdateInterest_world [of os fd b s] by (auto simp: fd_laws_keep)

lemma SetNonBlocking_opened:
  "fd_laws os opened \<Longrightarrow> SetNonBlocking os fd w = (b, w') \<Longrightarrow> opened w' = opened w"
  by (auto simp: SetNonBlocking_def fd_laws_results split: prod.splits sum.splits)

text \<open>Preservation by the primitive operations.\<close>

lemma cm_inv_world:
  "cm_inv opened X s \<Longrightarrow> opened w = opened (world s) \<Longrightarrow> cm_inv opened X (s\<lparr>world := w\<rparr>)"
  by (simp add: cm_inv_def)

lemma cm_inv_running: "cm_inv opened X s \<Longrightarrow> cm_inv opened X (s\<lparr>running := b\<rparr>)"
  by (simp add: cm_inv_def)

lemma conn_ok_weaken: "conn_ok b hs fd st \<Longrightarrow> (c \<Longrightarrow> b) \<Longrightarrow> conn_ok c hs fd st"
  unfolding conn_ok_def by blast

lemma cm_inv_weaken: "cm_inv opened X s \<Longrightarrow> X \<subseteq> Y \<Longrightarrow> cm_inv opened Y s"
  unfolding cm_inv_def by (blast intro: conn_ok_weaken)

lemma cm_inv_put:
  assumes inv: "cm_inv opened X s" and st: "umap_find (connections s) fd = Some st"
    and ok: "conn_ok (fd \<notin> Y) (umap_find (handlers s)) fd st'" and sub: "X \<subseteq> Y"
  shows "cm_inv opened Y (s\<lparr>connections := umap_put fd st' (connections s)\<rparr>)"
proof -
  note D = cm_invD [OF cm_inv_weaken [OF inv sub]]
  show ?thesis
  proof (rule cm_invI, goal_cases)
    case (1 g sg)
    show ?case
    proof (cases "g = fd")
      case True
      with 1 ok D(2,3) [OF st] show ?thesis by simp
    next
      case False
      with 1 D(1-3) [of g sg] show ?thesis by simp
    qed
  next
    case 2
    with D(4,5) show ?case by simp
  next
    case (3 g h)
    with D(6,7) [of g h] show ?case by auto
  qed
qed

lemma cm_inv_UpdateInterest:
  assumes laws: "fd_laws os opened" and inv: "cm_inv opened (insert fd X) s"
    and st: "umap_find (connections s) fd = Some st" and b: "b = pending st \<or> fd \<in> X"
  shows "cm_inv opened X (UpdateInterest os fd b s)"
proof -
  note D = cm_invD [OF inv]
  show ?thesis
  proof (rule cm_invI, goal_cases)
    case (1 g sg)
    then have conn: "umap_find (connections s) g = Some sg" by simp
    have "conn_ok (g \<notin> X) (umap_find (handlers (UpdateInterest os fd b s))) g sg"
    proof (cases "g = fd")
      case True
      with conn st have "sg = st" by simp
      from D(1) [OF st] obtain want where "umap_find (handlers s) fd = Some (conn_handler (interest want))"
        and "0 \<le> fd" "bytes_sent st \<le> length (output_buffer st)"
        unfolding conn_ok_def by blast
      moreover have "fd \<notin> X \<longrightarrow> b = pending st"
        using b by blast
      ultimately show ?thesis
        unfolding conn_ok_def True \<open>sg = st\<close> by (intro conjI exI [of _ b]) (simp_all add: conn_handler_def)
    next
      case False
      with D(1) [OF conn] show ?thesis by (simp add: conn_ok_def)
    qed
    with D(2,3) [OF conn] laws show ?case by simp
  next
    case 2
    with D(4,5) D(2) [OF st] laws show ?case by simp
  next
    case (3 g h)
    then obtain h' where "umap_find (handlers s) g = Some h'"
      by (auto split: if_splits)
    from D(6,7) [OF this] show ?case by auto
  qed
qed

lemma cm_inv_gone:
  assumes "cm_inv opened X s" and gone: "umap_find (connections s) fd = None"
  shows "cm_inv opened (X - {fd}) s"
proof -
  note D = cm_invD [OF assms(1)]
  show ?thesis
  proof (rule cm_invI, goal_cases)
    case (1 g sg)
    with gone have "g \<noteq> fd" by auto
    with D(1-3) [OF 1] show ?case by simp
  next
    case 2
    with D(4,5) show ?case by simp
  next
    case (3 g h)
    with D(6,7) [of g h] show ?case by auto
  qed
qed

lemma cm_inv_Close:
  assumes laws: "fd_laws os opened" and inv: "cm_inv opened X s"
  shows "cm_inv opened (X - {fd}) (Close os fd s)"
proof -
  note D = cm_invD [OF inv]
  have erased: "conn_ok (g \<notin> X - {fd}) (umap_find (umap_erase fd (handlers s))) g sg"
    if "g \<noteq> fd" "umap_find (connections s) g = Some sg" for g sg
    using D(1) [OF that(2)] that(1) by (simp add: conn_ok_def)
  consider (listening) "fd = listen_fd s"
    | (unknown) "fd \<noteq> listen_fd s" "umap_find (connections s) fd = None"
    | (connected) st where "fd \<noteq> listen_fd s" "umap_find (connections s) fd = Some st"
    by fastforce
  then show ?thesis
  proof cases
    case listening
    show ?thesis
    proof (rule cm_invI, goal_cases)
      case (1 g sg)
      with listening have conn: "umap_find (connections s) g = Some sg"
        by (simp add: Close_def Let_def)
      with D(1-3) [OF conn] erased [of g sg] listening laws show ?case
        by (auto simp: Close_def Let_def fd_laws_keep conn_ok_def)
    next
      case 2
      with listening show ?case by (simp add: Close_def Let_def)
    next
      case (3 g h)
      with listening have "umap_find (handlers s) g = Some h" "g \<noteq> fd"
        by (simp_all add: Close_def Let_def split: if_splits)
      with D(6,7) [of g h] listening show ?case
        by (auto simp: Close_def Let_def)
    qed
  next
    case unknown
    with cm_inv_gone [OF inv] show ?thesis by (simp add: Close_def)
  next
    case (connected st)
    show ?thesis
    proof (rule cm_invI, goal_cases)
      case (1 g sg)
      with connected have conn: "umap_find (connections s) g = Some sg" "g \<noteq> fd"
        by (simp_all add: Close_def Let_def split: if_splits)
      with D(2,3) [OF conn(1)] erased [OF conn(2,1)] connected laws show ?case
        by (simp add: Close_def Let_def fd_laws_keep)
    next
      case 2
      with connected D(4,5) laws show ?case
        by (auto simp: Close_def Let_def fd_laws_keep)
    next
      case (3 g h)
      with connected have "umap_find (handlers s) g = Some h" "g \<noteq> fd"
        by (simp_all add: Close_def Let_def split: if_splits)
      with D(6,7) [of g h] connected show ?case
        by (auto simp: Close_def Let_def)
    qed
  qed
qed

section \<open>Preservation by the operations\<close>

lemma cm_inv_sent:
  assumes laws: "fd_laws os opened" and inv: "cm_inv opened X s"
    and send: "sys_send os fd d (world s) = (r, w)"
  shows "cm_inv opened X (s\<lparr>world := w\<rparr>)"
    and "X - {fd} = Y \<Longrightarrow> cm_inv opened Y (Close os fd (s\<lparr>world := w\<rparr>))"
proof -
  show "cm_inv opened X (s\<lparr>world := w\<rparr>)"
    by (rule cm_inv_world [OF inv fd_laws_results(9) [OF laws send]])
  then show "X - {fd} = Y \<Longrightarrow> cm_inv opened Y (Close os fd (s\<lparr>world := w\<rparr>))"
    using cm_inv_Close [OF laws] by blast
qed

lemma cm_inv_HandleWritable:
  assumes laws: "fd_laws os opened" "send_laws os wire"
    and ret: "HandleWritable os fd s = returns s'" and inv: "cm_inv opened {fd} s"
  shows "cm_inv opened {} s'"
  using ret
proof (rule HandleWritable_rule [where I = "cm_inv opened {fd}" and Q = "cm_inv opened {}"])
  show "cm_inv opened {fd} s" by (rule inv)
next
  fix s :: "('a, 'b) conn_mgr_scheme"
  assume I: "cm_inv opened {fd} s" and "umap_find (connections s) fd = None"
  from cm_inv_gone [OF this] show "cm_inv opened {} s" by simp
next
  fix s :: "('a, 'b) conn_mgr_scheme" and st n w
  assume I: "cm_inv opened {fd} s" and conn: "umap_find (connections s) fd = Some st"
    and send: "sys_send os fd (drop (bytes_sent st) (output_buffer st)) (world s) = (Ok n, w)"
  have w: "opened w = opened (world s)"
    by (rule fd_laws_results [OF laws(1)]) (rule send)
  have "conn_ok (fd \<notin> {fd}) (umap_find (handlers (s\<lparr>world := w\<rparr>))) fd (st\<lparr>bytes_sent := bytes_sent st + n\<rparr>)"
    using cm_invD(1) [OF I conn] send_laws_send [OF laws(2), of fd "drop (bytes_sent st) (output_buffer st)" "world s"] send
    by (auto simp: conn_ok_def)
  from cm_inv_put [OF cm_inv_world [OF I w] _ this] conn
  show "cm_inv opened {fd} (s\<lparr>world := w, connections :=
      umap_put fd (st\<lparr>bytes_sent := bytes_sent st + n\<rparr>) (connections s)\<rparr>)"
    by simp
next
  fix s :: "('a, 'b) conn_mgr_scheme" and st w
  assume I: "cm_inv opened {fd} s" and conn: "umap_find (connections s) fd = Some st"
    and "\<not> pending st"
  then have "conn_ok (fd \<notin> {fd}) (umap_find (handlers s)) fd (st\<lparr>output_buffer := [], bytes_sent := 0\<rparr>)"
    using cm_invD(1) [OF I conn] by (simp add: conn_ok_def)
  from cm_inv_put [OF I conn this subset_refl]
  show "cm_inv opened {} (UpdateInterest os fd False
      (s\<lparr>connections := umap_put fd (st\<lparr>output_buffer := [], bytes_sent := 0\<rparr>) (connections s)\<rparr>))"
    by (rule cm_inv_UpdateInterest [OF laws(1), where st = "st\<lparr>output_buffer := [], bytes_sent := 0\<rparr>"]) simp_all
next
  fix s :: "('a, 'b) conn_mgr_scheme" and st w
  assume I: "cm_inv opened {fd} s" and conn: "umap_find (connections s) fd = Some st" and "pending st"
    and send: "sys_send os fd (drop (bytes_sent st) (output_buffer st)) (world s) = (Err EAGAIN, w)"
  show "cm_inv opened {} (UpdateInterest os fd True (s\<lparr>world := w\<rparr>))"
    by (rule cm_inv_UpdateInterest [OF laws(1) cm_inv_sent(1) [OF laws(1) I send]])
      (use conn \<open>pending st\<close> in simp_all)
qed (rule cm_inv_sent [OF laws(1)], assumption+, (rule Diff_cancel)?)+

lemma cm_inv_Send:
  assumes laws: "fd_laws os opened" "send_laws os wire"
    and ret: "Send os fd frame s = returns s'" and inv: "cm_inv opened {} s"
  shows "cm_inv opened {} s'"
proof (cases "umap_find (connections s) fd")
  case None
  with ret inv show ?thesis by (simp add: Send_def)
next
  case (Some st)
  let ?st = "st\<lparr>output_buffer := output_buffer st @ frame\<rparr>"
  have "conn_ok (fd \<notin> {fd}) (umap_find (handlers s)) fd ?st"
    using cm_invD(1) [OF inv Some] by (auto simp: conn_ok_def)
  from cm_inv_put [OF inv Some this]
  have "cm_inv opened {fd} (UpdateInterest os fd True (s\<lparr>connections := umap_put fd ?st (connections s)\<rparr>))"
    by (intro cm_inv_UpdateInterest [OF laws(1)]) (auto intro: cm_inv_weaken)
  with ret Some show ?thesis
    by (simp add: Send_def cm_inv_HandleWritable [OF laws])
qed

lemma cm_inv_accepted:
  assumes laws: "fd_laws os opened" and inv: "cm_inv opened {} s"
    and acc: "sys_accept os lfd (world s) = (Ok fd, w1)" and nb: "SetNonBlocking os fd w1 = (b, w2)"
  shows "cm_inv opened {} (s\<lparr>world := sys_close os fd w2\<rparr>)" (is ?refused)
    and "cm_inv opened {} (Reactor_Add os fd EPOLLIN (Some CbHandleReadable) (Some CbHandleWritable) (Some CbClose)
           (s\<lparr>world := w2, connections := umap_emplace fd new_connection (connections s)\<rparr>))" (is ?accepted)
proof -
  note D = cm_invD [OF inv]
  from fd_laws_accept [OF laws, of "world s" lfd] acc
  have fresh: "0 \<le> fd" "fd \<notin> opened (world s)" "opened w1 = insert fd (opened (world s))"
    by auto
  have w2: "opened w2 = insert fd (opened (world s))"
    using SetNonBlocking_opened [OF laws nb] fresh(3) by simp
  with fresh(2) have "opened (sys_close os fd w2) = opened (world s)"
    by (simp add: fd_laws_keep [OF laws])
  with cm_inv_world [OF inv] show ?refused by blast
  have new: "umap_find (connections s) fd = None"
    using D(3) [of fd] fresh(2) by fastforce
  have "fd \<noteq> listen_fd s"
    using D(5) fresh(1,2) by auto
  have handler: "\<lparr>h_events = EPOLLIN, on_readable = Some CbHandleReadable,
      on_writable = Some CbHandleWritable, on_error = Some CbClose\<rparr> = conn_handler (interest False)"
    by (simp add: conn_handler_def interest_def)
  show ?accepted
    unfolding Reactor_Add_def handler
  proof (rule cm_invI, goal_cases)
    case (1 g sg)
    show ?case
    proof (cases "g = fd")
      case True
      with 1 new \<open>fd \<noteq> listen_fd s\<close> fresh w2 show ?thesis
        by (auto simp: conn_ok_def new_connection_def umap_emplace_def fd_laws_keep [OF laws])
    next
      case False
      with 1 new have "umap_find (connections s) g = Some sg"
        by (simp add: umap_emplace_def)
      from D(1-3) [OF this] False w2 show ?thesis
        by (simp add: conn_ok_def fd_laws_keep [OF laws])
    qed
  next
    case 2
    with D(4,5) \<open>fd \<noteq> listen_fd s\<close> w2 show ?case
      by (simp add: fd_laws_keep [OF laws])
  next
    case (3 g h)
    show ?case
    proof (cases "g = fd")
      case True
      with fresh(1) new show ?thesis by (simp add: umap_emplace_def)
    next
      case False
      with 3 have "umap_find (handlers s) g = Some h" by simp
      from D(6,7) [OF this] False new show ?thesis by (auto simp: umap_emplace_def)
    qed
  qed
qed

lemma cm_inv_AcceptLoop:
  assumes laws: "fd_laws os opened"
    and ret: "AcceptLoop os lfd s = returns s'" and inv: "cm_inv opened {} s"
  shows "cm_inv opened {} s'"
  using ret
proof (rule AcceptLoop_rule [where I = "cm_inv opened {}"])
  show "cm_inv opened {} s" by (rule inv)
next
  fix s :: "('a, 'b) conn_mgr_scheme" and e w
  assume I: "cm_inv opened {} s" and "sys_accept os lfd (world s) = (Err e, w)"
  with fd_laws_accept [OF laws, of "world s" lfd] show "cm_inv opened {} (s\<lparr>world := w\<rparr>)"
    by (auto intro: cm_inv_world)
  then show "cm_inv opened {} (s\<lparr>world := w\<rparr>)" .
qed (rule cm_inv_accepted [OF laws]; assumption)+

text \<open>
  What the connection layer asks of the frame handler: it may do anything that keeps the
  invariant (the server's handler only calls \<open>Send\<close>).
\<close>

definition keeps_inv ::
  "('w \<Rightarrow> int set) \<Rightarrow>
   (int \<Rightarrow> string \<Rightarrow> ('w, 'z) conn_mgr_scheme \<Rightarrow> ('w, 'z) conn_mgr_scheme run) option \<Rightarrow> bool" where
  "keeps_inv opened fh \<longleftrightarrow>
     (\<forall>h fd frame s s'. fh = Some h \<longrightarrow> cm_inv opened {} s \<longrightarrow> h fd frame s = returns s' \<longrightarrow> cm_inv opened {} s')"

lemma cm_inv_input:
  assumes inv: "cm_inv opened X s" and conn: "umap_find (connections s) fd = Some st"
  shows "cm_inv opened X (s\<lparr>connections := umap_put fd (st\<lparr>input_buffer := b\<rparr>) (connections s)\<rparr>)"
  by (rule cm_inv_put [OF inv conn _ subset_refl])
    (use cm_invD(1) [OF inv conn] in \<open>simp add: conn_ok_def\<close>)

lemma cm_inv_recv_loop:
  assumes laws: "fd_laws os opened"
    and ret: "recv_loop os fd s = Some (b, s')" and inv: "cm_inv opened {} s"
  shows "cm_inv opened {} s'"
proof -
  have world: "cm_inv opened {} (s\<lparr>world := w\<rparr>)"
    if "cm_inv opened {} s" "sys_recv os fd 4096 (world s) = (r, w)" for s :: "('a, 'b) conn_mgr_scheme" and r w
    by (rule cm_inv_world [OF that(1) fd_laws_results(8) [OF laws that(2)]])
  have close: "cm_inv opened {} (Close os fd (s\<lparr>world := w\<rparr>))"
    if "cm_inv opened {} s" "sys_recv os fd 4096 (world s) = (r, w)" for s :: "('a, 'b) conn_mgr_scheme" and r w
    using cm_inv_Close [OF laws world [OF that], of fd] by simp
  have got: "cm_inv opened {} (s\<lparr>world := w, connections := umap_put fd
      (st\<lparr>input_buffer := input_buffer st @ d\<rparr>) (connections s)\<rparr>)"
    if "cm_inv opened {} s" "umap_find (connections s) fd = Some st" "sys_recv os fd 4096 (world s) = (Ok d, w)"
    for s :: "('a, 'b) conn_mgr_scheme" and st d w
    using cm_inv_input [OF world [OF that(1,3)]] that(2) by simp
  from ret show ?thesis
    by (rule recv_loop_rule [where I = "cm_inv opened {}" and Q = "\<lambda>_. cm_inv opened {}"])
      (rule inv close got world, assumption+ | assumption)+
qed

lemma cm_inv_cut_loop:
  assumes laws: "fd_laws os opened" and handler: "keeps_inv opened fh"
    and ret: "cut_loop os fh fd s = returns s'" and inv: "cm_inv opened {} s"
  shows "cm_inv opened {} s'"
proof -
  have close: "cm_inv opened {} (Close os fd s)" if "cm_inv opened {} s" for s :: "('a, 'b) conn_mgr_scheme"
    using cm_inv_Close [OF laws that, of fd] by simp
  have handled: "cm_inv opened {} s2"
    if "cm_inv opened {} s" "fh = Some h" "h fd frame s = returns s2" for s s2 h frame
    using handler that unfolding keeps_inv_def by blast
  from ret show ?thesis
    by (rule cut_loop_rule [where I = "cm_inv opened {}" and Q = "cm_inv opened {}"])
      (auto intro: inv close cm_inv_input handled)
qed

lemma cm_inv_HandleReadable:
  assumes laws: "fd_laws os opened" and handler: "keeps_inv opened fh"
    and ret: "HandleReadable os fh fd s = returns s'" and inv: "cm_inv opened {} s"
  shows "cm_inv opened {} s'"
proof (cases "recv_loop os fd s")
  case None
  with ret inv show ?thesis by (simp add: HandleReadable_def split: option.splits)
next
  case (Some r)
  obtain b s1 where r: "r = (b, s1)" by fastforce
  have "cm_inv opened {} s1"
    using cm_inv_recv_loop [OF laws Some [unfolded r] inv] .
  with ret inv Some r show ?thesis
    by (auto simp: HandleReadable_def ProcessInput_def intro: cm_inv_cut_loop [OF laws handler]
        split: option.splits if_splits)
qed

lemma cm_inv_cm_invoke:
  assumes laws: "fd_laws os opened" "send_laws os wire" and handler: "keeps_inv opened fh"
    and ret: "cm_invoke os fh cb fd s = returns s'" and inv: "cm_inv opened {} s"
  shows "cm_inv opened {} s'"
proof (cases cb)
  case CbAcceptLoop
  with ret show ?thesis by (simp add: cm_invoke_def cm_inv_AcceptLoop [OF laws(1) _ inv])
next
  case CbHandleReadable
  with ret show ?thesis by (simp add: cm_invoke_def cm_inv_HandleReadable [OF laws(1) handler _ inv])
next
  case CbHandleWritable
  with ret show ?thesis
    by (simp add: cm_invoke_def cm_inv_HandleWritable [OF laws _ cm_inv_weaken [OF inv]])
next
  case CbClose
  with ret cm_inv_Close [OF laws(1) inv, of fd] show ?thesis by (simp add: cm_invoke_def)
qed

text \<open>Listening, from the state the constructor leaves: no listening descriptor yet.\<close>

lemma cm_inv_Listen_failed:
  assumes laws: "fd_laws os opened" and inv: "cm_inv opened {} s" and fresh: "listen_fd s = -1"
    and w: "opened w = opened (world s)"
  shows "cm_inv opened {} (s\<lparr>world := w, listen_fd := -1\<rparr>)"
  using cm_inv_world [OF inv w] fresh by (simp add: cm_inv_def)

lemma cm_inv_Listen_done:
  assumes laws: "fd_laws os opened" and inv: "cm_inv opened {} s" and fresh: "listen_fd s = -1"
    and fd: "0 \<le> fd" "fd \<notin> opened (world s)" and w: "opened w = insert fd (opened (world s))"
  shows "cm_inv opened {} (Reactor_Add os fd EPOLLIN (Some CbAcceptLoop) None (Some CbClose)
           (s\<lparr>world := w, listen_fd := fd\<rparr>))"
proof -
  note D = cm_invD [OF inv]
  have other: "g \<noteq> fd" if "umap_find (connections s) g = Some sg" for g sg
    using D(3) [OF that] fd(2) by auto
  show ?thesis
  proof (rule cm_invI, goal_cases)
    case (1 g sg)
    then have conn: "umap_find (connections s) g = Some sg" by simp
    from D(1,3) [OF conn] other [OF conn] w show ?case
      by (simp add: conn_ok_def fd_laws_keep [OF laws])
  next
    case 2
    with w show ?case by (simp add: listen_handler_def fd_laws_keep [OF laws])
  next
    case (3 g h)
    show ?case
    proof (cases "g = fd")
      case True
      with fd(1) show ?thesis by simp
    next
      case False
      with 3 have "umap_find (handlers s) g = Some h" by simp
      from D(6,7) [OF this] fresh show ?thesis by auto
    qed
  qed
qed

lemma cm_inv_Listen:
  assumes laws: "fd_laws os opened" and inv: "cm_inv opened {} s" and fresh: "listen_fd s = -1"
    and ret: "Listen os endpoint s = (b, s')"
  shows "cm_inv opened {} s' \<and> (b \<longleftrightarrow> 0 \<le> listen_fd s') \<and>
    (if b then opened (world s') = insert (listen_fd s') (opened (world s)) \<and> listen_fd s' \<notin> opened (world s)
     else opened (world s') = opened (world s))"
proof -
  obtain r w1 where sock: "sys_socket os (world s) = (r, w1)" by fastforce
  note creates = fd_laws_socket [OF laws, of "world s", unfolded sock]
  note failed = cm_inv_Listen_failed [OF laws inv fresh]
    and finished = cm_inv_Listen_done [OF laws inv fresh]
  show ?thesis
  proof (cases r)
    case (Inl e)
    then have "(b, s') = (False, s\<lparr>world := w1, listen_fd := -1\<rparr>)" "opened w1 = opened (world s)"
      using creates by (simp_all add: ret [symmetric] Listen_def sock)
    with failed [of w1] show ?thesis by simp
  next
    case (Inr fd)
    from creates Inr have fd: "0 \<le> fd" "fd \<notin> opened (world s)"
      and w1: "opened w1 = insert fd (opened (world s))" by auto
    have closed: "opened (sys_close os fd w) = opened (world s)"
      if "opened w = insert fd (opened (world s))" for w
      using that fd(2) by (simp add: fd_laws_keep [OF laws])
    let ?w2 = "snd (sys_setsockopt os fd SO_REUSEADDR w1)"
    obtain nb w3 where nb: "SetNonBlocking os fd ?w2 = (nb, w3)" by fastforce
    have w3: "opened w3 = insert fd (opened (world s))"
      using SetNonBlocking_opened [OF laws nb] w1 by (simp add: fd_laws_keep [OF laws])
    have bad: ?thesis if "opened w = insert fd (opened (world s))"
      and "(b, s') = (False, s\<lparr>world := sys_close os fd w, listen_fd := -1\<rparr>)" for w
      using that closed [OF that(1)] failed [of "sys_close os fd w"] by simp
    note step = Listen_def sock Inr Let_def nb
    show ?thesis
    proof (cases "nb \<and> sys_inet_pton os (ep_host endpoint) \<noteq> None")
      case False
      then show ?thesis
        by (intro bad [OF w3]) (cases "sys_inet_pton os (ep_host endpoint)", auto simp: ret [symmetric] step)
    next
      case True
      then obtain a where a: "nb" "sys_inet_pton os (ep_host endpoint) = Some a" by auto
      obtain rb w4 where bnd: "sys_bind os fd a (ep_port endpoint) w3 = (rb, w4)" by fastforce
      obtain rl w5 where lst: "sys_listen os fd w4 = (rl, w5)" by fastforce
      have w4: "opened w4 = insert fd (opened (world s))"
        using fd_laws_results(4) [OF laws bnd] w3 by simp
      have w5: "opened w5 = insert fd (opened (world s))"
        using fd_laws_results(5) [OF laws lst] w4 by simp
      show ?thesis
      proof (cases rb)
        case (Inl e)
        show ?thesis
          by (rule bad [OF w4]) (simp add: ret [symmetric] step a bnd Inl)
      next
        case (Inr u)
        note rb = this
        show ?thesis
        proof (cases rl)
          case (Inl e)
          show ?thesis
            by (rule bad [OF w5]) (simp add: ret [symmetric] step a bnd lst Inl rb)
        next
          case (Inr u)
          have "(b, s') = (True, Reactor_Add os fd EPOLLIN (Some CbAcceptLoop) None (Some CbClose)
              (s\<lparr>world := w5, listen_fd := fd\<rparr>))"
            by (simp add: ret [symmetric] step a bnd lst Inr rb)
          with finished [OF fd w5] fd w5 show ?thesis
            by (simp add: fd_laws_keep [OF laws])
        qed
      qed
    qed
  qed
qed

section \<open>The reactor's contract, discharged by the connection layer\<close>

text \<open>Every state that the serving program can reach satisfies the invariant.\<close>

interpretation cm_reactor: reactor_client os "cm_invoke os fh"
  "\<lambda>s. fd_laws os opened \<and> send_laws os wire \<and> keeps_inv opened fh \<and> cm_inv opened {} s"
  for os :: "'w sys" and fh opened wire
proof (unfold_locales, goal_cases)
  case (1 s fd h cb s')
  then show ?case by (blast intro: cm_inv_cm_invoke)
next
  case (2 s b)
  then show ?case by (blast intro: cm_inv_running)
next
  case (3 s ep n t r w')
  then have "opened w' = opened (world s)" by (auto dest: fd_laws_results)
  with 3 show ?case by (blast intro: cm_inv_world)
qed

end
