(* ===== verification/ConnectionStreams.thy ===== *)
theory ConnectionStreams
  imports ConnectionInvariant
begin

text \<open>
  What the connection layer does to byte streams: the read loop appends exactly what the
  kernel delivered, \<open>ProcessInput\<close> implements the frame specification \<open>cut_frames\<close> and calls
  the frame handler once per frame in order, and the write loop neither loses, duplicates nor
  reorders a byte. The loops return when the kernel interrupts them finitely often.
\<close>

section \<open>Frames: \<open>ProcessInput\<close> implements \<open>cut_frames\<close>\<close>

text \<open>
  The specification: consume the frames from the input buffer one by one and call the
  handler for each. When the connection is gone the next step would read a freed buffer.
\<close>

definition consume :: "int \<Rightarrow> nat \<Rightarrow> ('w, 'z) conn_mgr_scheme \<Rightarrow> ('w, 'z) conn_mgr_scheme run" where
  "consume fd n s =
     (case umap_find (connections s) fd of
        None \<Rightarrow> Some (Inl UseAfterFree)
      | Some st \<Rightarrow> returns (s\<lparr>connections := umap_put fd
            (st\<lparr>input_buffer := drop n (input_buffer st)\<rparr>) (connections s)\<rparr>))"

fun deliver ::
  "(int \<Rightarrow> string \<Rightarrow> ('w, 'z) conn_mgr_scheme \<Rightarrow> ('w, 'z) conn_mgr_scheme run) \<Rightarrow>
   int \<Rightarrow> string list \<Rightarrow> ('w, 'z) conn_mgr_scheme \<Rightarrow> ('w, 'z) conn_mgr_scheme run" where
  "deliver h fd [] s =
     (if umap_find (connections s) fd = None then Some (Inl UseAfterFree) else returns s)"
| "deliver h fd (f # fs) s =
     bind_run (consume fd (length f) s) (\<lambda>s1. bind_run (h fd f s1) (deliver h fd fs))"

text \<open>
  What \<open>ProcessInput\<close> relies on: a handler call leaves the input buffer of its connection
  alone, if the connection survives.
\<close>

locale frame_handler =
  fixes handler :: "int \<Rightarrow> string \<Rightarrow> ('w, 'z) conn_mgr_scheme \<Rightarrow> ('w, 'z) conn_mgr_scheme run"
  assumes keeps_input: "handler fd frame s = returns s' \<Longrightarrow>
      umap_find (connections s) fd = Some st \<Longrightarrow> umap_find (connections s') fd = Some st' \<Longrightarrow>
      input_buffer st' = input_buffer st"
begin

lemma cut_loop_deliver:
  assumes "umap_find (connections s) fd = Some st" and "cut_frames (input_buffer st) = (fs, r, good)"
  shows "cut_loop os (Some handler) fd s =
    bind_run (deliver handler fd fs s) (\<lambda>s'. returns (if good then s' else Close os fd s'))"
  using assms
proof (induction fs arbitrary: s st)
  case Nil
  show ?case
  proof (cases rule: cut_frames_cases [of "input_buffer st"])
    case (frame n fs r good)
    with Nil show ?thesis by simp
  qed (use Nil in \<open>auto simp: cut_loop.simps [of os "Some handler" fd s] Let_def bad_prefix_def\<close>)
next
  case (Cons f fs)
  show ?case
  proof (cases rule: cut_frames_cases [of "input_buffer st"])
    case (frame n fs' r' good')
    with Cons.prems have f: "f = take (4 + unat n) (input_buffer st)" "length f = 4 + unat n"
      and rest: "cut_frames (drop (4 + unat n) (input_buffer st)) = (fs, r, good)"
      by auto
    let ?st = "st\<lparr>input_buffer := drop (4 + unat n) (input_buffer st)\<rparr>"
    let ?s1 = "s\<lparr>connections := umap_put fd ?st (connections s)\<rparr>"
    have step: "cut_loop os (Some handler) fd s =
        bind_run (handler fd f ?s1) (cut_loop os (Some handler) fd)"
      using frame Cons.prems(1) f(1)
      by (subst cut_loop.simps) (simp add: Let_def bad_prefix_def bind_run_def)
    have next_frames: "cut_loop os (Some handler) fd s2 =
        bind_run (deliver handler fd fs s2) (\<lambda>s'. returns (if good then s' else Close os fd s'))"
      if s2: "handler fd f ?s1 = returns s2" for s2
    proof (cases "umap_find (connections s2) fd")
      case None
      then show ?thesis
        by (cases fs) (simp_all add: cut_loop.simps [of os "Some handler" fd s2] consume_def)
    next
      case (Some st2)
      have "input_buffer st2 = input_buffer ?st"
        by (rule keeps_input [OF s2 _ Some]) simp
      then show ?thesis
        using rest by (intro Cons.IH [OF Some]) simp
    qed
    have "deliver handler fd (f # fs) s = bind_run (handler fd f ?s1) (deliver handler fd fs)"
      using Cons.prems(1) f(2) by (simp add: consume_def)
    with step next_frames show ?thesis
      by (cases "handler fd f ?s1") (auto simp: bind_run_def split: sum.splits)
  qed (use Cons.prems in auto)
qed

lemma deliver_input:
  assumes "deliver handler fd fs s = returns s'"
    and "umap_find (connections s) fd = Some st" and "input_buffer st = concat fs @ r"
  shows "\<exists>st'. umap_find (connections s') fd = Some st' \<and> input_buffer st' = r"
  using assms
proof (induction fs arbitrary: s st)
  case Nil
  then show ?case by auto
next
  case (Cons f fs)
  let ?s1 = "s\<lparr>connections := umap_put fd (st\<lparr>input_buffer := concat fs @ r\<rparr>) (connections s)\<rparr>"
  from Cons.prems obtain s2 where s2: "handler fd f ?s1 = returns s2" "deliver handler fd fs s2 = returns s'"
    by (auto simp: consume_def bind_run_eq_returns)
  from s2(2) obtain st2 where st2: "umap_find (connections s2) fd = Some st2"
    by (cases fs) (auto simp: consume_def bind_run_eq_returns split: option.splits if_splits)
  have "input_buffer st2 = concat fs @ r"
    using keeps_input [OF s2(1) _ st2, of "st\<lparr>input_buffer := concat fs @ r\<rparr>"] by simp
  with Cons.IH [OF s2(2) st2] show ?case by blast
qed

end

section \<open>Reading\<close>

text \<open>Finitely many interruptions: every \<open>EINTR\<close> uses up a unit of \<open>patience\<close>.\<close>

fun tires :: "('w \<Rightarrow> nat) \<Rightarrow> 'w \<Rightarrow> (errno + 'a) \<times> 'w \<Rightarrow> bool" where
  "tires patience w (Err e, w') \<longleftrightarrow> (e = EINTR \<longrightarrow> patience w' < patience w)"
| "tires patience w (Ok x, w') \<longleftrightarrow> patience w' \<le> patience w"

definition signal_laws :: "'w sys \<Rightarrow> ('w \<Rightarrow> nat) \<Rightarrow> bool" where
  "signal_laws os patience \<longleftrightarrow>
     (\<forall>fd n w. tires patience w (sys_recv os fd n w)) \<and>
     (\<forall>fd d w. tires patience w (sys_send os fd d w))"

lemma recv_loop_returns:
  assumes "recv_laws os inbox" and "signal_laws os patience"
  shows "\<exists>b s'. recv_loop os fd s = Some (b, s')"
proof (induction s rule: measure_induct_rule
    [where f = "\<lambda>s. length (inbox (world s) fd) + patience (world s)"])
  case (less s)
  obtain x w where recv: "sys_recv os fd 4096 (world s) = (x, w)" by fastforce
  have front: "reads_front inbox fd 4096 (world s) (x, w)"
    using recv_laws_recv [OF assms(1), of fd 4096 "world s"] recv by simp
  have tires: "tires patience (world s) (x, w)"
    using assms(2) recv unfolding signal_laws_def by metis
  show ?case
  proof (cases "umap_find (connections s) fd")
    case None
    then show ?thesis by (auto simp: recv_loop.simps [of os fd s])
  next
    case (Some st)
    note conn = this
    show ?thesis
    proof (cases x)
      case (Inl e)
      show ?thesis
      proof (cases "e = EINTR")
        case True
        have "\<exists>b s'. recv_loop os fd (s\<lparr>world := w\<rparr>) = Some (b, s')"
          by (rule less.IH) (use Inl True front tires in simp)
        with conn recv Inl True show ?thesis by (simp add: recv_loop.simps [of os fd s])
      qed (use conn recv Inl in \<open>auto simp: recv_loop.simps [of os fd s]\<close>)
    next
      case (Inr d)
      show ?thesis
      proof (cases "d = []")
        case False
        let ?s = "s\<lparr>world := w, connections :=
          umap_put fd (st\<lparr>input_buffer := input_buffer st @ d\<rparr>) (connections s)\<rparr>"
        have "\<exists>b s'. recv_loop os fd ?s = Some (b, s')"
          by (rule less.IH) (use Inr front tires False in \<open>cases d; simp\<close>)
        with conn recv Inr False show ?thesis by (simp add: recv_loop.simps [of os fd s])
      qed (use conn recv Inr in \<open>auto simp: recv_loop.simps [of os fd s]\<close>)
    qed
  qed
qed

text \<open>
  Nothing is lost on the way in: what is buffered and what is still in the kernel make up the
  same stream before and after; when the loop breaks out with \<open>True\<close> the connection is alive.
\<close>

lemma recv_loop_stream:
  assumes laws: "recv_laws os inbox" and ret: "recv_loop os fd s = Some (True, s')"
    and conn: "umap_find (connections s) fd = Some st"
  shows "\<exists>st' d. umap_find (connections s') fd = Some st' \<and> input_buffer st' = input_buffer st @ d \<and>
    inbox (world s) fd = d @ inbox (world s') fd \<and> output_buffer st' = output_buffer st \<and>
    bytes_sent st' = bytes_sent st"
proof -
  define I where "I t \<longleftrightarrow> (\<exists>st' d. umap_find (connections t) fd = Some st' \<and> input_buffer st' = input_buffer st @ d \<and>
    inbox (world s) fd = d @ inbox (world t) fd \<and> output_buffer st' = output_buffer st \<and>
    bytes_sent st' = bytes_sent st)" for t :: "('a, 'b) conn_mgr_scheme"
  have err: "inbox w = inbox (world t)" if "sys_recv os fd 4096 (world t) = (Err e, w)"
    for t :: "('a, 'b) conn_mgr_scheme" and e w
    using that recv_laws_recv [OF laws, of fd 4096 "world t"] by simp
  have got: "inbox (world t) fd = d @ inbox w fd" if "sys_recv os fd 4096 (world t) = (Ok d, w)"
    for t :: "('a, 'b) conn_mgr_scheme" and d w
    using that recv_laws_recv [OF laws, of fd 4096 "world t"] by simp
  from ret have "True \<longrightarrow> I s'"
    by (rule recv_loop_rule [where I = I and Q = "\<lambda>b t. b \<longrightarrow> I t"])
      (auto simp: I_def conn dest: err got)
  then show ?thesis by (simp add: I_def)
qed

section \<open>Writing\<close>

text \<open>
  \<open>stream wire s fd\<close> is what the peer of \<open>fd\<close> got and will get: the bytes the kernel has taken
  and the part of the output buffer that was not sent yet.
\<close>

definition stream :: "('w \<Rightarrow> int \<Rightarrow> string) \<Rightarrow> ('w, 'z) conn_mgr_scheme \<Rightarrow> int \<Rightarrow> string" where
  "stream wire s fd = wire (world s) fd @
     (case umap_find (connections s) fd of
        None \<Rightarrow> [] | Some st \<Rightarrow> drop (bytes_sent st) (output_buffer st))"

lemma UpdateInterest_wire [simp]:
  "send_laws os wire \<Longrightarrow> wire (world (UpdateInterest os fd b s)) = wire (world s)"
  using UpdateInterest_world [of os fd b s] by (auto simp: send_laws_keep)

lemma UpdateInterest_stream [simp]:
  "send_laws os wire \<Longrightarrow> stream wire (UpdateInterest os fd b s) = stream wire s"
  by (rule ext) (simp add: stream_def)

lemma Close_wire [simp]: "send_laws os wire \<Longrightarrow> wire (world (Close os fd s)) = wire (world s)"
  by (simp add: Close_def Let_def send_laws_keep split: option.splits)

lemma Close_connections:
  "fd \<noteq> listen_fd s \<Longrightarrow> umap_find (connections (Close os fd s)) = (umap_find (connections s))(fd := None)"
  by (auto simp: Close_def Let_def fun_eq_iff split: option.splits)

text \<open>
  A connection that survives the write loop has kept its stream; a connection that was closed
  has delivered a prefix of it; no other connection is touched. When output remains, the
  reactor waits for writability.
\<close>

definition flush_result ::
  "('w \<Rightarrow> int \<Rightarrow> string) \<Rightarrow> int \<Rightarrow> ('w, 'z) conn_mgr_scheme \<Rightarrow> ('w, 'z) conn_mgr_scheme \<Rightarrow> bool" where
  "flush_result wire fd s s' \<longleftrightarrow>
     (\<forall>g. g \<noteq> fd \<longrightarrow> umap_find (connections s') g = umap_find (connections s) g \<and>
        wire (world s') g = wire (world s) g) \<and>
     (case umap_find (connections s') fd of
        Some st' \<Rightarrow> stream wire s' fd = stream wire s fd \<and>
          map_option input_buffer (umap_find (connections s) fd) = Some (input_buffer st') \<and>
          (\<not> pending st' \<longrightarrow> output_buffer st' = [] \<and> bytes_sent st' = 0)
      | None \<Rightarrow> (\<exists>lost. stream wire s fd = wire (world s') fd @ lost))"

lemma HandleWritable_flush:
  assumes laws: "send_laws os wire" and ret: "HandleWritable os fd s = returns s'"
    and conn: "umap_find (connections s) fd = Some st" and fd: "fd \<noteq> listen_fd s"
    and bytes: "bytes_sent st \<le> length (output_buffer st)"
  shows "flush_result wire fd s s'"
proof -
  define I where "I t \<longleftrightarrow> listen_fd t = listen_fd s \<and>
      (\<forall>g. g \<noteq> fd \<longrightarrow> umap_find (connections t) g = umap_find (connections s) g \<and>
        wire (world t) g = wire (world s) g) \<and>
      stream wire t fd = stream wire s fd \<and>
      (\<exists>st'. umap_find (connections t) fd = Some st' \<and> input_buffer st' = input_buffer st \<and>
        bytes_sent st' \<le> length (output_buffer st'))" for t :: "('a, 'b) conn_mgr_scheme"
  have err: "I (t\<lparr>world := w\<rparr>)"
    if "I t" "sys_send os fd d (world t) = (Err e, w)" for t d e w
    using that send_laws_send [OF laws, of fd d "world t"] by (simp add: I_def stream_def)
  have close: "flush_result wire fd s (Close os fd (t\<lparr>world := w\<rparr>))"
    if "I t" "wire w = wire (world t)" for t w
  proof -
    from that(1) obtain st' where "umap_find (connections t) fd = Some st'" "stream wire t fd = stream wire s fd"
      unfolding I_def by blast
    then have "stream wire s fd = wire (world t) fd @ drop (bytes_sent st') (output_buffer st')"
      by (metis option.simps(5) stream_def)
    with that fd show ?thesis
      by (simp add: I_def flush_result_def Close_connections laws)
  qed
  from ret show ?thesis
  proof (rule HandleWritable_rule [where I = I])
    show "I s" using conn bytes by (simp add: I_def)
  next
    fix t :: "('a, 'b) conn_mgr_scheme" and st' n w
    assume "I t" "umap_find (connections t) fd = Some st'"
      "sys_send os fd (drop (bytes_sent st') (output_buffer st')) (world t) = (Ok n, w)"
    then show "I (t\<lparr>world := w, connections :=
        umap_put fd (st'\<lparr>bytes_sent := bytes_sent st' + n\<rparr>) (connections t)\<rparr>)"
      using send_laws_send [OF laws, of fd "drop (bytes_sent st') (output_buffer st')" "world t"]
      by (auto simp: I_def stream_def add.commute simp flip: drop_drop)
  next
    fix t :: "('a, 'b) conn_mgr_scheme" and st' w
    assume "I t" "sys_send os fd (drop (bytes_sent st') (output_buffer st')) (world t) = (Ok 0, w)"
    then show "flush_result wire fd s (Close os fd (t\<lparr>world := w\<rparr>))"
      using send_laws_send [OF laws, of fd "drop (bytes_sent st') (output_buffer st')" "world t"]
      by (intro close) auto
  next
    fix t :: "('a, 'b) conn_mgr_scheme" and st' e w
    assume "I t" "sys_send os fd (drop (bytes_sent st') (output_buffer st')) (world t) = (Err e, w)"
    then show "flush_result wire fd s (Close os fd (t\<lparr>world := w\<rparr>))"
      using send_laws_send [OF laws, of fd "drop (bytes_sent st') (output_buffer st')" "world t"]
      by (intro close) auto
  next
    fix t :: "('a, 'b) conn_mgr_scheme" and st' w
    assume "I t" "umap_find (connections t) fd = Some st'" "pending st'"
      and send: "sys_send os fd (drop (bytes_sent st') (output_buffer st')) (world t) = (Err EAGAIN, w)"
    with err [OF \<open>I t\<close> send] show "flush_result wire fd s (UpdateInterest os fd True (t\<lparr>world := w\<rparr>))"
      by (auto simp: flush_result_def I_def conn laws)
  next
    fix t :: "('a, 'b) conn_mgr_scheme" and st'
    assume "I t" "umap_find (connections t) fd = Some st'" "\<not> pending st'"
    then show "flush_result wire fd s (UpdateInterest os fd False
        (t\<lparr>connections := umap_put fd (st'\<lparr>output_buffer := [], bytes_sent := 0\<rparr>) (connections t)\<rparr>))"
      by (auto simp: flush_result_def I_def conn laws stream_def)
  next
    fix t :: "('a, 'b) conn_mgr_scheme"
    assume "I t" "umap_find (connections t) fd = None"
    then show "flush_result wire fd s t" by (simp add: I_def)
  qed (rule err)
qed

lemma HandleWritable_returns:
  assumes "send_laws os wire" and "signal_laws os patience"
  shows "\<exists>s'. HandleWritable os fd s = returns s'"
proof (induction s rule: measure_induct_rule
    [where f = "\<lambda>s. (case umap_find (connections s) fd of None \<Rightarrow> 0
        | Some st \<Rightarrow> length (output_buffer st) - bytes_sent st) + patience (world s)"])
  case (less s)
  show ?case
  proof (cases "umap_find (connections s) fd")
    case None
    then show ?thesis by (simp add: HandleWritable.simps [of os fd s])
  next
    case (Some st)
    note conn = this
    obtain x w where send: "sys_send os fd (drop (bytes_sent st) (output_buffer st)) (world s) = (x, w)"
      by fastforce
    have tires: "tires patience (world s) (x, w)"
      using assms(2) send unfolding signal_laws_def by metis
    show ?thesis
    proof (cases "pending st")
      case False
      with conn show ?thesis by (simp add: HandleWritable.simps [of os fd s])
    next
      case True
      note pend = this
      show ?thesis
      proof (cases x)
        case (Inl e)
        show ?thesis
        proof (cases "e = EINTR")
          case True
          have "\<exists>s'. HandleWritable os fd (s\<lparr>world := w\<rparr>) = returns s'"
            by (rule less.IH) (use conn Inl True tires in simp)
          with conn send Inl True pend show ?thesis by (simp add: HandleWritable.simps [of os fd s])
        qed (use conn send Inl pend in \<open>auto simp: HandleWritable.simps [of os fd s]\<close>)
      next
        case (Inr n)
        show ?thesis
        proof (cases "n = 0")
          case False
          let ?s = "s\<lparr>world := w, connections :=
            umap_put fd (st\<lparr>bytes_sent := bytes_sent st + n\<rparr>) (connections s)\<rparr>"
          have "\<exists>s'. HandleWritable os fd ?s = returns s'"
            by (rule less.IH) (use conn Inr tires False pend in simp)
          with conn send Inr False pend show ?thesis by (simp add: HandleWritable.simps [of os fd s])
        qed (use conn send Inr pend in \<open>auto simp: HandleWritable.simps [of os fd s]\<close>)
      qed
    qed
  qed
qed

lemma Send_flush:
  assumes laws: "send_laws os wire" and ret: "Send os fd frame s = returns s'"
    and conn: "umap_find (connections s) fd = Some st" and fd: "fd \<noteq> listen_fd s"
    and bytes: "bytes_sent st \<le> length (output_buffer st)"
  shows "flush_result wire fd
    (s\<lparr>connections := umap_put fd (st\<lparr>output_buffer := output_buffer st @ frame\<rparr>) (connections s)\<rparr>) s'"
    (is "flush_result wire fd ?q s'")
proof -
  let ?q' = "UpdateInterest os fd True ?q"
  have "HandleWritable os fd ?q' = returns s'"
    using ret conn by (simp add: Send_def)
  from HandleWritable_flush [OF laws this] conn fd bytes
  have "flush_result wire fd ?q' s'" by simp
  then show ?thesis
    by (simp add: flush_result_def laws split: option.splits)
qed

lemma Send_returns:
  assumes "send_laws os wire" and "signal_laws os patience"
  shows "\<exists>s'. Send os fd frame s = returns s'"
  using HandleWritable_returns [OF assms] by (cases "umap_find (connections s) fd") (simp_all add: Send_def)

end
