(* ===== verification/BoundedPool.thy ===== *)
theory BoundedPool
  imports Prelude "HOL-Library.Multiset"
begin

text \<open>
  The contract shared by the two object pools of hxrpc, the protobuf message pool of the
  server (\<open>src/src/message_pool.cc\<close>) and the idle connection pool of the client
  (\<open>src/src/client_transport.cc\<close>): per key a stack of at most \<open>limit\<close> objects; \<open>give\<close> pushes and
  says whether it kept the object, \<open>take_one\<close> pops.
\<close>

locale bounded_pool =
  fixes bucket :: "'p \<Rightarrow> 'k \<Rightarrow> 'v list"
    and limit :: "'p \<Rightarrow> nat"
    and take_one :: "'k \<Rightarrow> 'p \<Rightarrow> 'v option \<times> 'p"
    and give :: "'k \<Rightarrow> 'v \<Rightarrow> 'p \<Rightarrow> bool \<times> 'p"
  assumes take_empty: "bucket p k = [] \<Longrightarrow> fst (take_one k p) = None"
    and take_empty_bucket: "bucket p k = [] \<Longrightarrow> bucket (snd (take_one k p)) = bucket p"
    and take_last: "bucket p k \<noteq> [] \<Longrightarrow> fst (take_one k p) = Some (last (bucket p k))"
    and take_last_bucket: "bucket p k \<noteq> [] \<Longrightarrow>
      bucket (snd (take_one k p)) = (bucket p)(k := butlast (bucket p k))"
    and take_limit: "limit (snd (take_one k p)) = limit p"
    and give_room: "fst (give k v p) \<longleftrightarrow> length (bucket p k) < limit p"
    and give_bucket: "bucket (snd (give k v p)) =
      (if length (bucket p k) < limit p then (bucket p)(k := bucket p k @ [v]) else bucket p)"
    and give_limit: "limit (snd (give k v p)) = limit p"
begin

definition within_limit :: "'p \<Rightarrow> bool" where
  "within_limit p \<longleftrightarrow> (\<forall>k. length (bucket p k) \<le> limit p)"

lemma within_limit_take: "within_limit p \<Longrightarrow> within_limit (snd (take_one k p))"
  by (cases "bucket p k = []")
    (auto simp: within_limit_def take_limit take_empty_bucket take_last_bucket intro: le_diff_conv [THEN iffD2, OF trans_le_add1])

lemma within_limit_give: "within_limit p \<Longrightarrow> within_limit (snd (give k v p))"
  by (auto simp: within_limit_def give_limit give_bucket)

text \<open>Last in, first out.\<close>

lemma take_after_give:
  assumes "fst (give k v p)"
  shows "fst (take_one k (snd (give k v p))) = Some v"
    and "bucket (snd (take_one k (snd (give k v p)))) = bucket p"
  using assms by (simp_all add: give_room give_bucket take_last take_last_bucket)

text \<open>Objects are neither duplicated nor lost: the stack of a key loses exactly what is taken.\<close>

lemma take_mset:
  "mset (bucket p k) =
     (case fst (take_one k p) of None \<Rightarrow> {#} | Some v \<Rightarrow> {#v#}) + mset (bucket (snd (take_one k p)) k)"
proof (cases "bucket p k = []")
  case True
  then show ?thesis by (simp add: take_empty take_empty_bucket)
next
  case False
  then have "mset (bucket p k) = {#last (bucket p k)#} + mset (butlast (bucket p k))"
    by (metis add_mset_add_single append_butlast_last_id mset.simps mset_append add.commute)
  with False show ?thesis by (simp add: take_last take_last_bucket)
qed

lemma give_mset:
  "mset (bucket (snd (give k v p)) k) =
     mset (bucket p k) + (if fst (give k v p) then {#v#} else {#})"
  by (simp add: give_room give_bucket)

lemma other_buckets:
  assumes "j \<noteq> k"
  shows "bucket (snd (take_one k p)) j = bucket p j" "bucket (snd (give k v p)) j = bucket p j"
  using assms by (cases "bucket p k = []"; simp add: take_empty_bucket take_last_bucket give_bucket)+

end

end
