(* ===== verification/ClientTransport.thy ===== *)
theory ClientTransport
  imports ConnectionStreams BoundedPool "HOL-Library.Signed_Division"
begin

text \<open>
  The client's TCP transport, \<open>src/src/client_transport.cc\<close>: connecting, sending a frame whole,
  receiving a frame whole, and a pool of idle connections per endpoint. The state is the
  world and the idle pool; the pool mutex makes each locked section one step.

  The coroutine versions suspend in \<open>AsyncRuntime::WaitFor\<close>; whether the wait ends with the
  event or with the timeout is decided by the runtime thread, so it is the argument \<open>await\<close> of
  these definitions.
\<close>

record 'w client =
  cworld :: 'w
  idle_pool :: "(string, int list) umap"

definition kMaxIdlePerEndpoint :: nat where
  "kMaxIdlePerEndpoint = 8"

definition BuildSystemError :: "'w sys \<Rightarrow> string \<Rightarrow> errno \<Rightarrow> string" where
  "BuildSystemError os pre e = pre @ '': '' @ sys_strerror os e"

abbreviation net_error :: "string \<Rightarrow> RpcError" where
  "net_error m \<equiv> rpc_error kNetworkError m"

section \<open>Sockets\<close>

definition SetSocketBlockingMode :: "'w sys \<Rightarrow> int \<Rightarrow> bool \<Rightarrow> 'w \<Rightarrow> bool \<times> 'w" where
  "SetSocketBlockingMode os fd blocking w =
     (case sys_getfl os fd w of
        (Err _, w1) \<Rightarrow> (False, w1)
      | (Ok flags, w1) \<Rightarrow>
          (case sys_setfl os fd (if blocking then flags AND NOT O_NONBLOCK else flags OR O_NONBLOCK) w1 of
             (Err _, w2) \<Rightarrow> (False, w2)
           | (Ok _, w2) \<Rightarrow> (True, w2)))"

definition socket_timeout :: "CallOptions \<Rightarrow> timeval" where
  "socket_timeout options =
     \<lparr>tv_sec = timeout_ms options sdiv 1000, tv_usec = (timeout_ms options smod 1000) * 1000\<rparr>"

definition ConfigureSocket :: "'w sys \<Rightarrow> int \<Rightarrow> CallOptions \<Rightarrow> 'w \<Rightarrow> (RpcError + unit) \<times> 'w" where
  "ConfigureSocket os fd options w =
     (case sys_setsockopt os fd (SO_RCVTIMEO (socket_timeout options)) w of
        (Err e, w1) \<Rightarrow> (Err (net_error (BuildSystemError os ''setsockopt(RCVTIMEO) failed'' e)), w1)
      | (Ok _, w1) \<Rightarrow>
          (case sys_setsockopt os fd (SO_SNDTIMEO (socket_timeout options)) w1 of
             (Err e, w2) \<Rightarrow> (Err (net_error (BuildSystemError os ''setsockopt(SNDTIMEO) failed'' e)), w2)
           | (Ok _, w2) \<Rightarrow> (Ok (), w2)))"

definition CloseSocket :: "'w sys \<Rightarrow> int \<Rightarrow> 'w \<Rightarrow> 'w" where
  "CloseSocket os fd w = (if 0 \<le> fd then sys_close os fd w else w)"

definition ConnectTo :: "'w sys \<Rightarrow> Endpoint \<Rightarrow> CallOptions \<Rightarrow> 'w \<Rightarrow> (RpcError + int) \<times> 'w" where
  "ConnectTo os endpoint options w =
     (case sys_socket os w of
        (Err e, w1) \<Rightarrow> (Err (net_error (BuildSystemError os ''socket failed'' e)), w1)
      | (Ok fd, w1) \<Rightarrow>
          (case sys_inet_pton os (ep_host endpoint) of
             None \<Rightarrow> (Err (net_error ''endpoint host is not a valid IPv4 address''), sys_close os fd w1)
           | Some addr \<Rightarrow>
               (case ConfigureSocket os fd options w1 of
                  (Err err, w2) \<Rightarrow> (Err err, sys_close os fd w2)
                | (Ok _, w2) \<Rightarrow>
                    (case sys_connect os fd addr (ep_port endpoint) w2 of
                       (Err e, w3) \<Rightarrow>
                         (Err (net_error (BuildSystemError os ''connect failed'' e)), sys_close os fd w3)
                     | (Ok _, w3) \<Rightarrow> (Ok fd, w3)))))"

definition ConnectToAsync ::
  "'w sys \<Rightarrow> (int \<Rightarrow> u32 \<Rightarrow> int \<Rightarrow> 'w \<Rightarrow> bool \<times> 'w) \<Rightarrow> Endpoint \<Rightarrow> CallOptions \<Rightarrow> 'w \<Rightarrow>
   (RpcError + int) \<times> 'w" where
  "ConnectToAsync os await endpoint options w =
     (case sys_socket os w of
        (Err e, w1) \<Rightarrow> (Err (net_error (BuildSystemError os ''socket failed'' e)), w1)
      | (Ok fd, w1) \<Rightarrow>
          let fail = (\<lambda>m w. (Err (net_error m), sys_close os fd w)) in
          (case sys_getfl os fd w1 of
             (Err e, w2) \<Rightarrow> fail (BuildSystemError os ''fcntl failed'' e) w2
           | (Ok flags, w2) \<Rightarrow>
          (case sys_setfl os fd (flags OR O_NONBLOCK) w2 of
             (Err e, w3) \<Rightarrow> fail (BuildSystemError os ''fcntl failed'' e) w3
           | (Ok _, w3) \<Rightarrow>
          (case ConfigureSocket os fd options w3 of
             (Err err, w4) \<Rightarrow> (Err err, sys_close os fd w4)
           | (Ok _, w4) \<Rightarrow>
          (case sys_inet_pton os (ep_host endpoint) of
             None \<Rightarrow> fail ''endpoint host is not a valid IPv4 address'' w4
           | Some addr \<Rightarrow>
          (case sys_connect os fd addr (ep_port endpoint) w4 of
             (Ok _, w5) \<Rightarrow> (Ok fd, w5)
           | (Err e, w5) \<Rightarrow>
               if e \<noteq> EINPROGRESS then fail (BuildSystemError os ''connect failed'' e) w5
               else (case await fd EPOLLOUT (timeout_ms options) w5 of (ready, w6) \<Rightarrow>
                 if \<not> ready then fail ''connect timed out'' w6
                 else (case sys_so_error os fd w6 of
                         (Err e, w7) \<Rightarrow> fail (BuildSystemError os ''connect failed'' e) w7
                       | (Ok (Some e), w7) \<Rightarrow> fail (BuildSystemError os ''connect failed'' e) w7
                       | (Ok None, w7) \<Rightarrow> (Ok fd, w7)))))))))"

section \<open>Sending and receiving whole buffers\<close>

partial_function (option) send_from ::
  "'w sys \<Rightarrow> int \<Rightarrow> string \<Rightarrow> nat \<Rightarrow> 'w \<Rightarrow> ((RpcError + unit) \<times> 'w) option" where
  "send_from os fd data offset w =
     (if offset < length data then
        (case sys_send os fd (drop offset data) w of
           (Ok written, w1) \<Rightarrow>
             if written = 0 then Some (Err (net_error ''send returned zero bytes''), w1)
             else send_from os fd data (offset + written) w1
         | (Err e, w1) \<Rightarrow>
             if e = EINTR then send_from os fd data offset w1
             else Some (Err (net_error (BuildSystemError os ''send failed'' e)), w1))
      else Some (Ok (), w))"

definition SendAll :: "'w sys \<Rightarrow> int \<Rightarrow> string \<Rightarrow> 'w \<Rightarrow> ((RpcError + unit) \<times> 'w) option" where
  "SendAll os fd data w = send_from os fd data 0 w"

partial_function (option) send_from_async ::
  "'w sys \<Rightarrow> (int \<Rightarrow> u32 \<Rightarrow> int \<Rightarrow> 'w \<Rightarrow> bool \<times> 'w) \<Rightarrow> int \<Rightarrow> int \<Rightarrow> string \<Rightarrow> nat \<Rightarrow> 'w \<Rightarrow>
   ((RpcError + unit) \<times> 'w) option" where
  "send_from_async os await timeout fd data offset w =
     (if offset < length data then
        (case sys_send os fd (drop offset data) w of
           (Ok written, w1) \<Rightarrow>
             if 0 < written then send_from_async os await timeout fd data (offset + written) w1
             else Some (Err (net_error ''send returned zero bytes''), w1)
         | (Err e, w1) \<Rightarrow>
             if e = EINTR then send_from_async os await timeout fd data offset w1
             else if e = EAGAIN \<or> e = EWOULDBLOCK then
               (case await fd EPOLLOUT timeout w1 of (writable, w2) \<Rightarrow>
                  if \<not> writable then Some (Err (net_error ''send timed out''), w2)
                  else send_from_async os await timeout fd data offset w2)
             else Some (Err (net_error (BuildSystemError os ''send failed'' e)), w1))
      else Some (Ok (), w))"

definition SendAllAsync ::
  "'w sys \<Rightarrow> (int \<Rightarrow> u32 \<Rightarrow> int \<Rightarrow> 'w \<Rightarrow> bool \<times> 'w) \<Rightarrow> int \<Rightarrow> string \<Rightarrow> int \<Rightarrow> 'w \<Rightarrow>
   ((RpcError + unit) \<times> 'w) option" where
  "SendAllAsync os await fd data timeout w = send_from_async os await timeout fd data 0 w"

text \<open>\<open>got\<close> is what was written to the buffer so far; \<open>offset\<close> is its length.\<close>

partial_function (option) recv_until ::
  "'w sys \<Rightarrow> int \<Rightarrow> nat \<Rightarrow> string \<Rightarrow> 'w \<Rightarrow> ((RpcError + string) \<times> 'w) option" where
  "recv_until os fd n got w =
     (if length got < n then
        (case sys_recv os fd (n - length got) w of
           (Ok data, w1) \<Rightarrow>
             if data = [] then Some (Err (net_error ''peer closed connection''), w1)
             else recv_until os fd n (got @ data) w1
         | (Err e, w1) \<Rightarrow>
             if e = EINTR then recv_until os fd n got w1
             else Some (Err (net_error (BuildSystemError os ''recv failed'' e)), w1))
      else Some (Ok got, w))"

definition RecvAll :: "'w sys \<Rightarrow> int \<Rightarrow> nat \<Rightarrow> 'w \<Rightarrow> ((RpcError + string) \<times> 'w) option" where
  "RecvAll os fd n w = recv_until os fd n [] w"

partial_function (option) recv_until_async ::
  "'w sys \<Rightarrow> (int \<Rightarrow> u32 \<Rightarrow> int \<Rightarrow> 'w \<Rightarrow> bool \<times> 'w) \<Rightarrow> int \<Rightarrow> int \<Rightarrow> nat \<Rightarrow> string \<Rightarrow> 'w \<Rightarrow>
   ((RpcError + string) \<times> 'w) option" where
  "recv_until_async os await timeout fd n got w =
     (if length got < n then
        (case sys_recv os fd (n - length got) w of
           (Ok data, w1) \<Rightarrow>
             if data \<noteq> [] then recv_until_async os await timeout fd n (got @ data) w1
             else Some (Err (net_error ''peer closed connection''), w1)
         | (Err e, w1) \<Rightarrow>
             if e = EINTR then recv_until_async os await timeout fd n got w1
             else if e = EAGAIN \<or> e = EWOULDBLOCK then
               (case await fd EPOLLIN timeout w1 of (readable, w2) \<Rightarrow>
                  if \<not> readable then Some (Err (net_error ''recv timed out''), w2)
                  else recv_until_async os await timeout fd n got w2)
             else Some (Err (net_error (BuildSystemError os ''recv failed'' e)), w1))
      else Some (Ok got, w))"

definition RecvAllAsync ::
  "'w sys \<Rightarrow> (int \<Rightarrow> u32 \<Rightarrow> int \<Rightarrow> 'w \<Rightarrow> bool \<times> 'w) \<Rightarrow> int \<Rightarrow> nat \<Rightarrow> int \<Rightarrow> 'w \<Rightarrow>
   ((RpcError + string) \<times> 'w) option" where
  "RecvAllAsync os await fd n timeout w = recv_until_async os await timeout fd n [] w"

text \<open>
  \<open>ReceiveFrame\<close> and \<open>ReceiveFrameAsync\<close> differ only in the receive operation they call.
\<close>

definition receive_frame_with ::
  "(nat \<Rightarrow> 'w \<Rightarrow> ((RpcError + string) \<times> 'w) option) \<Rightarrow> 'w \<Rightarrow> ((RpcError + string) \<times> 'w) option" where
  "receive_frame_with recv_all w =
     (case recv_all 4 w of
        None \<Rightarrow> None
      | Some (Err err, w1) \<Rightarrow> Some (Err err, w1)
      | Some (Ok pre, w1) \<Rightarrow>
          let frame_size = un_be32 pre in
          if unat frame_size < 4 \<or> kMaxFrameBodySize < frame_size
          then Some (Err (rpc_error kInvalidPacket ''response frame length is invalid''), w1)
          else (case recv_all (unat frame_size) w1 of
                  None \<Rightarrow> None
                | Some (Err err, w2) \<Rightarrow> Some (Err err, w2)
                | Some (Ok body, w2) \<Rightarrow> Some (Ok (pre @ body), w2)))"

definition ReceiveFrame :: "'w sys \<Rightarrow> int \<Rightarrow> 'w \<Rightarrow> ((RpcError + string) \<times> 'w) option" where
  "ReceiveFrame os fd w = receive_frame_with (RecvAll os fd) w"

definition ReceiveFrameAsync ::
  "'w sys \<Rightarrow> (int \<Rightarrow> u32 \<Rightarrow> int \<Rightarrow> 'w \<Rightarrow> bool \<times> 'w) \<Rightarrow> int \<Rightarrow> int \<Rightarrow> 'w \<Rightarrow>
   ((RpcError + string) \<times> 'w) option" where
  "ReceiveFrameAsync os await fd timeout w =
     receive_frame_with (\<lambda>n. RecvAllAsync os await fd n timeout) w"

section \<open>The connection pool and the round trip\<close>

definition EndpointKey :: "Endpoint \<Rightarrow> string" where
  "EndpointKey endpoint = Endpoint_ToString endpoint"

definition idle_of :: "(string, int list) umap \<Rightarrow> string \<Rightarrow> int list" where
  "idle_of p key = (case umap_find p key of None \<Rightarrow> [] | Some b \<Rightarrow> b)"

text \<open>Taking an idle connection; a bucket that becomes empty is erased.\<close>

definition pop_idle :: "string \<Rightarrow> (string, int list) umap \<Rightarrow> int option \<times> (string, int list) umap" where
  "pop_idle key p =
     (case umap_find p key of
        None \<Rightarrow> (None, p)
      | Some bucket \<Rightarrow>
          if bucket = [] then (None, p)
          else (Some (last bucket),
                if butlast bucket = [] then umap_erase key p else umap_put key (butlast bucket) p))"

definition BorrowConnection ::
  "'w sys \<Rightarrow> Endpoint \<Rightarrow> CallOptions \<Rightarrow> 'w client \<Rightarrow> (RpcError + int) \<times> 'w client" where
  "BorrowConnection os endpoint options c =
     (let connect = (\<lambda>c. case ConnectTo os endpoint options (cworld c) of
                           (r, w) \<Rightarrow> (r, c\<lparr>cworld := w\<rparr>))
      in case pop_idle (EndpointKey endpoint) (idle_pool c) of
           (None, _) \<Rightarrow> connect c
         | (Some fd, p1) \<Rightarrow>
             (case SetSocketBlockingMode os fd True (cworld c) of (switched, w1) \<Rightarrow>
                if \<not> switched then connect (c\<lparr>idle_pool := p1, cworld := CloseSocket os fd w1\<rparr>)
                else (case ConfigureSocket os fd options w1 of
                        (Ok _, w2) \<Rightarrow> (Ok fd, c\<lparr>idle_pool := p1, cworld := w2\<rparr>)
                      | (Err _, w2) \<Rightarrow> connect (c\<lparr>idle_pool := p1, cworld := CloseSocket os fd w2\<rparr>))))"

definition BorrowConnectionAsync ::
  "'w sys \<Rightarrow> (int \<Rightarrow> u32 \<Rightarrow> int \<Rightarrow> 'w \<Rightarrow> bool \<times> 'w) \<Rightarrow> Endpoint \<Rightarrow> CallOptions \<Rightarrow> 'w client \<Rightarrow>
   (RpcError + int) \<times> 'w client" where
  "BorrowConnectionAsync os await endpoint options c =
     (let connect = (\<lambda>c. case ConnectToAsync os await endpoint options (cworld c) of
                           (r, w) \<Rightarrow> (r, c\<lparr>cworld := w\<rparr>))
      in case pop_idle (EndpointKey endpoint) (idle_pool c) of
           (None, _) \<Rightarrow> connect c
         | (Some fd, p1) \<Rightarrow>
             (case SetSocketBlockingMode os fd False (cworld c) of (switched, w1) \<Rightarrow>
                if \<not> switched then connect (c\<lparr>idle_pool := p1, cworld := CloseSocket os fd w1\<rparr>)
                else (case ConfigureSocket os fd options w1 of
                        (Ok _, w2) \<Rightarrow> (Ok fd, c\<lparr>idle_pool := p1, cworld := w2\<rparr>)
                      | (Err _, w2) \<Rightarrow> connect (c\<lparr>idle_pool := p1, cworld := CloseSocket os fd w2\<rparr>))))"

text \<open>The flag tells whether the connection was kept.\<close>

definition push_idle :: "string \<Rightarrow> int \<Rightarrow> (string, int list) umap \<Rightarrow> bool \<times> (string, int list) umap" where
  "push_idle key fd p =
     (let bucket = idle_of p key
      in if kMaxIdlePerEndpoint \<le> length bucket then (False, umap_put key bucket p)
         else (True, umap_put key (bucket @ [fd]) p))"

definition ReturnConnection :: "'w sys \<Rightarrow> Endpoint \<Rightarrow> int \<Rightarrow> 'w client \<Rightarrow> 'w client" where
  "ReturnConnection os endpoint fd c =
     (case push_idle (EndpointKey endpoint) fd (idle_pool c) of
        (kept, p1) \<Rightarrow>
          if kept then c\<lparr>idle_pool := p1\<rparr>
          else c\<lparr>idle_pool := p1, cworld := CloseSocket os fd (cworld c)\<rparr>)"

definition RoundTrip ::
  "'w sys \<Rightarrow> Endpoint \<Rightarrow> string \<Rightarrow> CallOptions \<Rightarrow> 'w client \<Rightarrow>
   ((RpcError + string) \<times> 'w client) option" where
  "RoundTrip os endpoint frame options c =
     (case BorrowConnection os endpoint options c of
        (Err err, c1) \<Rightarrow> Some (Err err, c1)
      | (Ok fd, c1) \<Rightarrow>
          (case SendAll os fd frame (cworld c1) of
             None \<Rightarrow> None
           | Some (Err err, w) \<Rightarrow> Some (Err err, c1\<lparr>cworld := CloseSocket os fd w\<rparr>)
           | Some (Ok _, w) \<Rightarrow>
               (case ReceiveFrame os fd w of
                  None \<Rightarrow> None
                | Some (Err err, w2) \<Rightarrow> Some (Err err, c1\<lparr>cworld := CloseSocket os fd w2\<rparr>)
                | Some (Ok resp, w2) \<Rightarrow>
                    Some (Ok resp, ReturnConnection os endpoint fd (c1\<lparr>cworld := w2\<rparr>)))))"

text \<open>\<open>RoundTripAsync\<close> is the synchronous round trip run inside a coroutine.\<close>

definition RoundTripAsync ::
  "'w sys \<Rightarrow> Endpoint \<Rightarrow> string \<Rightarrow> CallOptions \<Rightarrow> 'w client \<Rightarrow>
   ((RpcError + string) \<times> 'w client) option" where
  "RoundTripAsync os endpoint frame options c = RoundTrip os endpoint frame options c"

definition TcpClientTransport_destroy :: "'w sys \<Rightarrow> 'w client \<Rightarrow> 'w client" where
  "TcpClientTransport_destroy os c =
     c\<lparr>cworld := fold (CloseSocket os) (concat (map snd (idle_pool c))) (cworld c), idle_pool := []\<rparr>"

end
