(* ===== verification/ClientIO.thy ===== *)
theory ClientIO
  imports ClientTransport
begin

text \<open>
  What the client's send and receive loops do: \<open>SendAll\<close> hands the peer the whole buffer or
  reports a network error, \<open>ReceiveFrame\<close> takes exactly the first frame of the stream, both
  return when the kernel interrupts them finitely often, and neither opens or closes a
  descriptor. The receiving side implements the same specification \<open>cut_frames\<close> as the server.
\<close>

section \<open>Sending\<close>

lemma send_from_rule:
  assumes ret: "send_from os fd data offset w = Some (r, w')"
    and init: "I offset w"
    and full: "\<And>i w. I i w \<Longrightarrow> \<not> i < length data \<Longrightarrow> Q (Ok ()) w"
    and sent: "\<And>i w n w1. I i w \<Longrightarrow> i < length data \<Longrightarrow> sys_send os fd (drop i data) w = (Ok n, w1) \<Longrightarrow>
      0 < n \<Longrightarrow> I (i + n) w1"
    and zero: "\<And>i w w1. I i w \<Longrightarrow> i < length data \<Longrightarrow> sys_send os fd (drop i data) w = (Ok 0, w1) \<Longrightarrow>
      Q (Err (net_error ''send returned zero bytes'')) w1"
    and intr: "\<And>i w w1. I i w \<Longrightarrow> i < length data \<Longrightarrow> sys_send os fd (drop i data) w = (Err EINTR, w1) \<Longrightarrow>
      I i w1"
    and hard: "\<And>i w e w1. I i w \<Longrightarrow> i < length data \<Longrightarrow> sys_send os fd (drop i data) w = (Err e, w1) \<Longrightarrow>
      e \<noteq> EINTR \<Longrightarrow> Q (Err (net_error (BuildSystemError os ''send failed'' e))) w1"
  shows "Q r w'"
proof -
  define P where "P os' fd' data' i w x \<longleftrightarrow>
      (os' = os \<longrightarrow> fd' = fd \<longrightarrow> data' = data \<longrightarrow> I i w \<longrightarrow> Q (fst x) (snd x))"
    for os' fd' data' i w and x :: "(RpcError + unit) \<times> 'a"
  have "P os fd data offset w (r, w')"
  proof (rule send_from.raw_induct [where P = P, OF _ ret], unfold P_def, intro impI allI, goal_cases)
    case (1 f os' fd' data' i w x)
    note IH = 1(1) [rule_format, OF _ 1(3-5)] and eq = 1(2) and here = 1(3-6)
    show ?case
    proof (cases "i < length data")
      case False
      with eq here show ?thesis by (auto intro: full)
    next
      case True
      obtain y w1 where "sys_send os fd (drop i data) w = (y, w1)" by fastforce
      with True eq here show ?thesis
        by (cases y) (auto split: if_splits intro: hard zero IH intr sent)
    qed
  qed
  with init show ?thesis by (simp add: P_def)
qed

lemma SendAll_wire:
  assumes laws: "send_laws os wire" and ret: "SendAll os fd data w = Some (r, w')"
  shows "case r of
      Ok _ \<Rightarrow> wire w' = (wire w)(fd := wire w fd @ data)
    | Err err \<Rightarrow> err_code err = kNetworkError \<and>
        (\<exists>n < length data. wire w' = (wire w)(fd := wire w fd @ take n data))"
  (is "?Q r w'")
proof -
  have step: "wire w2 = (wire w)(fd := wire w fd @ take (i + n) data) \<and> i + n \<le> length data"
    if "wire w1 = (wire w)(fd := wire w fd @ take i data) \<and> i \<le> length data"
      "sys_send os fd (drop i data) w1 = (Ok n, w2)" for i n w1 w2
    using that send_laws_send [OF laws, of fd "drop i data" w1]
    by (auto simp: take_add)
  have err: "wire w2 = wire w1" if "sys_send os fd (drop i data) w1 = (Err e, w2)" for i e w1 w2
    using that send_laws_send [OF laws, of fd "drop i data" w1] by auto
  from ret show ?thesis
    unfolding SendAll_def
  proof (rule send_from_rule [where Q = ?Q and
        I = "\<lambda>i w1. wire w1 = (wire w)(fd := wire w fd @ take i data) \<and> i \<le> length data"], goal_cases)
    case (3 i w1 n w2)
    then show ?case using step by blast
  next
    case (4 i w1 w2)
    with step [of w1 i 0 w2] show ?case by auto
  next
    case (5 i w1 w2)
    then show ?case using err by simp
  next
    case (6 i w1 e w2)
    with err [of i w1 e w2] show ?case by auto
  qed auto
qed

lemma SendAll_opened:
  assumes laws: "fd_laws os opened" and ret: "SendAll os fd data w = Some (r, w')"
  shows "opened w' = opened w"
  using ret unfolding SendAll_def
  by (rule send_from_rule [where Q = "\<lambda>_ w'. opened w' = opened w" and I = "\<lambda>_ w'. opened w' = opened w"])
    (auto dest: fd_laws_results(9) [OF laws])

lemma send_from_returns:
  assumes "signal_laws os patience"
  shows "\<exists>r w'. send_from os fd data offset w = Some (r, w')"
proof (induction "length data - offset + patience w" arbitrary: offset w rule: less_induct)
  case less
  show ?case
  proof (cases "offset < length data")
    case False
    then show ?thesis by (simp add: send_from.simps [of os fd data offset])
  next
    case True
    obtain x w1 where send: "sys_send os fd (drop offset data) w = (x, w1)" by fastforce
    have tires: "tires patience w (x, w1)"
      using assms send unfolding signal_laws_def by metis
    show ?thesis
    proof (cases x)
      case (Inl e)
      with tires have "e = EINTR \<longrightarrow> (\<exists>r w'. send_from os fd data offset w1 = Some (r, w'))"
        by (auto intro: less)
      with Inl True send show ?thesis
        by (cases "e = EINTR") (simp_all add: send_from.simps [of os fd data offset w])
    next
      case (Inr n)
      with tires True have "n \<noteq> 0 \<longrightarrow> (\<exists>r w'. send_from os fd data (offset + n) w1 = Some (r, w'))"
        by (intro impI less) auto
      with Inr True send show ?thesis
        by (cases "n = 0") (simp_all add: send_from.simps [of os fd data offset w])
    qed
  qed
qed

section \<open>Receiving\<close>

lemma recv_until_rule:
  assumes ret: "recv_until os fd n got w = Some (r, w')"
    and init: "I got w"
    and full: "\<And>g w. I g w \<Longrightarrow> \<not> length g < n \<Longrightarrow> Q (Ok g) w"
    and more: "\<And>g w d w1. I g w \<Longrightarrow> length g < n \<Longrightarrow> sys_recv os fd (n - length g) w = (Ok d, w1) \<Longrightarrow>
      d \<noteq> [] \<Longrightarrow> I (g @ d) w1"
    and eof: "\<And>g w w1. I g w \<Longrightarrow> length g < n \<Longrightarrow> sys_recv os fd (n - length g) w = (Ok [], w1) \<Longrightarrow>
      Q (Err (net_error ''peer closed connection'')) w1"
    and intr: "\<And>g w w1. I g w \<Longrightarrow> length g < n \<Longrightarrow> sys_recv os fd (n - length g) w = (Err EINTR, w1) \<Longrightarrow>
      I g w1"
    and hard: "\<And>g w e w1. I g w \<Longrightarrow> length g < n \<Longrightarrow> sys_recv os fd (n - length g) w = (Err e, w1) \<Longrightarrow>
      e \<noteq> EINTR \<Longrightarrow> Q (Err (net_error (BuildSystemError os ''recv failed'' e))) w1"
  shows "Q r w'"
proof -
  define P where "P os' fd' n' g w x \<longleftrightarrow>
      (os' = os \<longrightarrow> fd' = fd \<longrightarrow> n' = n \<longrightarrow> I g w \<longrightarrow> Q (fst x) (snd x))"
    for os' fd' n' g w and x :: "(RpcError + string) \<times> 'a"
  have "P os fd n got w (r, w')"
  proof (rule recv_until.raw_induct [where P = P, OF _ ret], unfold P_def, intro impI allI, goal_cases)
    case (1 f os' fd' n' g w x)
    note IH = 1(1) [rule_format, OF _ 1(3-5)] and eq = 1(2) and here = 1(3-6)
    show ?case
    proof (cases "length g < n")
      case False
      with eq here show ?thesis by (auto intro: full)
    next
      case True
      obtain y w1 where "sys_recv os fd (n - length g) w = (y, w1)" by fastforce
      with True eq here show ?thesis
        by (cases y) (auto split: if_splits intro: hard eof IH intr more)
    qed
  qed
  with init show ?thesis by (simp add: P_def)
qed

text \<open>The bytes taken from the stream, all of them or a proper part when the call fails.\<close>

lemma RecvAll_inbox:
  assumes laws: "recv_laws os inbox" and ret: "RecvAll os fd n w = Some (r, w')"
  shows "case r of
      Ok d \<Rightarrow> length d = n \<and> inbox w = (inbox w')(fd := d @ inbox w' fd)
    | Err err \<Rightarrow> err_code err = kNetworkError \<and>
        (\<exists>d. length d < n \<and> inbox w = (inbox w')(fd := d @ inbox w' fd))"
  (is "?Q r w'")
proof -
  have step: "inbox w = (inbox w2)(fd := (g @ d) @ inbox w2 fd) \<and> length (g @ d) \<le> n"
    if "inbox w = (inbox w1)(fd := g @ inbox w1 fd) \<and> length g \<le> n"
      "sys_recv os fd (n - length g) w1 = (Ok d, w2)" for g d w1 w2
    using that recv_laws_recv [OF laws, of fd "n - length g" w1] by auto
  have err: "inbox w2 = inbox w1" if "sys_recv os fd k w1 = (Err e, w2)" for k e w1 w2
    using that recv_laws_recv [OF laws, of fd k w1] by auto
  from ret show ?thesis
    unfolding RecvAll_def
  proof (rule recv_until_rule [where Q = ?Q and
        I = "\<lambda>g w1. inbox w = (inbox w1)(fd := g @ inbox w1 fd) \<and> length g \<le> n"], goal_cases)
    case (3 g w1 d w2)
    then show ?case using step by blast
  next
    case (4 g w1 w2)
    with step [of w1 g "[]" w2] show ?case by auto
  next
    case (5 g w1 w2)
    then show ?case using err by auto
  next
    case (6 g w1 e w2)
    with err [of "n - length g" w1 e w2] show ?case by auto
  qed auto
qed

lemma RecvAll_opened:
  assumes laws: "fd_laws os opened" and ret: "RecvAll os fd n w = Some (r, w')"
  shows "opened w' = opened w"
  using ret unfolding RecvAll_def
  by (rule recv_until_rule [where Q = "\<lambda>_ w'. opened w' = opened w" and I = "\<lambda>_ w'. opened w' = opened w"])
    (auto dest: fd_laws_results(8) [OF laws])

lemma recv_until_returns:
  assumes "signal_laws os patience"
  shows "\<exists>r w'. recv_until os fd n got w = Some (r, w')"
proof (induction "n - length got + patience w" arbitrary: got w rule: less_induct)
  case less
  show ?case
  proof (cases "length got < n")
    case False
    then show ?thesis by (simp add: recv_until.simps [of os fd n got])
  next
    case True
    obtain x w1 where recv: "sys_recv os fd (n - length got) w = (x, w1)" by fastforce
    have tires: "tires patience w (x, w1)"
      using assms recv unfolding signal_laws_def by metis
    show ?thesis
    proof (cases x)
      case (Inl e)
      with tires have "e = EINTR \<longrightarrow> (\<exists>r w'. recv_until os fd n got w1 = Some (r, w'))"
        by (auto intro: less)
      with Inl True recv show ?thesis
        by (cases "e = EINTR") (simp_all add: recv_until.simps [of os fd n got w])
    next
      case (Inr d)
      with tires True have "d \<noteq> [] \<longrightarrow> (\<exists>r w'. recv_until os fd n (got @ d) w1 = Some (r, w'))"
        by (intro impI less) (cases d; auto)
      with Inr True recv show ?thesis
        by (cases "d = []") (simp_all add: recv_until.simps [of os fd n got w])
    qed
  qed
qed

section \<open>Frames\<close>

lemma ReceiveFrame_cases:
  assumes "ReceiveFrame os fd w = Some (r, w')"
  obtains (prefix) err where "RecvAll os fd 4 w = Some (Err err, w')" "r = Err err"
  | (bad) pre where "RecvAll os fd 4 w = Some (Ok pre, w')" "bad_prefix (un_be32 pre)"
      "r = Err (rpc_error kInvalidPacket ''response frame length is invalid'')"
  | (body) pre w1 err where "RecvAll os fd 4 w = Some (Ok pre, w1)" "\<not> bad_prefix (un_be32 pre)"
      "RecvAll os fd (unat (un_be32 pre)) w1 = Some (Err err, w')" "r = Err err"
  | (frame) pre w1 body where "RecvAll os fd 4 w = Some (Ok pre, w1)" "\<not> bad_prefix (un_be32 pre)"
      "RecvAll os fd (unat (un_be32 pre)) w1 = Some (Ok body, w')" "r = Ok (pre @ body)"
proof (cases "RecvAll os fd 4 w")
  case None
  with assms show ?thesis by (simp add: ReceiveFrame_def receive_frame_with_def)
next
  case (Some x)
  obtain y w1 where x: "x = (y, w1)" by fastforce
  show ?thesis
  proof (cases y)
    case (Inl err)
    with assms Some x have "r = Err err" "w' = w1" by (simp_all add: ReceiveFrame_def receive_frame_with_def)
    with Some x Inl show ?thesis by (intro prefix) simp_all
  next
    case (Inr pre)
    note first = Some [unfolded x Inr]
    show ?thesis
    proof (cases "bad_prefix (un_be32 pre)")
      case True
      with assms first have "r = Err (rpc_error kInvalidPacket ''response frame length is invalid'')" "w' = w1"
        by (simp_all add: ReceiveFrame_def receive_frame_with_def Let_def bad_prefix_def)
      with first True show ?thesis by (intro bad) simp_all
    next
      case False
      with assms first have ret: "(case RecvAll os fd (unat (un_be32 pre)) w1 of
          None \<Rightarrow> None | Some (Err err, w2) \<Rightarrow> Some (Err err, w2)
        | Some (Ok body, w2) \<Rightarrow> Some (Ok (pre @ body), w2)) = Some (r, w')"
        by (simp add: ReceiveFrame_def receive_frame_with_def Let_def bad_prefix_def)
      then obtain z where z: "RecvAll os fd (unat (un_be32 pre)) w1 = Some (z, w')"
        by (auto split: option.splits sum.splits)
      show ?thesis
      proof (cases z)
        case (Inl err)
        with ret z have "r = Err err" by simp
        with first False z Inl show ?thesis by (intro body) simp_all
      next
        case (Inr rest)
        with ret z have "r = Ok (pre @ rest)" by simp
        with first False z Inr show ?thesis by (intro frame) simp_all
      qed
    qed
  qed
qed

lemma ReceiveFrame_opened:
  assumes "fd_laws os opened" and "ReceiveFrame os fd w = Some (r, w')"
  shows "opened w' = opened w"
  using assms(2) by (cases rule: ReceiveFrame_cases) (auto dest: RecvAll_opened [OF assms(1)])

lemma ReceiveFrame_returns:
  assumes "signal_laws os patience"
  shows "\<exists>r w'. ReceiveFrame os fd w = Some (r, w')"
proof -
  have "\<exists>r w'. RecvAll os fd n w = Some (r, w')" for n w
    unfolding RecvAll_def by (rule recv_until_returns [OF assms])
  then have some: "RecvAll os fd n w \<noteq> None" for n w by (metis option.distinct(1))
  have "ReceiveFrame os fd w \<noteq> None"
    unfolding ReceiveFrame_def receive_frame_with_def Let_def
    using some [of 4 w] some
    by (simp add: not_None_eq [symmetric] del: not_None_eq split: option.split sum.split if_split)
  then show ?thesis by auto
qed

text \<open>
  The frame that is returned is the first frame of the stream as \<open>cut_frames\<close> cuts it, and
  exactly its bytes were consumed; an invalid-packet error is reported only when the
  specification rejects the stream.
\<close>

lemma ReceiveFrame_Ok:
  assumes laws: "recv_laws os inbox" and ret: "ReceiveFrame os fd w = Some (Ok f, w')"
  shows "acceptable_frame f" and "inbox w = (inbox w')(fd := f @ inbox w' fd)"
    and "cut_frames (inbox w fd) =
      (let (fs, r, good) = cut_frames (inbox w' fd) in (f # fs, r, good))"
proof -
  obtain pre w1 body where parts: "RecvAll os fd 4 w = Some (Ok pre, w1)"
      "\<not> bad_prefix (un_be32 pre)" "RecvAll os fd (unat (un_be32 pre)) w1 = Some (Ok body, w')"
      "f = pre @ body"
    by (rule ReceiveFrame_cases [OF ret]) (simp | rule that, assumption+, simp)+
  have pre: "length pre = 4" "inbox w = (inbox w1)(fd := pre @ inbox w1 fd)"
    using RecvAll_inbox [OF laws parts(1)] by simp_all
  have body: "length body = unat (un_be32 pre)" "inbox w1 = (inbox w')(fd := body @ inbox w' fd)"
    using RecvAll_inbox [OF laws parts(3)] by simp_all
  show inbox: "inbox w = (inbox w')(fd := f @ inbox w' fd)"
    unfolding pre(2) body(2) parts(4) by simp
  show acc: "acceptable_frame f"
    using pre(1) body(1) parts(2,4) by (simp add: acceptable_frame_def well_framed_def bad_prefix_nat)
  obtain fs r good where cut: "cut_frames (inbox w' fd) = (fs, r, good)"
    by (cases "cut_frames (inbox w' fd)") auto
  have "cut_frames (f @ inbox w' fd) = (f # fs, r, good)"
  proof -
    have f: "length f = 4 + unat (un_be32 pre)" "take 4 f = pre"
      using pre(1) body(1) parts(4) by simp_all
    have "cut_frames (f @ inbox w' fd) = (take (4 + unat (un_be32 pre)) (f @ inbox w' fd) # fs, r, good)"
      by (rule cut_frames_step) (simp_all only: f length_append take_append drop_append parts(2) cut
          diff_self_eq_0 take_0 drop_0 append_Nil2 append_Nil drop_all le_refl le_add1 trans_le_add1 diff_add_0 diff_add_inverse
          diff_diff_left not_False_eq_True)
    then show ?thesis using f(1) by simp
  qed
  with cut inbox show "cut_frames (inbox w fd) = (let (fs, r, good) = cut_frames (inbox w' fd) in (f # fs, r, good))"
    by simp
qed

lemma ReceiveFrame_Err:
  assumes laws: "recv_laws os inbox" and ret: "ReceiveFrame os fd w = Some (Err err, w')"
  shows "err_code err = kNetworkError \<or>
    err_code err = kInvalidPacket \<and> cut_frames (inbox w fd) = ([], inbox w fd, False)"
  using ret
proof (cases rule: ReceiveFrame_cases)
  case (bad pre)
  with RecvAll_inbox [OF laws bad(1)] show ?thesis
    by (auto intro!: cut_frames_bad)
qed (use RecvAll_inbox [OF laws] in fastforce)+

end
