(* ===== verification/ClientPool.thy ===== *)
theory ClientPool
  imports ClientIO
begin

text \<open>
  The idle connection pool and the round trip of the client: the pool keeps the contract of
  \<open>BoundedPool\<close>, no descriptor is ever in the pool twice or after it was closed, a round trip
  leaks no descriptor on any path, and it always returns.
\<close>

section \<open>The idle pool\<close>

lemma idle_of_put [simp]: "idle_of (umap_put k b p) = (idle_of p)(k := b)"
  by (auto simp: idle_of_def fun_eq_iff)

lemma idle_of_erase [simp]: "idle_of (umap_erase k p) = (idle_of p)(k := [])"
  by (auto simp: idle_of_def fun_eq_iff)

interpretation idle: bounded_pool idle_of "\<lambda>_. kMaxIdlePerEndpoint" pop_idle push_idle
proof (unfold_locales, goal_cases)
  case (1 p k)
  then show ?case by (auto simp: pop_idle_def idle_of_def split: option.splits)
next
  case (2 p k)
  then show ?case by (auto simp: pop_idle_def idle_of_def split: option.splits)
next
  case (3 p k)
  then show ?case by (auto simp: pop_idle_def idle_of_def split: option.splits)
next
  case (4 p k)
  then obtain b where "umap_find p k = Some b" "b \<noteq> []" "idle_of p k = b"
    by (auto simp: idle_of_def split: option.splits)
  then show ?case by (simp add: pop_idle_def)
next
  case (5 k p)
  show ?case ..
next
  case (6 k v p)
  show ?case by (simp add: push_idle_def Let_def)
next
  case (7 k v p)
  show ?case by (simp add: push_idle_def Let_def)
next
  case (8 k v p)
  show ?case ..
qed

text \<open>The descriptors in the pool, and the open descriptors that are not.\<close>

definition pooled :: "(string, int list) umap \<Rightarrow> int set" where
  "pooled p = (\<Union>k. set (idle_of p k))"

definition client_inv :: "('w \<Rightarrow> int set) \<Rightarrow> 'w client \<Rightarrow> bool" where
  "client_inv opened c \<longleftrightarrow>
     idle.within_limit (idle_pool c) \<and>
     (\<forall>k. distinct (idle_of (idle_pool c) k)) \<and>
     (\<forall>j k fd. fd \<in> set (idle_of (idle_pool c) j) \<longrightarrow> fd \<in> set (idle_of (idle_pool c) k) \<longrightarrow> j = k) \<and>
     (\<forall>fd \<in> pooled (idle_pool c). 0 \<le> fd \<and> fd \<in> opened (cworld c))"

definition outside_pool :: "('w \<Rightarrow> int set) \<Rightarrow> 'w client \<Rightarrow> int set" where
  "outside_pool opened c = opened (cworld c) - pooled (idle_pool c)"

lemma client_inv_world:
  "client_inv opened c \<Longrightarrow> opened w = opened (cworld c) \<Longrightarrow> client_inv opened (c\<lparr>cworld := w\<rparr>)"
  by (simp add: client_inv_def)

lemma client_inv_close:
  "client_inv opened c \<Longrightarrow> fd \<notin> pooled (idle_pool c) \<Longrightarrow> opened w = opened (cworld c) - {fd} \<Longrightarrow>
   client_inv opened (c\<lparr>cworld := w\<rparr>)"
  by (auto simp: client_inv_def)

lemma client_inv_pop:
  assumes inv: "client_inv opened c" and pop: "pop_idle k (idle_pool c) = (Some fd, p1)"
  shows "client_inv opened (c\<lparr>idle_pool := p1\<rparr>)" and "pooled p1 = pooled (idle_pool c) - {fd}"
    and "fd \<in> pooled (idle_pool c)"
proof -
  let ?b = "idle_of (idle_pool c) k"
  have ne: "?b \<noteq> []"
    using idle.take_empty [of "idle_pool c" k] pop by auto
  from idle.take_last [OF ne] idle.take_last_bucket [OF ne] pop
  have fd: "fd = last ?b" and p1: "idle_of p1 = (idle_of (idle_pool c))(k := butlast ?b)"
    by simp_all
  have split: "?b = butlast ?b @ [fd]" using ne fd by simp
  have dist: "distinct ?b" using inv by (simp add: client_inv_def)
  have last: "set ?b = insert fd (set (butlast ?b))" "fd \<notin> set (butlast ?b)"
    using split dist by (metis distinct_append list.simps(15) set_append Un_insert_right sup_bot.right_neutral list.set(1))
      (metis split dist disjoint_iff distinct_append list.set_intros(1))
  show "fd \<in> pooled (idle_pool c)"
    using last(1) by (auto simp: pooled_def)
  have other: "fd \<notin> set (idle_of (idle_pool c) j)" if "j \<noteq> k" for j
    using inv that last(1) unfolding client_inv_def by blast
  show p1_pooled: "pooled p1 = pooled (idle_pool c) - {fd}"
  proof -
    have "x \<in> set (idle_of p1 j) \<longleftrightarrow> x \<in> set (idle_of (idle_pool c) j) \<and> x \<noteq> fd" for x j
      using last other [of j] by (cases "j = k") (auto simp: p1)
    then show ?thesis by (auto simp: pooled_def)
  qed
  show "client_inv opened (c\<lparr>idle_pool := p1\<rparr>)"
    using inv idle.within_limit_take [of "idle_pool c" k] pop p1_pooled
    unfolding client_inv_def
    by (auto simp: p1 distinct_butlast dest: in_set_butlastD split: if_splits)
qed

lemma client_inv_push:
  assumes inv: "client_inv opened c" and fd: "fd \<notin> pooled (idle_pool c)" "0 \<le> fd" "fd \<in> opened (cworld c)"
    and push: "push_idle k fd (idle_pool c) = (True, p1)"
  shows "client_inv opened (c\<lparr>idle_pool := p1\<rparr>)" and "pooled p1 = insert fd (pooled (idle_pool c))"
proof -
  from idle.give_room [of k fd "idle_pool c"] push
  have "length (idle_of (idle_pool c) k) < kMaxIdlePerEndpoint" by simp
  with idle.give_bucket [of k fd "idle_pool c"] push
  have p1: "idle_of p1 = (idle_of (idle_pool c))(k := idle_of (idle_pool c) k @ [fd])" by simp
  show pooled: "pooled p1 = insert fd (pooled (idle_pool c))"
    unfolding pooled_def p1 by (auto split: if_splits)
  have new: "fd \<notin> set (idle_of (idle_pool c) j)" for j
    using fd(1) by (auto simp: pooled_def)
  show "client_inv opened (c\<lparr>idle_pool := p1\<rparr>)"
    using inv fd(2,3) idle.within_limit_give [of "idle_pool c" k fd] push pooled new
    unfolding client_inv_def by (auto simp: p1 split: if_splits)
qed

lemma client_inv_push_full:
  assumes push: "push_idle k fd p = (False, p1)"
  shows "idle_of p1 = idle_of p"
  using idle.give_room [of k fd p] idle.give_bucket [of k fd p] push by simp

section \<open>Connecting\<close>

lemma ConfigureSocket_opened:
  "fd_laws os opened \<Longrightarrow> ConfigureSocket os fd opts w = (r, w') \<Longrightarrow> opened w' = opened w"
  by (auto simp: ConfigureSocket_def fd_laws_results split: prod.splits sum.splits)

lemma SetSocketBlockingMode_opened:
  "fd_laws os opened \<Longrightarrow> SetSocketBlockingMode os fd b w = (r, w') \<Longrightarrow> opened w' = opened w"
  by (auto simp: SetSocketBlockingMode_def fd_laws_results split: prod.splits sum.splits)

text \<open>
  Connecting creates one descriptor on success and none on failure; every error is a
  network error.
\<close>

lemma ConnectTo_opened:
  assumes laws: "fd_laws os opened" and ret: "ConnectTo os endpoint opts w = (r, w')"
  shows "creates_fd opened w (map_sum (\<lambda>_. EAGAIN) id r, w')"
    and "r = Err err \<Longrightarrow> err_code err = kNetworkError"
proof -
  obtain x w1 where sock: "sys_socket os w = (x, w1)" by fastforce
  note creates = fd_laws_socket [OF laws, of w, unfolded sock]
  have "creates_fd opened w (map_sum (\<lambda>_. EAGAIN) id r, w') \<and> (\<forall>err. r = Err err \<longrightarrow> err_code err = kNetworkError)"
  proof (cases x)
    case (Inl e)
    with ret sock creates show ?thesis by (auto simp: ConnectTo_def)
  next
    case (Inr fd)
    with creates have fd: "0 \<le> fd" "fd \<notin> opened w" and w1: "opened w1 = insert fd (opened w)" by auto
    obtain y w2 where conf: "ConfigureSocket os fd opts w1 = (y, w2)" by fastforce
    have w2: "opened w2 = insert fd (opened w)" using ConfigureSocket_opened [OF laws conf] w1 by simp
    have y: "err_code err = kNetworkError" if "y = Err err" for err
      using conf that by (auto simp: ConfigureSocket_def split: prod.splits sum.splits)
    have closed: "opened (sys_close os fd v) = opened w" if "opened v = insert fd (opened w)" for v
      using that fd(2) by (simp add: fd_laws_keep [OF laws])
    show ?thesis
    proof (cases "sys_inet_pton os (ep_host endpoint)")
      case None
      with ret sock Inr w1 closed [of w1] show ?thesis by (auto simp: ConnectTo_def)
    next
      case (Some addr)
      obtain z w3 where con: "sys_connect os fd addr (ep_port endpoint) w2 = (z, w3)" by fastforce
      have w3: "opened w3 = insert fd (opened w)" using fd_laws_results(6) [OF laws con] w2 by simp
      show ?thesis
      proof (cases y)
        case (Inl err)
        with ret sock Inr Some conf closed [OF w2] y show ?thesis by (auto simp: ConnectTo_def)
      next
        case (Inr u)
        with ret sock \<open>x = Inr fd\<close> Some conf con closed [OF w3] w3 fd show ?thesis
          by (cases z) (auto simp: ConnectTo_def)
      qed
    qed
  qed
  then show "creates_fd opened w (map_sum (\<lambda>_. EAGAIN) id r, w')"
    and "r = Err err \<Longrightarrow> err_code err = kNetworkError" by blast+
qed

section \<open>Borrowing and returning\<close>

lemma CloseSocket_opened:
  "fd_laws os opened \<Longrightarrow> 0 \<le> fd \<Longrightarrow> opened (CloseSocket os fd w) = opened w - {fd}"
  by (simp add: CloseSocket_def fd_laws_keep)

text \<open>
  The state while a connection is out of the pool: it is open and in no bucket, and nothing
  else changed hands.
\<close>

definition borrowed :: "('w \<Rightarrow> int set) \<Rightarrow> int \<Rightarrow> 'w client \<Rightarrow> 'w client \<Rightarrow> bool" where
  "borrowed opened fd c c' \<longleftrightarrow>
     client_inv opened c' \<and> 0 \<le> fd \<and> fd \<notin> pooled (idle_pool c') \<and>
     fd \<notin> outside_pool opened c \<and> outside_pool opened c' = insert fd (outside_pool opened c)"

text \<open>
  What connecting promises: a new descriptor, or a network error and none. Borrowing is the same
  for the blocking and the coroutine version but for the way they connect and the mode they set.
\<close>

definition connects :: "('w \<Rightarrow> int set) \<Rightarrow> ('w \<Rightarrow> (RpcError + int) \<times> 'w) \<Rightarrow> bool" where
  "connects opened connect \<longleftrightarrow> (\<forall>w r w'. connect w = (r, w') \<longrightarrow>
     creates_fd opened w (map_sum (\<lambda>_. EAGAIN) id r, w') \<and> (\<forall>err. r = Err err \<longrightarrow> err_code err = kNetworkError))"

lemma ConnectTo_connects: "fd_laws os opened \<Longrightarrow> connects opened (ConnectTo os endpoint opts)"
  unfolding connects_def using ConnectTo_opened by fast

definition connect_with :: "('w \<Rightarrow> (RpcError + int) \<times> 'w) \<Rightarrow> 'w client \<Rightarrow> (RpcError + int) \<times> 'w client" where
  "connect_with connect c = (case connect (cworld c) of (r, w) \<Rightarrow> (r, c\<lparr>cworld := w\<rparr>))"

definition borrow_with ::
  "'w sys \<Rightarrow> ('w \<Rightarrow> (RpcError + int) \<times> 'w) \<Rightarrow> bool \<Rightarrow> string \<Rightarrow> CallOptions \<Rightarrow> 'w client \<Rightarrow> (RpcError + int) \<times> 'w client" where
  "borrow_with os connect blocking key options c =
     (case pop_idle key (idle_pool c) of
        (None, _) \<Rightarrow> connect_with connect c
      | (Some fd, p1) \<Rightarrow>
          (case SetSocketBlockingMode os fd blocking (cworld c) of (switched, w1) \<Rightarrow>
             if \<not> switched then connect_with connect (c\<lparr>idle_pool := p1, cworld := CloseSocket os fd w1\<rparr>)
             else (case ConfigureSocket os fd options w1 of
                     (Ok _, w2) \<Rightarrow> (Ok fd, c\<lparr>idle_pool := p1, cworld := w2\<rparr>)
                   | (Err _, w2) \<Rightarrow> connect_with connect (c\<lparr>idle_pool := p1, cworld := CloseSocket os fd w2\<rparr>))))"

lemma BorrowConnection_with:
  "BorrowConnection os endpoint options = borrow_with os (ConnectTo os endpoint options) True (EndpointKey endpoint) options"
  by (intro ext) (unfold BorrowConnection_def borrow_with_def connect_with_def Let_def, rule refl)

lemma BorrowConnectionAsync_with:
  "BorrowConnectionAsync os await endpoint options =
     borrow_with os (ConnectToAsync os await endpoint options) False (EndpointKey endpoint) options"
  by (intro ext) (unfold BorrowConnectionAsync_def borrow_with_def connect_with_def Let_def, rule refl)

fun borrow_result :: "('w \<Rightarrow> int set) \<Rightarrow> 'w client \<Rightarrow> (RpcError + int) \<times> 'w client \<Rightarrow> bool" where
  "borrow_result opened c (Ok fd, c') \<longleftrightarrow> borrowed opened fd c c'"
| "borrow_result opened c (Err err, c') \<longleftrightarrow>
     err_code err = kNetworkError \<and> client_inv opened c' \<and> outside_pool opened c' = outside_pool opened c"

lemma connect_borrowed:
  assumes con: "connects opened connect" and inv: "client_inv opened c"
  shows "borrow_result opened c (connect_with connect c)"
proof -
  obtain r w where ret: "connect (cworld c) = (r, w)" by fastforce
  with con have creates: "creates_fd opened (cworld c) (map_sum (\<lambda>_. EAGAIN) id r, w)"
    and err: "r = Err err \<Longrightarrow> err_code err = kNetworkError" for err by (auto simp: connects_def)
  show ?thesis
  proof (cases r)
    case (Inl err)
    with creates err ret show ?thesis
      by (simp add: connect_with_def client_inv_world [OF inv] outside_pool_def)
  next
    case (Inr fd)
    with creates have fd: "0 \<le> fd" "fd \<notin> opened (cworld c)" and w: "opened w = insert fd (opened (cworld c))" by simp_all
    have "fd \<notin> pooled (idle_pool c)" using inv fd(2) by (auto simp: client_inv_def)
    moreover have "client_inv opened (c\<lparr>cworld := w\<rparr>)" using inv w by (auto simp: client_inv_def)
    ultimately show ?thesis
      using Inr ret fd w by (auto simp: connect_with_def borrowed_def outside_pool_def)
  qed
qed

lemma dropped_idle:
  assumes laws: "fd_laws os opened" and inv: "client_inv opened c"
    and pop: "pop_idle k (idle_pool c) = (Some fd, p1)" and w: "opened w = opened (cworld c)"
  shows "client_inv opened (c\<lparr>idle_pool := p1, cworld := CloseSocket os fd w\<rparr>)"
    and "outside_pool opened (c\<lparr>idle_pool := p1, cworld := CloseSocket os fd w\<rparr>) = outside_pool opened c"
    and "borrowed opened fd c (c\<lparr>idle_pool := p1, cworld := w\<rparr>)"
proof -
  note popped = client_inv_pop [OF inv pop]
  have fd: "0 \<le> fd" "fd \<in> opened (cworld c)"
    using inv popped(3) by (auto simp: client_inv_def)
  note closed = CloseSocket_opened [OF laws fd(1), of w]
  show "client_inv opened (c\<lparr>idle_pool := p1, cworld := CloseSocket os fd w\<rparr>)"
    using client_inv_close [OF popped(1), of fd "CloseSocket os fd w"] popped(2) closed w by simp
  show "outside_pool opened (c\<lparr>idle_pool := p1, cworld := CloseSocket os fd w\<rparr>) = outside_pool opened c"
    using popped(2,3) closed w by (auto simp: outside_pool_def)
  show "borrowed opened fd c (c\<lparr>idle_pool := p1, cworld := w\<rparr>)"
    using client_inv_world [OF popped(1), of w] popped(2,3) fd w by (auto simp: borrowed_def outside_pool_def)
qed

lemma borrow_with_borrowed:
  assumes laws: "fd_laws os opened" and con: "connects opened connect" and inv: "client_inv opened c"
  shows "borrow_result opened c (borrow_with os connect blocking key opts c)"
proof -
  have connect: "borrow_result opened c (connect_with connect d)"
    if "client_inv opened d" "outside_pool opened d = outside_pool opened c" for d
    using connect_borrowed [OF con that(1)] that(2)
    by (cases "(opened, c, connect_with connect d)" rule: borrow_result.cases) (auto simp: borrowed_def)
  obtain o1 p1 where pop: "pop_idle key (idle_pool c) = (o1, p1)" by fastforce
  show ?thesis
  proof (cases o1)
    case None
    with pop connect [OF inv] show ?thesis by (simp add: borrow_with_def)
  next
    case (Some fd)
    obtain b w1 where mode: "SetSocketBlockingMode os fd blocking (cworld c) = (b, w1)" by fastforce
    obtain y w2 where conf: "ConfigureSocket os fd opts w1 = (y, w2)" by fastforce
    have w1: "opened w1 = opened (cworld c)" by (rule SetSocketBlockingMode_opened [OF laws mode])
    have w2: "opened w2 = opened (cworld c)" using ConfigureSocket_opened [OF laws conf] w1 by simp
    note d1 = dropped_idle [OF laws inv pop [unfolded Some] w1]
      and d2 = dropped_idle [OF laws inv pop [unfolded Some] w2]
    note step = borrow_with_def pop Some mode conf
    show ?thesis
    proof (cases b)
      case False
      then show ?thesis using connect [OF d1(1,2)] by (simp add: step)
    next
      case True
      then show ?thesis using connect [OF d2(1,2)] d2(3) by (cases y) (simp_all add: step)
    qed
  qed
qed

lemma BorrowConnection_borrowed:
  assumes "fd_laws os opened" and "client_inv opened c" and "BorrowConnection os endpoint opts c = (r, c')"
  shows "case r of
      Ok fd \<Rightarrow> borrowed opened fd c c'
    | Err err \<Rightarrow> err_code err = kNetworkError \<and> client_inv opened c' \<and>
        outside_pool opened c' = outside_pool opened c"
proof -
  have "borrow_result opened c (r, c')"
    using borrow_with_borrowed [OF assms(1) ConnectTo_connects [OF assms(1)] assms(2)] assms(3)
    unfolding BorrowConnection_with by metis
  then show ?thesis by (cases r) simp_all
qed

lemma borrowed_world:
  "borrowed opened fd c c' \<Longrightarrow> opened w = opened (cworld c') \<Longrightarrow> borrowed opened fd c (c'\<lparr>cworld := w\<rparr>)"
  by (simp add: borrowed_def client_inv_world outside_pool_def)

lemma borrowed_close:
  assumes laws: "fd_laws os opened" and b: "borrowed opened fd c c'"
  shows "client_inv opened (c'\<lparr>cworld := CloseSocket os fd (cworld c')\<rparr>)"
    and "outside_pool opened (c'\<lparr>cworld := CloseSocket os fd (cworld c')\<rparr>) = outside_pool opened c"
proof -
  have fd: "0 \<le> fd" using b by (simp add: borrowed_def)
  note closed = CloseSocket_opened [OF laws fd, of "cworld c'"]
  show "client_inv opened (c'\<lparr>cworld := CloseSocket os fd (cworld c')\<rparr>)"
    using b client_inv_close [of opened c' fd] closed by (simp add: borrowed_def)
  show "outside_pool opened (c'\<lparr>cworld := CloseSocket os fd (cworld c')\<rparr>) = outside_pool opened c"
    using b closed by (auto simp: borrowed_def outside_pool_def)
qed

lemma ReturnConnection_returned:
  assumes laws: "fd_laws os opened" and b: "borrowed opened fd c c'"
  shows "client_inv opened (ReturnConnection os endpoint fd c')"
    and "outside_pool opened (ReturnConnection os endpoint fd c') = outside_pool opened c"
proof -
  obtain kept p1 where push: "push_idle (EndpointKey endpoint) fd (idle_pool c') = (kept, p1)" by fastforce
  from b have fd: "fd \<notin> pooled (idle_pool c')" "0 \<le> fd" "fd \<in> opened (cworld c')" and inv: "client_inv opened c'"
    by (auto simp: borrowed_def outside_pool_def)
  have "client_inv opened (ReturnConnection os endpoint fd c') \<and>
      outside_pool opened (ReturnConnection os endpoint fd c') = outside_pool opened c"
  proof (cases kept)
    case True
    with push have kept: "push_idle (EndpointKey endpoint) fd (idle_pool c') = (True, p1)" by simp
    with client_inv_push [OF inv fd kept] b show ?thesis
      by (auto simp: ReturnConnection_def borrowed_def outside_pool_def)
  next
    case False
    have same: "idle_of p1 = idle_of (idle_pool c')"
      by (rule client_inv_push_full) (use push False in simp)
    have "client_inv opened (c'\<lparr>idle_pool := p1, cworld := w\<rparr>) = client_inv opened (c'\<lparr>cworld := w\<rparr>)"
      "outside_pool opened (c'\<lparr>idle_pool := p1, cworld := w\<rparr>) = outside_pool opened (c'\<lparr>cworld := w\<rparr>)" for w
      by (simp_all add: client_inv_def outside_pool_def pooled_def idle.within_limit_def same)
    with borrowed_close [OF laws b] push False show ?thesis
      by (simp add: ReturnConnection_def)
  qed
  then show "client_inv opened (ReturnConnection os endpoint fd c')"
    and "outside_pool opened (ReturnConnection os endpoint fd c') = outside_pool opened c" by simp_all
qed

section \<open>The round trip\<close>

lemma RoundTrip_cases:
  assumes "RoundTrip os endpoint frame opts c = Some (r, c')"
  obtains (connect) err where "BorrowConnection os endpoint opts c = (Err err, c')" "r = Err err"
  | (send) fd c1 err w where "BorrowConnection os endpoint opts c = (Ok fd, c1)"
      "SendAll os fd frame (cworld c1) = Some (Err err, w)" "r = Err err"
      "c' = c1\<lparr>cworld := CloseSocket os fd w\<rparr>"
  | (recv) fd c1 w err w2 where "BorrowConnection os endpoint opts c = (Ok fd, c1)"
      "SendAll os fd frame (cworld c1) = Some (Ok (), w)" "ReceiveFrame os fd w = Some (Err err, w2)"
      "r = Err err" "c' = c1\<lparr>cworld := CloseSocket os fd w2\<rparr>"
  | (done_) fd c1 w f w2 where "BorrowConnection os endpoint opts c = (Ok fd, c1)"
      "SendAll os fd frame (cworld c1) = Some (Ok (), w)" "ReceiveFrame os fd w = Some (Ok f, w2)"
      "r = Ok f" "c' = ReturnConnection os endpoint fd (c1\<lparr>cworld := w2\<rparr>)"
proof -
  obtain b c1 where borrow: "BorrowConnection os endpoint opts c = (b, c1)" by fastforce
  show ?thesis
  proof (cases b)
    case (Inl err)
    with assms borrow have "r = Err err" "c1 = c'" by (simp_all add: RoundTrip_def)
    with borrow Inl show ?thesis by (intro connect) simp_all
  next
    case (Inr fd)
    note eq = assms [unfolded RoundTrip_def borrow Inr prod.case sum.case]
    show ?thesis
    proof (cases "SendAll os fd frame (cworld c1)")
      case None
      with eq show ?thesis by simp
    next
      case (Some x)
      obtain y w where x: "x = (y, w)" by fastforce
      show ?thesis
      proof (cases y)
        case (Inl err)
        with eq Some x borrow \<open>b = Inr fd\<close> show ?thesis by (intro send) auto
      next
        case (Inr u)
        note sent = Some [unfolded x Inr]
        from eq sent obtain z where rf: "ReceiveFrame os fd w = Some z" by (cases "ReceiveFrame os fd w") auto
        obtain v w2 where z: "z = (v, w2)" by fastforce
        show ?thesis
        proof (cases v)
          case (Inl err)
          with eq sent rf z borrow \<open>b = Inr fd\<close> show ?thesis by (intro recv) auto
        next
          case (Inr f)
          with eq sent rf z borrow \<open>b = Inr fd\<close> show ?thesis by (intro done_) auto
        qed
      qed
    qed
  qed
qed

lemma RoundTrip_keeps_descriptors:
  assumes laws: "fd_laws os opened" and inv: "client_inv opened c"
    and ret: "RoundTrip os endpoint frame opts c = Some (r, c')"
  shows "client_inv opened c' \<and> outside_pool opened c' = outside_pool opened c"
  using ret
proof (cases rule: RoundTrip_cases)
  case (connect err)
  with BorrowConnection_borrowed [OF laws inv connect(1)] show ?thesis by simp
next
  case (send fd c1 err w)
  have "borrowed opened fd c (c1\<lparr>cworld := w\<rparr>)"
    using BorrowConnection_borrowed [OF laws inv send(1)] SendAll_opened [OF laws send(2)] by (simp add: borrowed_world)
  from borrowed_close [OF laws this] send(4) show ?thesis by simp
next
  case (recv fd c1 w err w2)
  have "borrowed opened fd c (c1\<lparr>cworld := w2\<rparr>)"
    using BorrowConnection_borrowed [OF laws inv recv(1)] SendAll_opened [OF laws recv(2)]
      ReceiveFrame_opened [OF laws recv(3)] by (simp add: borrowed_world)
  from borrowed_close [OF laws this] recv(5) show ?thesis by simp
next
  case (done_ fd c1 w f w2)
  have "borrowed opened fd c (c1\<lparr>cworld := w2\<rparr>)"
    using BorrowConnection_borrowed [OF laws inv done_(1)] SendAll_opened [OF laws done_(2)]
      ReceiveFrame_opened [OF laws done_(3)] by (simp add: borrowed_world)
  from ReturnConnection_returned [OF laws this, of endpoint] done_(5) show ?thesis by simp
qed

lemma RoundTrip_returns:
  assumes "signal_laws os patience"
  shows "\<exists>r c'. RoundTrip os endpoint frame opts c = Some (r, c')"
proof -
  have send: "SendAll os fd frame w \<noteq> None" for fd w
    using send_from_returns [OF assms, of fd frame 0 w] by (auto simp: SendAll_def)
  have recv: "ReceiveFrame os fd w \<noteq> None" for fd w
    using ReceiveFrame_returns [OF assms, of fd w] by auto
  have "RoundTrip os endpoint frame opts c \<noteq> None"
    using send recv unfolding RoundTrip_def
    by (simp del: not_None_eq split: option.split sum.split prod.split)
  then show ?thesis by auto
qed

text \<open>What success and failure of a round trip mean for the two byte streams.\<close>

lemma RoundTrip_streams:
  assumes laws: "send_laws os wire" "recv_laws os inbox"
    and ret: "RoundTrip os endpoint frame opts c = Some (Ok resp, c')"
  shows "\<exists>fd c1 w w2. BorrowConnection os endpoint opts c = (Ok fd, c1) \<and>
      SendAll os fd frame (cworld c1) = Some (Ok (), w) \<and>
      wire w = (wire (cworld c1))(fd := wire (cworld c1) fd @ frame) \<and>
      ReceiveFrame os fd w = Some (Ok resp, w2) \<and>
      inbox w fd = resp @ inbox w2 fd \<and> acceptable_frame resp \<and>
      c' = ReturnConnection os endpoint fd (c1\<lparr>cworld := w2\<rparr>)"
  using ret
proof (cases rule: RoundTrip_cases)
  case (done_ fd c1 w f w2)
  with SendAll_wire [OF laws(1) done_(2)] ReceiveFrame_Ok(1,2) [OF laws(2) done_(3)] show ?thesis
    by (intro exI [of _ fd] exI [of _ c1] exI [of _ w] exI [of _ w2]) simp
qed simp_all

lemma RoundTrip_error_codes:
  assumes laws: "fd_laws os opened" "send_laws os wire" "recv_laws os inbox" and inv: "client_inv opened c"
    and ret: "RoundTrip os endpoint frame opts c = Some (Err err, c')"
  shows "err_code err = kNetworkError \<or> err_code err = kInvalidPacket"
  using ret
proof (cases rule: RoundTrip_cases)
  case (connect err)
  with BorrowConnection_borrowed [OF laws(1) inv connect(1)] show ?thesis by simp
next
  case (send fd c1 err w)
  with SendAll_wire [OF laws(2) send(2)] show ?thesis by simp
next
  case (recv fd c1 w err w2)
  with ReceiveFrame_Err [OF laws(3) recv(3)] show ?thesis by auto
qed simp_all

end
