(* ===== verification/MessagePool.thy ===== *)
theory MessagePool
  imports BoundedPool
begin

text \<open>
  The protobuf message pool, \<open>src/src/message_pool.cc\<close>. Protobuf is not part of the repository:
  the operations on messages that the pool uses are the record \<open>pb_ops\<close>, with the documented
  behaviour \<open>pb_ops_ok\<close> (\<open>Clear\<close> puts a message back into the state \<open>New\<close> creates it in). The
  record also holds serialising and parsing, for the layers above.
  A bucket is a list with its back at the end.
\<close>

record 'm pb_ops =
  pb_full_name :: "'m \<Rightarrow> string"
  pb_New :: "'m \<Rightarrow> 'm"
  pb_Clear :: "'m \<Rightarrow> 'm"
  pb_SerializeToString :: "'m \<Rightarrow> string option"
  pb_ParseFromArray :: "string \<Rightarrow> int \<Rightarrow> 'm \<Rightarrow> bool \<times> 'm"

definition pb_ops_ok :: "'m pb_ops \<Rightarrow> bool" where
  "pb_ops_ok pb \<longleftrightarrow>
     (\<forall>m. pb_full_name pb (pb_New pb m) = pb_full_name pb m) \<and>
     (\<forall>m. pb_full_name pb (pb_Clear pb m) = pb_full_name pb m) \<and>
     (\<forall>m p. pb_full_name pb m = pb_full_name pb p \<longrightarrow> pb_Clear pb m = pb_New pb p)"

record 'm MessagePool =
  bucket_limit :: nat
  buckets :: "(string, 'm list) umap"

record 'm PooledMessage =
  pm_pool :: bool
  pm_key :: string
  pm_message :: "'m option"

section \<open>Operations\<close>

definition MessagePool_new :: "nat \<Rightarrow> 'm MessagePool" where
  "MessagePool_new n = \<lparr>bucket_limit = n, buckets = []\<rparr>"

text \<open>\<open>buckets_[key]\<close>: the bucket of a key, empty when there is none yet.\<close>

definition bucket_of :: "'m MessagePool \<Rightarrow> string \<Rightarrow> 'm list" where
  "bucket_of p key = (case umap_find (buckets p) key of None \<Rightarrow> [] | Some b \<Rightarrow> b)"

text \<open>The critical section of \<open>Acquire\<close>.\<close>

definition pop_message :: "string \<Rightarrow> 'm MessagePool \<Rightarrow> 'm option \<times> 'm MessagePool" where
  "pop_message key p =
     (let bucket = bucket_of p key
      in if bucket \<noteq> []
         then (Some (last bucket), p\<lparr>buckets := umap_put key (butlast bucket) (buckets p)\<rparr>)
         else (None, p\<lparr>buckets := umap_put key bucket (buckets p)\<rparr>))"

definition Acquire :: "'m pb_ops \<Rightarrow> 'm \<Rightarrow> 'm MessagePool \<Rightarrow> 'm PooledMessage \<times> 'm MessagePool" where
  "Acquire pb prototype p =
     (let key = pb_full_name pb prototype;
          (popped, p1) = pop_message key p;
          message = (case popped of None \<Rightarrow> pb_New pb prototype | Some m \<Rightarrow> pb_Clear pb m)
      in (\<lparr>pm_pool = True, pm_key = key, pm_message = Some message\<rparr>, p1))"

text \<open>\<open>MessagePool::Release\<close>; the flag tells whether the message was kept.\<close>

definition push_message :: "string \<Rightarrow> 'm \<Rightarrow> 'm MessagePool \<Rightarrow> bool \<times> 'm MessagePool" where
  "push_message key message p =
     (let bucket = bucket_of p key
      in if bucket_limit p \<le> length bucket
         then (False, p\<lparr>buckets := umap_put key bucket (buckets p)\<rparr>)
         else (True, p\<lparr>buckets := umap_put key (bucket @ [message]) (buckets p)\<rparr>))"

definition PooledMessage_null :: "'m PooledMessage" where
  "PooledMessage_null = \<lparr>pm_pool = False, pm_key = [], pm_message = None\<rparr>"

text \<open>\<open>PooledMessage::Release\<close>, which the destructor calls too.\<close>

definition PooledMessage_Release ::
  "'m pb_ops \<Rightarrow> 'm PooledMessage \<Rightarrow> 'm MessagePool \<Rightarrow> 'm PooledMessage \<times> 'm MessagePool" where
  "PooledMessage_Release pb h p =
     (if \<not> pm_pool h then (h, p)
      else case pm_message h of
        None \<Rightarrow> (h, p)
      | Some m \<Rightarrow> (PooledMessage_null, snd (push_message (pm_key h) (pb_Clear pb m) p)))"

text \<open>Move construction: the new handle and what is left in the source.\<close>

definition PooledMessage_move :: "'m PooledMessage \<Rightarrow> 'm PooledMessage \<times> 'm PooledMessage" where
  "PooledMessage_move other = (other, PooledMessage_null)"

text \<open>Move assignment from a different handle: target, source and pool afterwards.\<close>

definition PooledMessage_assign ::
  "'m pb_ops \<Rightarrow> 'm PooledMessage \<Rightarrow> 'm PooledMessage \<Rightarrow> 'm MessagePool \<Rightarrow>
   'm PooledMessage \<times> 'm PooledMessage \<times> 'm MessagePool" where
  "PooledMessage_assign pb self other p =
     (let (_, p1) = PooledMessage_Release pb self p
      in (other, PooledMessage_null, p1))"

section \<open>The pool keeps its contract\<close>

lemma bucket_of_put [simp]:
  "bucket_of (p\<lparr>buckets := umap_put k b (buckets p)\<rparr>) = (bucket_of p)(k := b)"
  by (auto simp: bucket_of_def fun_eq_iff)

interpretation message_pool: bounded_pool bucket_of bucket_limit pop_message push_message
  by unfold_locales (auto simp: pop_message_def push_message_def Let_def)

text \<open>
  Every pooled message has the type of its bucket and is blank, and no bucket is over its
  limit.
\<close>

definition pool_inv :: "'m pb_ops \<Rightarrow> 'm MessagePool \<Rightarrow> bool" where
  "pool_inv pb p \<longleftrightarrow>
     (\<forall>k. length (bucket_of p k) \<le> bucket_limit p) \<and>
     (\<forall>k. \<forall>m \<in> set (bucket_of p k). pb_full_name pb m = k \<and> pb_Clear pb m = m)"

definition handle_inv :: "'m pb_ops \<Rightarrow> 'm PooledMessage \<Rightarrow> bool" where
  "handle_inv pb h \<longleftrightarrow>
     (case pm_message h of None \<Rightarrow> True | Some m \<Rightarrow> pb_full_name pb m = pm_key h)"

lemma Clear_idem: "pb_ops_ok pb \<Longrightarrow> pb_Clear pb (pb_Clear pb m) = pb_Clear pb m"
  unfolding pb_ops_ok_def by metis

lemma pool_inv_new: "pool_inv pb (MessagePool_new n)"
  by (simp add: pool_inv_def MessagePool_new_def bucket_of_def)

lemma pool_inv_pop:
  assumes "pool_inv pb p"
  shows "pool_inv pb (snd (pop_message k p))"
  using assms message_pool.within_limit_take [of p k]
  by (auto simp: pool_inv_def message_pool.within_limit_def pop_message_def Let_def dest: in_set_butlastD)

lemma pool_inv_push:
  assumes "pool_inv pb p" and "pb_full_name pb m = k" and "pb_Clear pb m = m"
  shows "pool_inv pb (snd (push_message k m p))"
  using assms message_pool.within_limit_give [of p k m]
  by (auto simp: pool_inv_def message_pool.within_limit_def push_message_def Let_def)

lemma pool_inv_Release:
  assumes "pb_ops_ok pb" and "pool_inv pb p" and "handle_inv pb h"
  shows "pool_inv pb (snd (PooledMessage_Release pb h p))"
  using assms
  by (auto simp: PooledMessage_Release_def handle_inv_def pb_ops_ok_def intro!: pool_inv_push
      Clear_idem split: option.splits)

text \<open>A handle obtained from the pool cannot be told from one created anew.\<close>

lemma Acquire_blank:
  assumes ok: "pb_ops_ok pb" and inv: "pool_inv pb p" and acq: "Acquire pb proto p = (h, p')"
  shows "pm_message h = Some (pb_New pb proto)" and "pm_key h = pb_full_name pb proto"
    and "handle_inv pb h" and "pool_inv pb p'"
proof -
  let ?k = "pb_full_name pb proto"
  obtain r p1 where pop: "pop_message ?k p = (r, p1)" by fastforce
  have h: "h = \<lparr>pm_pool = True, pm_key = ?k,
      pm_message = Some (case r of None \<Rightarrow> pb_New pb proto | Some m \<Rightarrow> pb_Clear pb m)\<rparr>" and p': "p' = p1"
    using acq pop by (auto simp: Acquire_def Let_def)
  have "pb_full_name pb m = ?k" if "r = Some m" for m
    using pop that inv by (auto simp: pop_message_def Let_def pool_inv_def split: if_splits)
  with ok have "(case r of None \<Rightarrow> pb_New pb proto | Some m \<Rightarrow> pb_Clear pb m) = pb_New pb proto"
    by (auto simp: pb_ops_ok_def split: option.splits)
  with h ok show "pm_message h = Some (pb_New pb proto)" "pm_key h = ?k" "handle_inv pb h"
    by (simp_all add: handle_inv_def pb_ops_ok_def)
  show "pool_inv pb p'"
    using pool_inv_pop [OF inv, of ?k] pop p' by simp
qed

text \<open>Releasing a handle twice returns its message once.\<close>

lemma Release_again:
  "PooledMessage_Release pb h p = (h', p') \<Longrightarrow> pm_message h \<noteq> None \<Longrightarrow> pm_pool h \<Longrightarrow>
   PooledMessage_Release pb h' p'' = (PooledMessage_null, p'')"
  by (auto simp: PooledMessage_Release_def PooledMessage_null_def)

text \<open>The next request of the same type reuses the message that was released.\<close>

lemma Acquire_reuses:
  assumes ok: "pb_ops_ok pb" and h: "handle_inv pb h" "pm_pool h" "pm_message h = Some m"
    and rel: "PooledMessage_Release pb h p = (h', p1)"
    and room: "length (bucket_of p (pm_key h)) < bucket_limit p"
    and proto: "pb_full_name pb proto = pm_key h"
    and acq: "Acquire pb proto p1 = (h2, p2)"
  shows "bucket_of p2 = bucket_of p"
proof -
  let ?k = "pm_key h" and ?m = "pb_Clear pb m"
  have p1: "p1 = snd (push_message ?k ?m p)"
    using rel h by (simp add: PooledMessage_Release_def)
  have "p2 = snd (pop_message ?k p1)"
    using acq proto by (simp add: Acquire_def Let_def split: prod.splits)
  with p1 message_pool.take_after_give(2) [of ?k ?m p] room show ?thesis
    by (simp add: message_pool.give_room)
qed

end
