(* ===== verification/Serializer.thy ===== *)
theory Serializer
  imports MessagePool Codec
begin

text \<open>
  The serializer, \<open>src/src/serializer.cc\<close>: protobuf serialisation behind an interface, with
  failures mapped to error codes. The context of a call is passed on and not used.
\<close>

record SerializationContext =
  ctx_service_name :: string
  ctx_method_name :: string

definition Serialize :: "'m pb_ops \<Rightarrow> 'm \<Rightarrow> SerializationContext \<Rightarrow> RpcError + string" where
  "Serialize pb message ctx =
     (case pb_SerializeToString pb message of
        None \<Rightarrow> Err (rpc_error kSerializeError ''protobuf serialize failed'')
      | Some payload \<Rightarrow> Ok payload)"

text \<open>The message is changed in place, also when parsing fails.\<close>

definition Deserialize ::
  "'m pb_ops \<Rightarrow> string \<Rightarrow> 'm \<Rightarrow> SerializationContext \<Rightarrow> (RpcError + unit) \<times> 'm" where
  "Deserialize pb payload message ctx =
     (case pb_ParseFromArray pb payload (size_to_int (length payload)) message of
        (parsed, message') \<Rightarrow>
          if \<not> parsed then (Err (rpc_error kDeserializeError ''protobuf deserialize failed''), message')
          else (Ok (), message'))"

text \<open>
  What protobuf documents: serialised messages stay below 2 GiB, parsing what was serialised
  into a message of the same type gives the original, and parsing keeps the type.
\<close>

definition pb_wire_ok :: "'m pb_ops \<Rightarrow> bool" where
  "pb_wire_ok pb \<longleftrightarrow>
     (\<forall>m b. pb_SerializeToString pb m = Some b \<longrightarrow> length b < 2 ^ 31) \<and>
     (\<forall>m b t. pb_SerializeToString pb m = Some b \<longrightarrow> pb_full_name pb t = pb_full_name pb m \<longrightarrow>
        pb_ParseFromArray pb b (int (length b)) t = (True, m)) \<and>
     (\<forall>b n t. pb_full_name pb (snd (pb_ParseFromArray pb b n t)) = pb_full_name pb t)"

lemma Deserialize_Serialize:
  assumes "pb_wire_ok pb" and "Serialize pb m ctx = Ok b" and "pb_full_name pb t = pb_full_name pb m"
  shows "Deserialize pb b t ctx' = (Ok (), m)"
proof -
  from assms(2) have b: "pb_SerializeToString pb m = Some b"
    by (simp add: Serialize_def split: option.splits)
  with assms(1,3) have "length b < 2 ^ 31" "pb_ParseFromArray pb b (int (length b)) t = (True, m)"
    unfolding pb_wire_ok_def by blast+
  then show ?thesis by (simp add: Deserialize_def size_to_int_small)
qed

lemma Deserialize_type:
  "pb_wire_ok pb \<Longrightarrow> Deserialize pb b t ctx = (r, t') \<Longrightarrow> pb_full_name pb t' = pb_full_name pb t"
  unfolding Deserialize_def pb_wire_ok_def by (auto split: prod.splits if_splits) (metis snd_conv)+

lemma Deserialize_error: "Deserialize pb b t ctx = (Err e, t') \<Longrightarrow> err_code e = kDeserializeError"
  by (auto simp: Deserialize_def split: prod.splits if_splits)

lemma Serialize_error: "Serialize pb m ctx = Err e \<Longrightarrow> err_code e = kSerializeError"
  by (auto simp: Serialize_def split: option.splits)

end
