(* ===== verification/Controller.thy ===== *)
theory Controller
  imports Types
begin

text \<open>
  The controller of a call, \<open>src/src/controller.cc\<close>: the error state a service may set and the
  metadata of the request. Cancellation is a stub in the source.
\<close>

record controller =
  failed :: bool
  error_code :: RpcStatusCode
  error_text :: string
  request_metadata :: string

definition hxrpccontroller :: controller where
  "hxrpccontroller = \<lparr>failed = False, error_code = kOk, error_text = [], request_metadata = []\<rparr>"

definition Controller_Reset :: "controller \<Rightarrow> controller" where
  "Controller_Reset c =
     c\<lparr>failed := False, error_code := kOk, error_text := [], request_metadata := []\<rparr>"

definition Controller_Failed :: "controller \<Rightarrow> bool" where
  "Controller_Failed c = failed c"

definition Controller_ErrorText :: "controller \<Rightarrow> string" where
  "Controller_ErrorText c = error_text c"

definition Controller_ErrorCode :: "controller \<Rightarrow> RpcStatusCode" where
  "Controller_ErrorCode c = error_code c"

definition SetError :: "RpcStatusCode \<Rightarrow> string \<Rightarrow> controller \<Rightarrow> controller" where
  "SetError code reason c = c\<lparr>failed := True, error_code := code, error_text := reason\<rparr>"

definition SetFailed :: "string \<Rightarrow> controller \<Rightarrow> controller" where
  "SetFailed reason c = SetError kInternalError reason c"

definition SetRequestMetadata :: "string \<Rightarrow> controller \<Rightarrow> controller" where
  "SetRequestMetadata metadata c = c\<lparr>request_metadata := metadata\<rparr>"

definition RequestMetadata :: "controller \<Rightarrow> string" where
  "RequestMetadata c = request_metadata c"

definition StartCancel :: "controller \<Rightarrow> controller" where
  "StartCancel c = c"

definition IsCanceled :: "controller \<Rightarrow> bool" where
  "IsCanceled c = False"

definition NotifyOnCancel :: "'callback \<Rightarrow> controller \<Rightarrow> controller" where
  "NotifyOnCancel callback c = c"

text \<open>
  The failure state is exactly what the last error call set, whatever else happened, and
  resetting gives the state of a new controller.
\<close>

datatype controller_op = OpSetFailed string | OpSetError RpcStatusCode string
  | OpSetMetadata string | OpStartCancel | OpReset

fun controller_run :: "controller_op list \<Rightarrow> controller \<Rightarrow> controller" where
  "controller_run [] c = c"
| "controller_run (OpSetFailed r # ops) c = controller_run ops (SetFailed r c)"
| "controller_run (OpSetError k r # ops) c = controller_run ops (SetError k r c)"
| "controller_run (OpSetMetadata m # ops) c = controller_run ops (SetRequestMetadata m c)"
| "controller_run (OpStartCancel # ops) c = controller_run ops (StartCancel c)"
| "controller_run (OpReset # ops) c = controller_run ops (Controller_Reset c)"

lemmas controller_defs = hxrpccontroller_def Controller_Reset_def Controller_Failed_def
  Controller_ErrorText_def Controller_ErrorCode_def SetError_def SetFailed_def
  SetRequestMetadata_def RequestMetadata_def StartCancel_def IsCanceled_def

definition controller_consistent :: "controller \<Rightarrow> bool" where
  "controller_consistent c \<longleftrightarrow> (\<not> failed c \<longrightarrow> error_code c = kOk \<and> error_text c = [])"

lemma controller_run_consistent:
  "controller_consistent c \<Longrightarrow> controller_consistent (controller_run ops c)"
  by (induction ops c rule: controller_run.induct) (simp_all add: controller_consistent_def controller_defs)

lemma controller_run_append: "controller_run (xs @ ys) c = controller_run ys (controller_run xs c)"
  by (induction xs c rule: controller_run.induct) simp_all

end
