(* ===== verification/ServiceRegistry.thy ===== *)
theory ServiceRegistry
  imports Controller
begin

text \<open>
  The method registry of the server, \<open>src/src/service_registry.cc\<close>. A protobuf service is user
  code behind a generated class: the record \<open>pb_service\<close> holds what the framework calls on it.
  A method descriptor is identified by its name within the service. \<open>svc_call\<close> is \<open>CallMethod\<close>:
  from the controller, the request and the response message and the state of the application
  it gives whether \<open>done->Run()\<close> was called, and the new controller, messages and state.
\<close>

record ('m, 'a) pb_service =
  svc_name :: string
  svc_methods :: "string list"
  svc_request_prototype :: "string \<Rightarrow> 'm"
  svc_response_prototype :: "string \<Rightarrow> 'm"
  svc_call :: "string \<Rightarrow> controller \<Rightarrow> 'm \<Rightarrow> 'm \<Rightarrow> 'a \<Rightarrow> bool \<times> controller \<times> 'm \<times> 'm \<times> 'a"

record ('m, 'a) RegisteredMethod =
  rm_service_name :: string
  rm_method_name :: string
  rm_service :: "('m, 'a) pb_service"
  rm_method :: string

type_synonym ('m, 'a) registry = "(string, ('m, 'a) RegisteredMethod) umap"

definition method_key :: "string \<Rightarrow> string \<Rightarrow> string" where
  "method_key service_name method_name = service_name @ ''.'' @ method_name"

definition RegisterService :: "('m, 'a) pb_service \<Rightarrow> ('m, 'a) registry \<Rightarrow> ('m, 'a) registry" where
  "RegisterService service methods =
     fold (\<lambda>name reg. umap_put (method_key (svc_name service) name)
             \<lparr>rm_service_name = svc_name service, rm_method_name = name,
              rm_service = service, rm_method = name\<rparr> reg)
       (svc_methods service) methods"

definition Find ::
  "('m, 'a) registry \<Rightarrow> string \<Rightarrow> string \<Rightarrow> RpcError + ('m, 'a) RegisteredMethod" where
  "Find methods service_name method_name =
     (case umap_find methods (method_key service_name method_name) of
        Some registered \<Rightarrow> Ok registered
      | None \<Rightarrow>
          if list_ex (\<lambda>(_, r). rm_service_name r = service_name) methods
          then Err (rpc_error kUnknownMethod ''unknown method'')
          else Err (rpc_error kUnknownService ''unknown service''))"

definition ListMethods :: "('m, 'a) registry \<Rightarrow> ('m, 'a) RegisteredMethod list" where
  "ListMethods methods = map snd methods"

section \<open>Laws\<close>

text \<open>
  Names in protobuf descriptors are identifiers, so they hold no dot; then a key determines
  service and method, and the registry is a function of the pair.
\<close>

definition dot_free :: "string \<Rightarrow> bool" where
  "dot_free s \<longleftrightarrow> CHR ''.'' \<notin> set s"

definition service_ok :: "('m, 'a) pb_service \<Rightarrow> bool" where
  "service_ok service \<longleftrightarrow> dot_free (svc_name service) \<and> list_all dot_free (svc_methods service)"

definition registry_ok :: "('m, 'a) registry \<Rightarrow> bool" where
  "registry_ok methods \<longleftrightarrow> umap_ok methods \<and>
     (\<forall>(k, r) \<in> set methods. k = method_key (rm_service_name r) (rm_method_name r) \<and>
        dot_free (rm_service_name r) \<and> dot_free (rm_method_name r) \<and>
        rm_method r = rm_method_name r \<and> svc_name (rm_service r) = rm_service_name r \<and>
        rm_method_name r \<in> set (svc_methods (rm_service r)))"

lemma method_key_inject:
  assumes "method_key s m = method_key s' m'" and "dot_free s'" "dot_free m'"
  shows "s = s' \<and> m = m'"
proof -
  have eq: "s @ CHR ''.'' # m = s' @ CHR ''.'' # m'"
    using assms(1) by (simp add: method_key_def)
  have free: "CHR ''.'' \<notin> set s' \<union> set m'" using assms(2,3) by (simp add: dot_free_def)
  from eq consider us where "s = s' @ us" "us @ CHR ''.'' # m = CHR ''.'' # m'"
    | us where "s @ us = s'" "CHR ''.'' # m = us @ CHR ''.'' # m'"
    by (auto simp: append_eq_append_conv2)
  then show ?thesis
  proof cases
    case (1 us)
    with free show ?thesis by (cases us) auto
  next
    case (2 us)
    with free show ?thesis by (cases us) auto
  qed
qed

lemma registry_ok_put:
  assumes "registry_ok reg" "dot_free (svc_name svc)" "dot_free name" "name \<in> set (svc_methods svc)"
  shows "registry_ok (umap_put (method_key (svc_name svc) name)
    \<lparr>rm_service_name = svc_name svc, rm_method_name = name, rm_service = svc, rm_method = name\<rparr> reg)"
    (is "registry_ok (umap_put ?k ?r reg)")
proof -
  have ok: "umap_ok (umap_put ?k ?r reg)" using assms(1) by (simp add: registry_ok_def)
  have "(k, r) \<in> set (umap_put ?k ?r reg) \<Longrightarrow> (k, r) = (?k, ?r) \<or> (k, r) \<in> set reg" for k r
    using umap_find_mem [OF ok, of k r] assms(1) umap_find_mem [of reg k r]
    by (auto simp: registry_ok_def split: if_splits)
  with ok assms show ?thesis unfolding registry_ok_def by fastforce
qed

lemma registry_ok_Register:
  assumes "registry_ok reg" and "service_ok svc"
  shows "registry_ok (RegisterService svc reg)"
proof -
  have "registry_ok (fold (\<lambda>name reg. umap_put (method_key (svc_name svc) name)
             \<lparr>rm_service_name = svc_name svc, rm_method_name = name,
              rm_service = svc, rm_method = name\<rparr> reg) names reg)"
    if "set names \<subseteq> set (svc_methods svc)" for names
    using that assms
  proof (induction names arbitrary: reg)
    case (Cons n ns)
    then show ?case
      by (simp add: registry_ok_put service_ok_def list_all_iff)
  qed simp
  then show ?thesis by (simp add: RegisterService_def)
qed

text \<open>Looking up after registering, as a law over maps.\<close>

lemma find_Register:
  "umap_find (RegisterService svc reg) k =
     (if k \<in> method_key (svc_name svc) ` set (svc_methods svc)
      then Some \<lparr>rm_service_name = svc_name svc, rm_method_name = drop (length (svc_name svc) + 1) k,
                 rm_service = svc, rm_method = drop (length (svc_name svc) + 1) k\<rparr>
      else umap_find reg k)"
proof -
  have "umap_find (fold (\<lambda>name reg. umap_put (method_key (svc_name svc) name)
             \<lparr>rm_service_name = svc_name svc, rm_method_name = name,
              rm_service = svc, rm_method = name\<rparr> reg) names reg) k =
    (if k \<in> method_key (svc_name svc) ` set names
      then Some \<lparr>rm_service_name = svc_name svc, rm_method_name = drop (length (svc_name svc) + 1) k,
                 rm_service = svc, rm_method = drop (length (svc_name svc) + 1) k\<rparr>
      else umap_find reg k)" for names
    by (induction names arbitrary: reg) (auto simp: method_key_def)
  then show ?thesis by (simp add: RegisterService_def)
qed

lemma Find_Ok:
  assumes "registry_ok reg" and "Find reg s m = Ok r"
  shows "rm_service_name r = s" "rm_method_name r = m" "rm_method r = m" "svc_name (rm_service r) = s"
    "m \<in> set (svc_methods (rm_service r))"
proof -
  from assms(2) have "umap_find reg (method_key s m) = Some r"
    by (auto simp: Find_def split: option.splits if_splits)
  then have "(method_key s m, r) \<in> set reg" by (rule map_of_SomeD)
  with assms(1) have r: "method_key s m = method_key (rm_service_name r) (rm_method_name r)"
      "dot_free (rm_service_name r)" "dot_free (rm_method_name r)" "rm_method r = rm_method_name r"
      "svc_name (rm_service r) = rm_service_name r" "rm_method_name r \<in> set (svc_methods (rm_service r))"
    unfolding registry_ok_def by auto
  with method_key_inject [OF r(1-3)]
  show "rm_service_name r = s" "rm_method_name r = m" "rm_method r = m" "svc_name (rm_service r) = s"
    "m \<in> set (svc_methods (rm_service r))" by auto
qed

lemma Find_Err:
  assumes "registry_ok reg" and "Find reg s m = Err e"
  shows "(\<forall>r \<in> set (ListMethods reg). \<not> (rm_service_name r = s \<and> rm_method_name r = m)) \<and>
    err_code e = (if \<exists>r \<in> set (ListMethods reg). rm_service_name r = s then kUnknownMethod else kUnknownService)"
proof -
  from assms(2) have none: "umap_find reg (method_key s m) = None"
    by (auto simp: Find_def split: option.splits)
  have "\<not> (rm_service_name r = s \<and> rm_method_name r = m)" if "r \<in> set (ListMethods reg)" for r
  proof
    assume "rm_service_name r = s \<and> rm_method_name r = m"
    with that assms(1) have "(method_key s m, r) \<in> set reg"
      by (auto simp: ListMethods_def registry_ok_def)
    with none show False by (auto simp: map_of_eq_None_iff rev_image_eqI)
  qed
  moreover have "list_ex (\<lambda>(_, r). rm_service_name r = s) reg \<longleftrightarrow> (\<exists>r \<in> set (ListMethods reg). rm_service_name r = s)"
    by (auto simp: ListMethods_def list_ex_iff intro: rev_bexI)
  ultimately show ?thesis
    using assms(2) none by (auto simp: Find_def split: if_splits)
qed

end
