(* ===== verification/RpcDispatcher.thy ===== *)
theory RpcDispatcher
  imports Serializer ServiceRegistry
begin

text \<open>
  The dispatcher, \<open>src/src/rpc_dispatcher.cc\<close>: a request frame becomes a call of a protobuf
  service method and the result a response frame. The state is the message pool and the state
  of the application behind the services. Message handles are released where they leave
  scope, in the reverse order of their construction. \<open>svc_call\<close> returns whether the service called
  \<open>done->Run()\<close> before it returned; the closure records it.
\<close>

text \<open>\<open>done_called\<close> is the flag outside the closure that it holds a reference to.\<close>

record InlineDoneClosure =
  idc_done_called :: bool
  idc_called :: bool

definition InlineDoneClosure_new :: "bool \<Rightarrow> InlineDoneClosure" where
  "InlineDoneClosure_new done_called = \<lparr>idc_done_called = done_called, idc_called = False\<rparr>"

definition InlineDoneClosure_Run :: "InlineDoneClosure \<Rightarrow> InlineDoneClosure" where
  "InlineDoneClosure_Run c = c\<lparr>idc_done_called := True, idc_called := True\<rparr>"

definition InlineDoneClosure_Called :: "InlineDoneClosure \<Rightarrow> bool" where
  "InlineDoneClosure_Called c = idc_called c"

abbreviation done_after :: "bool \<Rightarrow> InlineDoneClosure" where
  "done_after run \<equiv> (if run then InlineDoneClosure_Run else id) (InlineDoneClosure_new False)"

lemma InlineDoneClosure_simps [simp]:
  "InlineDoneClosure_Called (InlineDoneClosure_Run c)" "idc_done_called (InlineDoneClosure_Run c)"
  "InlineDoneClosure_Called (InlineDoneClosure_new b) = False" "idc_done_called (InlineDoneClosure_new b) = b"
  by (simp_all add: InlineDoneClosure_Called_def InlineDoneClosure_Run_def InlineDoneClosure_new_def)

text \<open>The handle after the message behind it was changed in place.\<close>

abbreviation holding :: "'m PooledMessage \<Rightarrow> 'm \<Rightarrow> 'm PooledMessage" where
  "holding h m \<equiv> h\<lparr>pm_message := Some m\<rparr>"

abbreviation held :: "'m PooledMessage \<Rightarrow> 'm" where
  "held h \<equiv> the (pm_message h)"

definition HandleFrame ::
  "pb_headers \<Rightarrow> 'm pb_ops \<Rightarrow> ('m, 'a) registry \<Rightarrow> string \<Rightarrow> 'm MessagePool \<times> 'a \<Rightarrow>
   (RpcError + string) \<times> 'm MessagePool \<times> 'a" where
  "HandleFrame hdrs pb registry frame st =
     (let (pool, app) = st in
      case DecodeRequest hdrs frame of
        Err e \<Rightarrow> (Err e, pool, app)
      | Ok request \<Rightarrow>
      case Find registry (req_service_name request) (req_method_name request) of
        Err e \<Rightarrow> (Err e, pool, app)
      | Ok registered \<Rightarrow>
          let ctx = \<lparr>ctx_service_name = req_service_name request, ctx_method_name = req_method_name request\<rparr>;
              service = rm_service registered;
              meth = rm_method registered;
              (request_message, pool1) = Acquire pb (svc_request_prototype service meth) pool
          in case Deserialize pb (req_payload request) (held request_message) ctx of
               (Err e, m1) \<Rightarrow>
                 (Err e, snd (PooledMessage_Release pb (holding request_message m1) pool1), app)
             | (Ok _, m1) \<Rightarrow>
                 let (response_message, pool2) = Acquire pb (svc_response_prototype service meth) pool1;
                     cntl = SetRequestMetadata (req_metadata request) hxrpccontroller;
                     (run, cntl1, m2, r2, app1) =
                       svc_call service meth cntl m1 (held response_message) app;
                     closure = done_after run;
                     pool3 = snd (PooledMessage_Release pb (holding response_message r2) pool2);
                     pool4 = snd (PooledMessage_Release pb (holding request_message m2) pool3)
                 in if \<not> InlineDoneClosure_Called closure \<or> \<not> idc_done_called closure
                    then (Err (rpc_error kInternalError ''asynchronous server callbacks are unsupported''),
                          pool4, app1)
                    else case Serialize pb r2 ctx of
                           Err e \<Rightarrow> (Err e, pool4, app1)
                         | Ok payload \<Rightarrow>
                             (EncodeResponse hdrs \<lparr>resp_request_id = req_request_id request,
                                resp_status = kOk, resp_error_text = [], resp_payload = payload\<rparr>,
                              pool4, app1))"

section \<open>The abstract service call\<close>

text \<open>
  What a request should do, without frames and pools: find the method, parse the argument
  into a new message, call the method with a blank response and the metadata, and answer with
  the response message. \<open>HandleFrame_refines\<close> shows that the dispatcher does exactly this.
\<close>

definition call_service ::
  "'m pb_ops \<Rightarrow> ('m, 'a) registry \<Rightarrow> RpcRequest \<Rightarrow> 'a \<Rightarrow> (RpcError + string) \<times> 'a" where
  "call_service pb registry request app =
     (case Find registry (req_service_name request) (req_method_name request) of
        Err e \<Rightarrow> (Err e, app)
      | Ok r \<Rightarrow>
          (case pb_ParseFromArray pb (req_payload request) (size_to_int (length (req_payload request)))
                  (pb_New pb (svc_request_prototype (rm_service r) (rm_method r))) of (parsed, m) \<Rightarrow>
           if \<not> parsed then (Err (rpc_error kDeserializeError ''protobuf deserialize failed''), app)
           else
             (case svc_call (rm_service r) (rm_method r)
                     (SetRequestMetadata (req_metadata request) hxrpccontroller) m
                     (pb_New pb (svc_response_prototype (rm_service r) (rm_method r))) app of
                (finished, _, _, answer, app1) \<Rightarrow>
                  if \<not> finished
                  then (Err (rpc_error kInternalError ''asynchronous server callbacks are unsupported''), app1)
                  else (case pb_SerializeToString pb answer of
                          None \<Rightarrow> (Err (rpc_error kSerializeError ''protobuf serialize failed''), app1)
                        | Some payload \<Rightarrow> (Ok payload, app1)))))"

text \<open>Services keep the types of the messages they are handed.\<close>

definition service_typed :: "'m pb_ops \<Rightarrow> ('m, 'a) pb_service \<Rightarrow> bool" where
  "service_typed pb svc \<longleftrightarrow>
     (\<forall>meth c rq rs a finished c' rq' rs' a'. svc_call svc meth c rq rs a = (finished, c', rq', rs', a') \<longrightarrow>
        pb_full_name pb rq' = pb_full_name pb rq \<and> pb_full_name pb rs' = pb_full_name pb rs)"

definition registry_typed :: "'m pb_ops \<Rightarrow> ('m, 'a) registry \<Rightarrow> bool" where
  "registry_typed pb reg \<longleftrightarrow> (\<forall>r \<in> set (ListMethods reg). service_typed pb (rm_service r))"

lemma Find_typed:
  "registry_typed pb reg \<Longrightarrow> Find reg s m = Ok r \<Longrightarrow> service_typed pb (rm_service r)"
  by (auto simp: Find_def registry_typed_def ListMethods_def split: option.splits if_splits dest!: map_of_SomeD)

lemma pb_New_type: "pb_ops_ok pb \<Longrightarrow> pb_full_name pb (pb_New pb p) = pb_full_name pb p"
  by (simp add: pb_ops_ok_def)

lemma holding_inv:
  "handle_inv pb h \<Longrightarrow> pm_message h = Some m0 \<Longrightarrow> pb_full_name pb m = pb_full_name pb m0 \<Longrightarrow>
   handle_inv pb (holding h m)"
  by (simp add: handle_inv_def)

lemma HandleFrame_Decode_Err:
  "DecodeRequest hdrs frame = Err e \<Longrightarrow> HandleFrame hdrs pb reg frame (pool, app) = (Err e, pool, app)"
  by (simp add: HandleFrame_def)

lemma HandleFrame_refines:
  assumes ok: "pb_ops_ok pb" "pb_wire_ok pb" and typed: "registry_typed pb reg" and inv: "pool_inv pb pool"
    and dec: "DecodeRequest hdrs frame = Ok request"
    and call: "call_service pb reg request app = (answer, app')"
  shows "\<exists>pool'. pool_inv pb pool' \<and> HandleFrame hdrs pb reg frame (pool, app) =
    ((case answer of
        Err e \<Rightarrow> Err e
      | Ok payload \<Rightarrow> EncodeResponse hdrs \<lparr>resp_request_id = req_request_id request, resp_status = kOk,
          resp_error_text = [], resp_payload = payload\<rparr>), pool', app')"
proof (cases "Find reg (req_service_name request) (req_method_name request)")
  case (Inl e)
  with dec call inv show ?thesis by (auto simp: HandleFrame_def call_service_def)
next
  case (Inr r)
  let ?q = "svc_request_prototype (rm_service r) (rm_method r)"
  let ?p = "svc_response_prototype (rm_service r) (rm_method r)"
  let ?ctx = "\<lparr>ctx_service_name = req_service_name request, ctx_method_name = req_method_name request\<rparr>"
  obtain h1 pool1 where acq1: "Acquire pb ?q pool = (h1, pool1)" by fastforce
  note h1 = Acquire_blank [OF ok(1) inv acq1]
  obtain d m1 where des: "Deserialize pb (req_payload request) (pb_New pb ?q) ?ctx = (d, m1)" by fastforce
  note m1 = Deserialize_type [OF ok(2) des]
  obtain parsed m where parse: "pb_ParseFromArray pb (req_payload request)
      (size_to_int (length (req_payload request))) (pb_New pb ?q) = (parsed, m)" by fastforce
  note step = HandleFrame_def call_service_def dec Inr Let_def acq1 h1(1) des
  show ?thesis
  proof (cases parsed)
    case False
    with des parse have d: "d = Err (rpc_error kDeserializeError ''protobuf deserialize failed'')"
      by (simp add: Deserialize_def)
    have "pool_inv pb (snd (PooledMessage_Release pb (holding h1 m1) pool1))"
      by (rule pool_inv_Release [OF ok(1) h1(4) holding_inv [OF h1(3,1) m1]])
    with False d call parse show ?thesis by (auto simp: step)
  next
    case True
    with des parse have d: "d = Ok ()" "m1 = m"
      by (simp_all add: Deserialize_def)
    obtain h2 pool2 where acq2: "Acquire pb ?p pool1 = (h2, pool2)" by fastforce
    note h2 = Acquire_blank [OF ok(1) h1(4) acq2]
    obtain fin c' m2 r2 app1 where svc: "svc_call (rm_service r) (rm_method r)
        (SetRequestMetadata (req_metadata request) hxrpccontroller) m (pb_New pb ?p) app = (fin, c', m2, r2, app1)"
      by (metis prod_cases5)
    from Find_typed [OF typed Inr] svc
    have types: "pb_full_name pb m2 = pb_full_name pb m" "pb_full_name pb r2 = pb_full_name pb (pb_New pb ?p)"
      unfolding service_typed_def by blast+
    have m2: "pb_full_name pb m2 = pb_full_name pb (pb_New pb ?q)" using types(1) m1 d(2) by simp
    let ?pool3 = "snd (PooledMessage_Release pb (holding h2 r2) pool2)"
    have "pool_inv pb ?pool3"
      by (rule pool_inv_Release [OF ok(1) h2(4) holding_inv [OF h2(3,1) types(2)]])
    then have "pool_inv pb (snd (PooledMessage_Release pb (holding h1 m2) ?pool3))"
      by (rule pool_inv_Release [OF ok(1) _ holding_inv [OF h1(3,1) m2]])
    with True d call parse acq2 h2(1) svc show ?thesis
      by (cases fin; cases "pb_SerializeToString pb r2") (auto simp: step Serialize_def)
  qed
qed

text \<open>Every error of the dispatcher carries the code of the stage that failed.\<close>

lemma call_service_error:
  assumes "call_service pb reg request app = (Err e, app')"
  shows "err_code e \<in> {kUnknownService, kUnknownMethod, kDeserializeError, kSerializeError, kInternalError}"
  using assms
  by (auto simp: call_service_def Find_def split: option.splits sum.splits prod.splits if_splits)

text \<open>The method is not run when the request does not name a registered one or does not parse.\<close>

lemma call_service_untouched:
  assumes "call_service pb reg request app = (Err e, app')"
    and "err_code e \<in> {kUnknownService, kUnknownMethod, kDeserializeError}"
  shows "app' = app"
  using assms
  by (auto simp: call_service_def split: option.splits sum.splits prod.splits if_splits)

end
