(* ===== verification/StringUtils.thy ===== *)
theory StringUtils
  imports StdText
begin

text \<open>
  The string helpers of \<open>src/src/string_utils.cc\<close>, with the loops and index arithmetic of the
  source, and their equivalence with the obvious list functions.
\<close>

definition trim_char :: "char \<Rightarrow> bool" where
  "trim_char c \<longleftrightarrow> c = CHR '' '' \<or> c = CHR 0x09 \<or> c = CHR 0x0D \<or> c = CHR 0x0A"

definition find_first_not_of :: "(char \<Rightarrow> bool) \<Rightarrow> string \<Rightarrow> nat option" where
  "find_first_not_of P s =
     (let n = length (takeWhile P s) in if n < length s then Some n else None)"

definition find_last_not_of :: "(char \<Rightarrow> bool) \<Rightarrow> string \<Rightarrow> nat option" where
  "find_last_not_of P s = map_option (\<lambda>i. length s - 1 - i) (find_first_not_of P (rev s))"

definition substr :: "nat \<Rightarrow> nat \<Rightarrow> string \<Rightarrow> string" where
  "substr pos n s = take n (drop pos s)"

definition TrimCopy :: "string \<Rightarrow> string" where
  "TrimCopy v =
     (case find_first_not_of trim_char v of
        None \<Rightarrow> []
      | Some first \<Rightarrow>
          (case find_last_not_of trim_char v of
             None \<Rightarrow> []
           | Some final \<Rightarrow> substr first (final - first + 1) v))"

definition StripQuotes :: "string \<Rightarrow> string" where
  "StripQuotes v =
     (if 2 \<le> length v \<and> (hd v = CHR 0x22 \<and> last v = CHR 0x22 \<or> hd v = CHR 0x27 \<and> last v = CHR 0x27)
      then substr 1 (length v - 2) v
      else v)"

fun CountIndent :: "string \<Rightarrow> nat" where
  "CountIndent [] = 0"
| "CountIndent (c # cs) = (if c = CHR '' '' \<or> c = CHR 0x09 then Suc (CountIndent cs) else 0)"

function split_from :: "string \<Rightarrow> char \<Rightarrow> nat \<Rightarrow> string list" where
  "split_from raw delimiter cursor =
     (if cursor \<le> length raw then
        (case find_char_from delimiter cursor raw of
           None \<Rightarrow> [substr cursor (length raw - cursor) raw]
         | Some nxt \<Rightarrow> substr cursor (nxt - cursor) raw # split_from raw delimiter (nxt + 1))
      else [])"
  by pat_completeness auto
termination
proof (relation "measure (\<lambda>(raw, _, cursor). Suc (length raw) - cursor)")
  fix raw delimiter cursor nxt
  assume "cursor \<le> length raw" "find_char_from delimiter cursor raw = Some nxt"
  then show "((raw, delimiter, nxt + 1), raw, delimiter, cursor) \<in> measure (\<lambda>(raw, _, cursor). Suc (length raw) - cursor)"
    by (auto simp: find_char_from_def)
qed simp

declare split_from.simps [simp del]

definition Split :: "string \<Rightarrow> char \<Rightarrow> string list" where
  "Split raw delimiter = split_from raw delimiter 0"

section \<open>Trimming\<close>

text \<open>The reference: drop white space at the front and at the back.\<close>

definition trim :: "string \<Rightarrow> string" where
  "trim s = rev (dropWhile trim_char (rev (dropWhile trim_char s)))"

lemma find_first_not_of_None: "find_first_not_of P s = None \<longleftrightarrow> (\<forall>c \<in> set s. P c)"
  by (induction s) (auto simp: find_first_not_of_def Let_def split: if_splits)

lemma TrimCopy_trim: "TrimCopy s = trim s"
proof (cases "\<forall>c \<in> set s. trim_char c")
  case True
  then have "find_first_not_of trim_char s = None" by (simp add: find_first_not_of_None)
  moreover have "dropWhile trim_char s = []" using True by (simp add: dropWhile_eq_Nil_conv)
  ultimately show ?thesis by (simp del: dropWhile_eq_Nil_conv add: TrimCopy_def trim_def)
next
  case False
  define a b where "a = takeWhile trim_char s" and "b = takeWhile trim_char (rev s)"
  have ab: "\<forall>c \<in> set a. trim_char c" "\<forall>c \<in> set b. trim_char c"
    by (auto simp: a_def b_def dest: set_takeWhileD)
  have s1: "s = a @ dropWhile trim_char s" and ne: "dropWhile trim_char s \<noteq> []"
    using False by (auto simp: a_def)
  obtain c where c: "c \<in> set (dropWhile trim_char s)" "\<not> trim_char c"
    using ne hd_dropWhile [OF ne] hd_in_set by blast
  have rs: "rev s = rev (dropWhile trim_char s) @ rev a" using s1 by (metis rev_append)
  have b2: "b = takeWhile trim_char (rev (dropWhile trim_char s))"
    unfolding b_def rs using c by (intro takeWhile_append1) auto
  define m where "m = rev (dropWhile trim_char (rev (dropWhile trim_char s)))"
  have mid: "dropWhile trim_char s = m @ rev b"
    unfolding m_def b2 by (metis rev_append rev_rev_ident takeWhile_dropWhile_id)
  have m_ne: "m \<noteq> []" using c mid ab(2) by auto
  have s: "s = a @ m @ rev b" using s1 mid by simp
  have lens: "length s = length a + length m + length b" by (subst s) simp
  have first: "find_first_not_of trim_char s = Some (length a)"
    using m_ne lens by (simp add: find_first_not_of_def a_def [symmetric])
  have final: "find_last_not_of trim_char s = Some (length a + length m - 1)"
    using m_ne lens by (simp add: find_last_not_of_def find_first_not_of_def b_def [symmetric])
  have "TrimCopy s = take (length m) (drop (length a) s)"
    using m_ne first final by (cases m) (simp_all add: TrimCopy_def substr_def)
  also have "\<dots> = m" by (subst s) simp
  finally show ?thesis by (simp add: m_def trim_def)
qed

definition trimmed :: "string \<Rightarrow> bool" where
  "trimmed s \<longleftrightarrow> s = [] \<or> \<not> trim_char (hd s) \<and> \<not> trim_char (last s)"

lemma trim_trimmed [simp]: "trimmed s \<Longrightarrow> trim s = s"
proof -
  assume "trimmed s"
  then have "dropWhile trim_char s = s" "dropWhile trim_char (rev s) = rev s"
    by (auto simp: trimmed_def dropWhile_eq_self_iff hd_rev)
  then show ?thesis by (simp add: trim_def)
qed

lemma trimmed_trim [simp]: "trimmed (trim s)"
proof -
  let ?d = "dropWhile trim_char s"
  let ?e = "dropWhile trim_char (rev ?d)"
  show ?thesis
  proof (cases "?e = []")
    case True
    then show ?thesis by (simp add: trimmed_def trim_def)
  next
    case False
    have d: "?d = rev ?e @ rev (takeWhile trim_char (rev ?d))"
      by (metis rev_append rev_rev_ident takeWhile_dropWhile_id)
    with False have hd: "hd (rev ?e) = hd ?d" by (metis hd_append2 rev_is_Nil_conv)
    have "?d \<noteq> []" using False by (cases "?d = []") (simp_all del: dropWhile_eq_Nil_conv)
    then have "\<not> trim_char (hd (rev ?e))" using hd hd_dropWhile by metis
    moreover have "\<not> trim_char (last (rev ?e))"
      using hd_dropWhile [OF False] False by (simp add: last_rev)
    ultimately show ?thesis by (simp add: trimmed_def trim_def)
  qed
qed

text \<open>White space around a trimmed text disappears.\<close>

lemma trim_around:
  assumes "\<forall>c \<in> set a. trim_char c" "\<forall>c \<in> set b. trim_char c" "trimmed s"
  shows "trim (a @ s @ b) = s"
proof (cases "s = []")
  case True
  have "dropWhile trim_char (a @ b) = []" using assms(1,2) by auto
  with True show ?thesis by (simp del: dropWhile_eq_Nil_conv add: trim_def)
next
  case False
  with assms(3) have "\<not> trim_char (hd s)" "\<not> trim_char (last s)" by (auto simp: trimmed_def)
  with False have "dropWhile trim_char (s @ b) = s @ b" "dropWhile trim_char (rev s) = rev s"
    by (simp_all add: dropWhile_eq_self_iff hd_rev)
  moreover have "dropWhile trim_char (a @ s @ b) = dropWhile trim_char (s @ b)"
    using assms(1) by (intro dropWhile_append2) blast
  moreover have "dropWhile trim_char (rev b @ rev s) = dropWhile trim_char (rev s)"
    using assms(2) by (intro dropWhile_append2) simp
  ultimately show ?thesis by (simp add: trim_def)
qed

section \<open>Indentation\<close>

lemma CountIndent_spaces: "CountIndent (replicate n CHR '' '' @ s) = n + CountIndent s"
  by (induction n) simp_all

lemma CountIndent_takeWhile: "CountIndent s = length (takeWhile (\<lambda>c. c = CHR '' '' \<or> c = CHR 0x09) s)"
  by (induction s) simp_all

section \<open>Splitting\<close>

text \<open>The reference: the pieces between the delimiters.\<close>

fun split_on :: "char \<Rightarrow> string \<Rightarrow> string list" where
  "split_on d [] = [[]]"
| "split_on d (c # cs) =
     (if c = d then [] # split_on d cs
      else case split_on d cs of [] \<Rightarrow> [[c]] | p # ps \<Rightarrow> (c # p) # ps)"

fun join :: "char \<Rightarrow> string list \<Rightarrow> string" where
  "join d [] = []"
| "join d [p] = p"
| "join d (p # q # ps) = p @ d # join d (q # ps)"

lemma split_on_not_Nil [simp]: "split_on d s \<noteq> []"
  by (cases s) (auto split: list.splits)

lemma split_on_no_delim: "d \<notin> set s \<Longrightarrow> split_on d s = [s]"
  by (induction s) auto

lemma split_on_append: "d \<notin> set a \<Longrightarrow> split_on d (a @ d # s) = a # split_on d s"
  by (induction a) auto

lemma split_from_split_on:
  "cursor \<le> length raw \<Longrightarrow> split_from raw d cursor = split_on d (drop cursor raw)"
proof (induction raw d cursor rule: split_from.induct)
  case (1 raw d cursor)
  show ?case
  proof (cases "find_char d (drop cursor raw)")
    case None
    then have "find_char_from d cursor raw = None" by (simp add: find_char_from_def)
    with None 1(2) show ?thesis
      by (simp add: split_from.simps [of raw d cursor] substr_def find_char_None split_on_no_delim)
  next
    case (Some i)
    then have from': "find_char_from d cursor raw = Some (cursor + i)" by (simp add: find_char_from_def)
    note parts = find_char_Some [OF Some]
    then have "split_on d (drop cursor raw) = take i (drop cursor raw) # split_on d (drop (Suc i) (drop cursor raw))"
      by (metis split_on_append)
    moreover have "split_from raw d (cursor + i + 1) = split_on d (drop (cursor + i + 1) raw)"
      by (rule 1(1) [OF 1(2) from']) (use parts 1(2) in auto)
    ultimately show ?thesis
      using 1(2) from' by (simp add: split_from.simps [of raw d cursor] substr_def add.commute add.left_commute)
  qed
qed

lemma Split_split_on: "Split raw d = split_on d raw"
  by (simp add: Split_def split_from_split_on)

lemma join_split_on: "join d (split_on d s) = s"
proof (induction s)
  case (Cons c cs)
  then show ?case
    by (cases "split_on d cs") (auto split: list.splits, (metis join.simps(2,3) neq_Nil_conv append_Cons)+)
qed simp

lemma split_on_join:
  "ps \<noteq> [] \<Longrightarrow> \<forall>p \<in> set ps. d \<notin> set p \<Longrightarrow> split_on d (join d ps) = ps"
  by (induction d ps rule: join.induct) (simp_all add: split_on_no_delim split_on_append)

lemma split_on_parts: "p \<in> set (split_on d s) \<Longrightarrow> d \<notin> set p"
  by (induction s arbitrary: p) (auto split: if_splits list.splits)

end
