(* ===== verification/Config.thy ===== *)
theory Config
  imports StringUtils
begin

text \<open>
  The configuration loader, \<open>src/src/config.cc\<close>: a YAML subset is read line by line, a stack of
  sections is kept by indentation, and values are stored under dotted paths. A file is the
  string of its bytes, \<open>None\<close> when it cannot be opened; \<open>fgets\<close> delivers it in pieces of at most
  1023 bytes that end at a newline, and a piece ends at its first NUL byte when it becomes a
  \<open>std::string\<close>.
\<close>

type_synonym sections = "(nat \<times> string) list"
type_synonym config_map = "(string, string) umap"

definition pop_sections :: "nat \<Rightarrow> sections \<Rightarrow> sections" where
  "pop_sections indent secs = rev (dropWhile (\<lambda>(i, _). indent \<le> i) (rev secs))"

definition section_path :: "sections \<Rightarrow> string" where
  "section_path secs =
     (let path = foldl (\<lambda>path (_, name). (if path \<noteq> [] then path @ ''.'' else path) @ name) [] secs
      in if path \<noteq> [] then path @ ''.'' else path)"

definition ParseYamlLine :: "string \<Rightarrow> sections \<times> config_map \<Rightarrow> sections \<times> config_map" where
  "ParseYamlLine line0 st =
     (let (secs, config) = st;
          line = (case find_char CHR ''#'' line0 of None \<Rightarrow> line0 | Some i \<Rightarrow> take i line0)
      in if TrimCopy line = [] then (secs, config)
         else
           let indent = CountIndent line; content = TrimCopy line
           in case find_char CHR '':'' content of
                None \<Rightarrow> (secs, config)
              | Some delimiter \<Rightarrow>
                  let key = StripQuotes (TrimCopy (take delimiter content));
                      v = StripQuotes (TrimCopy (drop (delimiter + 1) content));
                      secs1 = pop_sections indent secs
                  in if v = [] then (secs1 @ [(indent, key)], config)
                     else (secs1, umap_put (section_path secs1 @ key) v config))"

definition fgets :: "nat \<Rightarrow> string \<Rightarrow> string \<times> string" where
  "fgets n s =
     (let k = (case find_char CHR 0x0A (take n s) of None \<Rightarrow> min n (length s) | Some i \<Rightarrow> Suc i)
      in (take k s, drop k s))"

function fgets_lines :: "string \<Rightarrow> string list" where
  "fgets_lines s =
     (if s = [] then []
      else let (piece, rest) = fgets 1023 s in takeWhile (\<lambda>c. c \<noteq> CHR 0x00) piece # fgets_lines rest)"
  by pat_completeness auto
termination
proof (relation "measure length")
  fix s :: string and x and piece rest
  assume "s \<noteq> []" "x = fgets 1023 s" "(piece, rest) = x"
  then show "(rest, s) \<in> measure length"
    by (auto simp: fgets_def Let_def split: option.splits)
qed simp

declare fgets_lines.simps [simp del]

definition load_line :: "string \<Rightarrow> sections \<times> config_map \<Rightarrow> sections \<times> config_map" where
  "load_line line st =
     (let content = TrimCopy line
      in if content = [] \<or> hd content = CHR ''#'' then st else ParseYamlLine line st)"

definition LoadConfigFile :: "string option \<Rightarrow> string + config_map" where
  "LoadConfigFile file =
     (case file of
        None \<Rightarrow> Err ''failed to open config file''
      | Some bytes \<Rightarrow> Ok (snd (fold load_line (fgets_lines bytes) ([], []))))"

definition Load :: "config_map \<Rightarrow> string \<Rightarrow> string" where
  "Load config key = (case umap_find config key of None \<Rightarrow> [] | Some v \<Rightarrow> v)"

definition Entries :: "config_map \<Rightarrow> config_map" where
  "Entries config = config"

definition Trim :: "string \<Rightarrow> string" where
  "Trim v =
     (case find_first_not_of trim_char v of
        None \<Rightarrow> []
      | Some first \<Rightarrow>
          (case find_last_not_of trim_char v of
             None \<Rightarrow> []
           | Some final \<Rightarrow> substr first (final - first + 1) v))"

section \<open>Documents\<close>

text \<open>
  A document as a tree of sections and values, its text with two spaces per level, and the
  dotted entries it stands for.
\<close>

datatype cfg_tree = Leaf string string | Node string "cfg_tree list"

fun render :: "nat \<Rightarrow> cfg_tree \<Rightarrow> string list" where
  "render d (Leaf k v) = [replicate (2 * d) CHR '' '' @ k @ '': '' @ v]"
| "render d (Node k ts) =
     (replicate (2 * d) CHR '' '' @ k @ '':'') # concat (map (render (Suc d)) ts)"

fun entries :: "string \<Rightarrow> cfg_tree \<Rightarrow> (string \<times> string) list" where
  "entries pre (Leaf k v) = [(pre @ k, v)]"
| "entries pre (Node k ts) = concat (map (entries (pre @ k @ ''.'')) ts)"

definition document :: "cfg_tree list \<Rightarrow> string" where
  "document ts = concat (map (\<lambda>l. l @ [CHR 0x0A]) (concat (map (render 0) ts)))"

definition store_all :: "(string \<times> string) list \<Rightarrow> config_map \<Rightarrow> config_map" where
  "store_all es m = fold (\<lambda>(k, v). umap_put k v) es m"

text \<open>Texts that survive: what the line format can carry as a name or as a value.\<close>

definition plain_text :: "string \<Rightarrow> bool" where
  "plain_text s \<longleftrightarrow> s \<noteq> [] \<and> trimmed s \<and> StripQuotes s = s \<and>
     CHR ''#'' \<notin> set s \<and> CHR 0x0A \<notin> set s \<and> CHR 0x00 \<notin> set s"

definition plain_name :: "string \<Rightarrow> bool" where
  "plain_name s \<longleftrightarrow> plain_text s \<and> CHR '':'' \<notin> set s"

fun plain_tree :: "cfg_tree \<Rightarrow> bool" where
  "plain_tree (Leaf k v) \<longleftrightarrow> plain_name k \<and> plain_text v"
| "plain_tree (Node k ts) \<longleftrightarrow> plain_name k \<and> list_all plain_tree ts"

section \<open>Reading back what was written\<close>

lemma Trim_TrimCopy: "Trim s = TrimCopy s"
  by (simp add: Trim_def TrimCopy_def)

lemma pop_sections_idem [simp]: "pop_sections n (pop_sections n secs) = pop_sections n secs"
  by (simp add: pop_sections_def)

lemma pop_sections_pop:
  assumes "n \<le> m"
  shows "pop_sections n (pop_sections m secs) = pop_sections n secs"
proof -
  have "dropWhile (\<lambda>(i, _). n \<le> i) (dropWhile (\<lambda>(i, _). m \<le> i) xs) = dropWhile (\<lambda>(i, _). n \<le> i) xs"
    for xs :: sections
    using assms by (induction xs) auto
  then show ?thesis by (simp add: pop_sections_def)
qed

lemma pop_sections_snoc:
  "pop_sections n (secs @ [(i, k)]) = (if n \<le> i then pop_sections n secs else secs @ [(i, k)])"
  by (simp add: pop_sections_def)

definition prefix_of :: "sections \<Rightarrow> string" where
  "prefix_of secs = concat (map (\<lambda>(_, name). name @ ''.'') secs)"

lemma section_path_prefix:
  assumes "\<forall>(_, name) \<in> set secs. name \<noteq> []"
  shows "section_path secs = prefix_of secs"
proof -
  let ?f = "\<lambda>path (i :: nat, name). (if path \<noteq> [] then path @ ''.'' else path) @ name"
  have "foldl ?f [] secs = butlast (prefix_of secs) \<and> (prefix_of secs = [] \<longleftrightarrow> secs = []) \<and>
      (secs \<noteq> [] \<longrightarrow> last (prefix_of secs) = CHR ''.'' \<and> 2 \<le> length (prefix_of secs))"
    using assms
  proof (induction secs rule: rev_induct)
    case (snoc x xs)
    obtain i name where x: "x = (i, name)" by fastforce
    with snoc have ih: "foldl ?f [] xs = butlast (prefix_of xs)" "prefix_of xs = [] \<longleftrightarrow> xs = []"
      "xs \<noteq> [] \<longrightarrow> last (prefix_of xs) = CHR ''.'' \<and> 2 \<le> length (prefix_of xs)" "name \<noteq> []"
      by auto
    have "(if butlast (prefix_of xs) \<noteq> [] then butlast (prefix_of xs) @ ''.'' else butlast (prefix_of xs)) = prefix_of xs"
      using ih(2,3) by (cases "prefix_of xs" rule: rev_cases) auto
    moreover have "prefix_of (xs @ [x]) = prefix_of xs @ name @ ''.''" by (simp add: prefix_of_def x)
    ultimately show ?case
      using ih x by (cases name) (simp_all add: butlast_append)
  qed (simp add: prefix_of_def)
  then show ?thesis
    by (cases "prefix_of secs" rule: rev_cases) (auto simp: section_path_def Let_def)
qed

text \<open>One line of a document.\<close>

lemma plain_line:
  assumes k: "plain_name k" and v: "v = [] \<or> plain_text v"
    and line: "line = replicate n CHR '' '' @ k @ '':'' @ (if v = [] then [] else CHR '' '' # v) @ [CHR 0x0A]"
  shows "load_line line (secs, m) =
    (let secs1 = pop_sections n secs
     in if v = [] then (secs1 @ [(n, k)], m) else (secs1, umap_put (section_path secs1 @ k) v m))"
proof -
  let ?c = "k @ '':'' @ (if v = [] then [] else CHR '' '' # v)"
  have k': "k \<noteq> []" "trimmed k" "StripQuotes k = k" "CHR '':'' \<notin> set k" "CHR ''#'' \<notin> set k"
    using k by (auto simp: plain_name_def plain_text_def)
  have v': "trimmed v" "StripQuotes v = v" "CHR ''#'' \<notin> set v"
    using v by (auto simp: plain_text_def trimmed_def StripQuotes_def)
  have spaces: "\<forall>c \<in> set (replicate n CHR '' ''). trim_char c" "\<forall>c \<in> set [CHR 0x0A]. trim_char c"
    "\<forall>c \<in> set '' ''. trim_char c"
    by (auto simp: trim_char_def)
  have c: "trimmed ?c"
    using k'(1,2) v'(1) by (auto simp: trimmed_def trim_char_def)
  have content: "TrimCopy line = ?c"
    unfolding TrimCopy_trim line using trim_around [OF spaces(1,2) c] by simp
  have hash: "find_char CHR ''#'' line = None"
    using k'(5) v'(3) by (auto simp: line find_char_None)
  have "hd k \<noteq> CHR ''#''" using k'(1,5) by (cases k) auto
  then have front: "hd ?c \<noteq> CHR ''#''" using k'(1) by simp
  have "\<not> trim_char (hd k)" using k'(1,2) by (simp add: trimmed_def)
  then have "CountIndent (k @ r) = 0" for r
    using k'(1) by (cases k) (auto simp: trim_char_def)
  then have indent: "CountIndent line = n"
    by (simp add: line CountIndent_spaces)
  have delim: "find_char CHR '':'' ?c = Some (length k)"
    using find_char_append [OF k'(4)] by simp
  have key: "StripQuotes (TrimCopy (take (length k) ?c)) = k"
    using k'(2,3) by (simp add: TrimCopy_trim)
  have "trim (CHR '' '' # v) = v"
    using trim_around [OF spaces(3) _ v'(1), of "[]"] by simp
  then have val: "StripQuotes (TrimCopy (drop (length k + 1) ?c)) = v"
    using v'(2) by (cases "v = []") (auto simp: TrimCopy_trim trim_def StripQuotes_def)
  show ?thesis
    using k'(1) front
    by (simp only: load_line_def ParseYamlLine_def content hash indent delim key val Let_def prod.case option.case) simp
qed

definition cfg_step :: "nat \<Rightarrow> sections \<Rightarrow> cfg_tree list \<Rightarrow> bool" where
  "cfg_step d base ts \<longleftrightarrow> (\<forall>secs m. pop_sections (2 * d) secs = base \<longrightarrow>
     (\<exists>secs'. pop_sections (2 * d) secs' = base \<and>
        fold load_line (map (\<lambda>l. l @ [CHR 0x0A]) (concat (map (render d) ts))) (secs, m) =
          (secs', store_all (concat (map (entries (prefix_of base)) ts)) m)))"

lemma cfg_step_Nil [simp]: "cfg_step d base []"
  by (simp add: cfg_step_def store_all_def)

lemma cfg_step_Cons:
  assumes "cfg_step d base [t]" and "cfg_step d base ts"
  shows "cfg_step d base (t # ts)"
  unfolding cfg_step_def
proof (intro allI impI)
  fix secs m
  assume "pop_sections (2 * d) secs = base"
  then obtain s1 where s1: "pop_sections (2 * d) s1 = base"
    "fold load_line (map (\<lambda>l. l @ [CHR 0x0A]) (render d t)) (secs, m) = (s1, store_all (entries (prefix_of base) t) m)"
    using assms(1) unfolding cfg_step_def by force
  then obtain s2 where "pop_sections (2 * d) s2 = base"
    "fold load_line (map (\<lambda>l. l @ [CHR 0x0A]) (concat (map (render d) ts))) (s1, store_all (entries (prefix_of base) t) m) =
      (s2, store_all (concat (map (entries (prefix_of base)) ts)) (store_all (entries (prefix_of base) t) m))"
    using assms(2) unfolding cfg_step_def by blast
  with s1 show "\<exists>secs'. pop_sections (2 * d) secs' = base \<and>
      fold load_line (map (\<lambda>l. l @ [CHR 0x0A]) (concat (map (render d) (t # ts)))) (secs, m) =
        (secs', store_all (concat (map (entries (prefix_of base)) (t # ts))) m)"
    by (simp add: store_all_def)
qed

lemma cfg_step_list:
  assumes "\<And>t. t \<in> set ts \<Longrightarrow> cfg_step d base [t]"
  shows "cfg_step d base ts"
  using assms by (induction ts) (auto intro: cfg_step_Cons)

lemma cfg_step_tree:
  assumes "plain_tree t" and "pop_sections (2 * d) base = base" and "\<forall>(_, name) \<in> set base. name \<noteq> []"
  shows "cfg_step d base [t]"
  using assms
proof (induction t arbitrary: d base)
  case (Leaf k v)
  then have kv: "plain_name k" "plain_text v" "v \<noteq> []" by (auto simp: plain_text_def)
  show ?case
    unfolding cfg_step_def
  proof (intro allI impI)
    fix secs m
    assume "pop_sections (2 * d) secs = base"
    with plain_line [OF kv(1) disjI2 [OF kv(2)] refl, of "2 * d" secs m] kv(3)
      section_path_prefix [OF Leaf.prems(3)] Leaf.prems(2)
    show "\<exists>secs'. pop_sections (2 * d) secs' = base \<and>
        fold load_line (map (\<lambda>l. l @ [CHR 0x0A]) (concat (map (render d) [Leaf k v]))) (secs, m) =
          (secs', store_all (concat (map (entries (prefix_of base)) [Leaf k v])) m)"
      by (simp add: store_all_def)
  qed
next
  case (Node k ts)
  then have k: "plain_name k" "k \<noteq> []" and sub: "\<And>t. t \<in> set ts \<Longrightarrow> plain_tree t"
    by (auto simp: plain_name_def plain_text_def list_all_iff)
  let ?base = "base @ [(2 * d, k)]"
  have "cfg_step (Suc d) ?base [t]" if "t \<in> set ts" for t
    using Node.IH [OF that sub [OF that], of "Suc d" ?base] Node.prems(3) k(2)
    by (simp add: pop_sections_snoc case_prod_beta)
  then have inner: "cfg_step (Suc d) ?base ts" by (rule cfg_step_list)
  show ?case
    unfolding cfg_step_def
  proof (intro allI impI)
    fix secs m
    assume pop: "pop_sections (2 * d) secs = base"
    have first: "load_line (replicate (2 * d) CHR '' '' @ k @ '':'' @ [CHR 0x0A]) (secs, m) = (?base, m)"
      using plain_line [OF k(1) disjI1 [OF refl] refl, of "2 * d" secs m] pop by simp
    have "pop_sections (2 * Suc d) ?base = ?base" by (simp add: pop_sections_snoc)
    then obtain s' where s': "pop_sections (2 * Suc d) s' = ?base"
      "fold load_line (map (\<lambda>l. l @ [CHR 0x0A]) (concat (map (render (Suc d)) ts))) (?base, m) =
        (s', store_all (concat (map (entries (prefix_of ?base)) ts)) m)"
      using inner unfolding cfg_step_def by blast
    have "pop_sections (2 * d) s' = pop_sections (2 * d) ?base"
      using pop_sections_pop [of "2 * d" "2 * Suc d" s'] s'(1) by simp
    then have "pop_sections (2 * d) s' = base"
      using Node.prems(2) by (simp add: pop_sections_snoc)
    with s'(2) first show "\<exists>secs'. pop_sections (2 * d) secs' = base \<and>
        fold load_line (map (\<lambda>l. l @ [CHR 0x0A]) (concat (map (render d) [Node k ts]))) (secs, m) =
          (secs', store_all (concat (map (entries (prefix_of base)) [Node k ts])) m)"
      by (simp add: prefix_of_def)
  qed
qed

section \<open>Files\<close>

lemma fgets_lines_document:
  assumes "\<forall>l \<in> set ls. length l < 1023 \<and> CHR 0x0A \<notin> set l \<and> CHR 0x00 \<notin> set l"
  shows "fgets_lines (concat (map (\<lambda>l. l @ [CHR 0x0A]) ls)) = map (\<lambda>l. l @ [CHR 0x0A]) ls"
  using assms
proof (induction ls)
  case Nil
  then show ?case by (simp add: fgets_lines.simps)
next
  case (Cons l ls)
  let ?rest = "concat (map (\<lambda>l. l @ [CHR 0x0A]) ls)"
  have len: "length l < 1023" and nl: "CHR 0x0A \<notin> set l" and nul: "CHR 0x00 \<notin> set l" using Cons.prems by auto
  have "take 1023 (l @ CHR 0x0A # ?rest) = l @ CHR 0x0A # take (1022 - length l) ?rest"
    using len by (simp add: take_Cons')
  then have "find_char CHR 0x0A (take 1023 (l @ CHR 0x0A # ?rest)) = Some (length l)"
    using find_char_append [OF nl] by simp
  then have "fgets 1023 (l @ CHR 0x0A # ?rest) = (l @ [CHR 0x0A], ?rest)"
    by (simp add: fgets_def)
  moreover have "takeWhile (\<lambda>c. c \<noteq> CHR 0x00) (l @ [CHR 0x0A]) = l @ [CHR 0x0A]"
    using nul by (auto simp: takeWhile_eq_all_conv)
  ultimately show ?case
    using Cons.IH Cons.prems by (simp add: fgets_lines.simps [of "l @ CHR 0x0A # ?rest"])
qed

text \<open>Loading a written document gives its entries, provided its lines fit the line buffer.\<close>

lemma render_plain:
  assumes "plain_tree t" and "l \<in> set (render d t)"
  shows "CHR 0x0A \<notin> set l \<and> CHR 0x00 \<notin> set l"
  using assms by (induction t arbitrary: d) (auto simp: plain_name_def plain_text_def list_all_iff)

lemma Load_document:
  assumes plain: "list_all plain_tree ts"
    and short: "\<forall>l \<in> set (concat (map (render 0) ts)). length l < 1023"
  shows "LoadConfigFile (Some (document ts)) = Ok (store_all (concat (map (entries []) ts)) [])"
proof -
  have "cfg_step 0 [] ts"
  proof (rule cfg_step_list)
    fix t
    assume "t \<in> set ts"
    with plain have "plain_tree t" by (simp add: list_all_iff)
    then show "cfg_step 0 [] [t]" by (rule cfg_step_tree) (simp_all add: pop_sections_def)
  qed
  moreover have "pop_sections (2 * 0) [] = []" by (simp add: pop_sections_def)
  ultimately obtain s' where
    "fold load_line (map (\<lambda>l. l @ [CHR 0x0A]) (concat (map (render 0) ts))) ([], []) =
      (s', store_all (concat (map (entries (prefix_of [])) ts)) [])"
    unfolding cfg_step_def by blast
  moreover have "\<forall>l \<in> set (concat (map (render 0) ts)). length l < 1023 \<and> CHR 0x0A \<notin> set l \<and> CHR 0x00 \<notin> set l"
  proof
    fix l
    assume l: "l \<in> set (concat (map (render 0) ts))"
    then obtain t where t: "t \<in> set ts" "l \<in> set (render 0 t)" by auto
    with plain have "plain_tree t" by (simp add: list_all_iff)
    from render_plain [OF this t(2)] bspec [OF short l]
    show "length l < 1023 \<and> CHR 0x0A \<notin> set l \<and> CHR 0x00 \<notin> set l" by simp
  qed
  then have "fgets_lines (document ts) = map (\<lambda>l. l @ [CHR 0x0A]) (concat (map (render 0) ts))"
    unfolding document_def by (rule fgets_lines_document)
  ultimately show ?thesis by (simp add: LoadConfigFile_def prefix_of_def)
qed

end
