(* ===== verification/Settings.thy ===== *)
theory Settings
  imports Config Types
begin

text \<open>
  The typed configuration, \<open>src/src/settings.cc\<close> and \<open>src/src/include/settings.h\<close>: endpoints,
  discovery, client, server and logger options parsed from the dotted entries. A thrown
  exception of \<open>std::stoul\<close> or \<open>std::stoi\<close> is the \<open>None\<close> of their models. The file system is the
  argument \<open>fs\<close>, from paths to contents.
\<close>

datatype DiscoveryBackend = kStatic | kZookeeper
datatype SerializationBackend = kProtobuf
datatype LoggerMode = kSync | kAsync
datatype LoggerSink = kStderr | kFile | kStderrAndFile
datatype LogLevel = kInfo | kWarn | kError

record DiscoveryConfig =
  dc_backend :: DiscoveryBackend
  dc_zookeeper_endpoint :: Endpoint
  dc_selection_policy :: ResolverSelectionPolicy
  dc_static_services :: "(string, Endpoint list) umap"

record LoggerOptions =
  async_enabled :: bool
  stderr_enabled :: bool
  lo_file_path :: string
  lo_min_level :: LogLevel

record LoggerConfig =
  lc_mode :: LoggerMode
  lc_sink :: LoggerSink
  lc_file_path :: string
  lc_min_level :: LogLevel

definition ToOptions :: "LoggerConfig \<Rightarrow> LoggerOptions" where
  "ToOptions c =
     \<lparr>async_enabled = (lc_mode c = kAsync),
      stderr_enabled = (lc_sink c = kStderr \<or> lc_sink c = kStderrAndFile),
      lo_file_path = lc_file_path c, lo_min_level = lc_min_level c\<rparr>"

record ServerConfig =
  sc_listen_endpoint :: Endpoint
  sc_max_events :: nat
  sc_discovery :: DiscoveryConfig
  sc_serialization :: SerializationBackend

record ClientConfig =
  cc_discovery :: DiscoveryConfig
  cc_serialization :: SerializationBackend
  cc_call_options :: CallOptions

section \<open>Parsing\<close>

definition LoadRawConfig :: "(string \<Rightarrow> string option) \<Rightarrow> string \<Rightarrow> string + config_map" where
  "LoadRawConfig fs path =
     (if path = [] then Err ''config path is empty'' else LoadConfigFile (fs path))"

definition ParseEndpoint :: "string \<Rightarrow> string \<Rightarrow> string + Endpoint" where
  "ParseEndpoint raw field_name =
     (case find_char CHR '':'' raw of
        None \<Rightarrow> Err (field_name @ '' must be host:port'')
      | Some separator \<Rightarrow>
          (case stoul (TrimCopy (drop (separator + 1) raw)) of
             None \<Rightarrow> Err (field_name @ '' port is invalid'')
           | Some port \<Rightarrow>
               let endpoint = \<lparr>ep_host = TrimCopy (take separator raw), ep_port = ucast port\<rparr>
               in if \<not> Endpoint_IsValid endpoint then Err (field_name @ '' is incomplete'')
                  else Ok endpoint))"

definition ParseDiscoveryBackend :: "string \<Rightarrow> DiscoveryBackend" where
  "ParseDiscoveryBackend raw = (if raw = ''zookeeper'' \<or> raw = ''zk'' then kZookeeper else kStatic)"

definition ParseLoggerMode :: "string \<Rightarrow> string + LoggerMode" where
  "ParseLoggerMode raw =
     (if raw = ''sync'' then Ok kSync else if raw = ''async'' then Ok kAsync
      else Err (''logging.mode must be 'sync' or 'async'' @ [CHR 0x27]))"

definition ParseLoggerSink :: "string \<Rightarrow> string + LoggerSink" where
  "ParseLoggerSink raw =
     (if raw = ''stderr'' then Ok kStderr else if raw = ''file'' then Ok kFile
      else if raw = ''stderr_and_file'' then Ok kStderrAndFile
      else Err (''logging.sink must be 'stderr', 'file', or 'stderr_and_file'' @ [CHR 0x27]))"

definition ParseLogLevel :: "string \<Rightarrow> string + LogLevel" where
  "ParseLogLevel raw =
     (if raw = ''info'' then Ok kInfo else if raw = ''warn'' then Ok kWarn
      else if raw = ''error'' then Ok kError
      else Err (''logging.min_level must be 'info', 'warn', or 'error'' @ [CHR 0x27]))"

fun parse_endpoints :: "string list \<Rightarrow> string \<Rightarrow> string + Endpoint list" where
  "parse_endpoints [] field_name = Ok []"
| "parse_endpoints (item # items) field_name =
     (case ParseEndpoint (TrimCopy item) field_name of
        Err e \<Rightarrow> Err e
      | Ok endpoint \<Rightarrow>
          (case parse_endpoints items field_name of Err e \<Rightarrow> Err e | Ok rest \<Rightarrow> Ok (endpoint # rest)))"

definition ParseEndpointList :: "string \<Rightarrow> string \<Rightarrow> string + Endpoint list" where
  "ParseEndpointList raw field_name = parse_endpoints (Split raw CHR '','') field_name"

definition services_prefix :: string where
  "services_prefix = ''discovery.services.''"

definition add_static_service ::
  "string \<times> string \<Rightarrow> (string, Endpoint list) umap \<Rightarrow> (string, Endpoint list) umap" where
  "add_static_service entry services =
     (let (key, v) = entry in
      if take (length services_prefix) key \<noteq> services_prefix then services
      else case ParseEndpointList v key of
             Err _ \<Rightarrow> services
           | Ok endpoints \<Rightarrow> umap_emplace (drop (length services_prefix) key) endpoints services)"

definition LoadDiscoveryConfig :: "config_map \<Rightarrow> DiscoveryConfig" where
  "LoadDiscoveryConfig config =
     \<lparr>dc_backend = ParseDiscoveryBackend (Load config ''discovery.backend''),
      dc_zookeeper_endpoint =
        (case ParseEndpoint (Load config ''discovery.zookeeper.host'' @ '':'' @
                             Load config ''discovery.zookeeper.port'') ''zookeeper'' of
           Err _ \<Rightarrow> default_endpoint | Ok endpoint \<Rightarrow> endpoint),
      dc_selection_policy = kRandom,
      dc_static_services = fold add_static_service (Entries config) []\<rparr>"

definition BuildServerConfig :: "config_map \<Rightarrow> string + ServerConfig" where
  "BuildServerConfig config =
     (case ParseEndpoint (Load config ''server.host'' @ '':'' @ Load config ''server.port'') ''rpcserver'' of
        Err e \<Rightarrow> Err e
      | Ok endpoint \<Rightarrow>
          Ok \<lparr>sc_listen_endpoint = endpoint, sc_max_events = 128,
              sc_discovery = LoadDiscoveryConfig config, sc_serialization = kProtobuf\<rparr>)"

definition BuildClientConfig :: "config_map \<Rightarrow> string + ClientConfig" where
  "BuildClientConfig config =
     (let client_config = \<lparr>cc_discovery = LoadDiscoveryConfig config, cc_serialization = kProtobuf,
            cc_call_options = default_call_options\<rparr>;
          timeout_value = Load config ''client.rpc_timeout_ms''
      in if timeout_value = [] then Ok client_config
         else case stoi timeout_value of
                None \<Rightarrow> Err ''rpc_timeout_ms is invalid''
              | Some t \<Rightarrow>
                  if t \<le> 0 then Err ''rpc_timeout_ms must be positive''
                  else Ok (client_config\<lparr>cc_call_options := default_call_options\<lparr>timeout_ms := t\<rparr>\<rparr>))"

definition sink_writes_file :: "LoggerSink \<Rightarrow> bool" where
  "sink_writes_file sink \<longleftrightarrow> sink = kFile \<or> sink = kStderrAndFile"

definition BuildLoggerConfig :: "config_map \<Rightarrow> string + LoggerConfig" where
  "BuildLoggerConfig config =
     (case ParseLoggerMode (Load config ''logging.mode'') of
        Err e \<Rightarrow> Err e
      | Ok mode \<Rightarrow>
     (case ParseLoggerSink (Load config ''logging.sink'') of
        Err e \<Rightarrow> Err e
      | Ok sink \<Rightarrow>
     (case ParseLogLevel (Load config ''logging.min_level'') of
        Err e \<Rightarrow> Err e
      | Ok level \<Rightarrow>
          let file_path = Load config ''logging.file_path'' in
          if sink_writes_file sink \<and> file_path = []
          then Err ''logging.file_path is required when logging.sink writes to file''
          else if \<not> sink_writes_file sink \<and> file_path \<noteq> []
          then Err ''logging.file_path must be empty when logging.sink does not write to file''
          else Ok \<lparr>lc_mode = mode, lc_sink = sink, lc_file_path = file_path, lc_min_level = level\<rparr>)))"

definition ServerSettings_Load :: "(string \<Rightarrow> string option) \<Rightarrow> string \<Rightarrow> string + ServerConfig" where
  "ServerSettings_Load fs path =
     (case LoadRawConfig fs path of Err e \<Rightarrow> Err e | Ok config \<Rightarrow> BuildServerConfig config)"

definition ClientSettings_Load :: "(string \<Rightarrow> string option) \<Rightarrow> string \<Rightarrow> string + ClientConfig" where
  "ClientSettings_Load fs path =
     (case LoadRawConfig fs path of Err e \<Rightarrow> Err e | Ok config \<Rightarrow> BuildClientConfig config)"

definition LoggerSettings_Load :: "(string \<Rightarrow> string option) \<Rightarrow> string \<Rightarrow> string + LoggerConfig" where
  "LoggerSettings_Load fs path =
     (case LoadRawConfig fs path of Err e \<Rightarrow> Err e | Ok config \<Rightarrow> BuildLoggerConfig config)"

section \<open>Endpoints\<close>

lemma nat_to_string_trimmed: "trimmed (nat_to_string n)"
proof -
  have "\<not> trim_char c" if "is_digit c" for c
    using that by (auto simp: trim_char_def is_digit_def)
  then show ?thesis
    unfolding trimmed_def by (metis hd_in_set last_in_set nat_to_string_digits nat_to_string_nonempty)
qed

text \<open>What is read for a host and a decimal port: the port modulo $2^{16}$.\<close>

lemma ParseEndpoint_number:
  assumes host: "CHR '':'' \<notin> set host" and n: "n < 2 ^ 64"
  shows "ParseEndpoint (host @ '':'' @ nat_to_string n) field_name =
    (if trim host \<noteq> [] \<and> n mod 65536 \<noteq> 0
     then Ok \<lparr>ep_host = trim host, ep_port = word_of_nat n\<rparr>
     else Err (field_name @ '' is incomplete''))"
proof -
  have port: "stoul (nat_to_string n) = Some (word_of_nat n)"
    using stoul_nat_to_string [of n "[]"] n by simp
  have cast: "ucast (word_of_nat n :: u64) = (word_of_nat n :: u16)"
    by (rule bit_word_eqI) (simp add: bit_simps)
  have zero: "(word_of_nat n :: u16) = 0 \<longleftrightarrow> n mod 65536 = 0"
    by (simp add: word_of_nat_eq_0_iff dvd_eq_mod_eq_0)
  show ?thesis
    using find_char_append [OF host, of "nat_to_string n"] port cast zero
    by (simp add: ParseEndpoint_def TrimCopy_trim nat_to_string_trimmed Endpoint_IsValid_def)
qed

lemma ParseEndpoint_ToString:
  assumes "Endpoint_IsValid e" and "CHR '':'' \<notin> set (ep_host e)" and "trimmed (ep_host e)"
  shows "ParseEndpoint (Endpoint_ToString e) field_name = Ok e"
proof -
  have port: "unat (ep_port e) < 65536" using unsigned_less [of "ep_port e", where ?'a = nat] by simp
  have "unat (ep_port e) \<noteq> 0" using assms(1) by (simp add: Endpoint_IsValid_def unat_eq_0)
  with port assms ParseEndpoint_number [of "ep_host e" "unat (ep_port e)" field_name] show ?thesis
    by (simp add: Endpoint_ToString_def Endpoint_IsValid_def)
qed

lemma ParseEndpoint_valid:
  "ParseEndpoint raw field_name = Ok e \<Longrightarrow> Endpoint_IsValid e \<and> trimmed (ep_host e) \<and> CHR '':'' \<notin> set (ep_host e)"
proof -
  assume ret: "ParseEndpoint raw field_name = Ok e"
  then obtain i port where i: "find_char CHR '':'' raw = Some i"
    and e: "e = \<lparr>ep_host = trim (take i raw), ep_port = ucast (port :: u64)\<rparr>" "Endpoint_IsValid e"
    by (auto simp: ParseEndpoint_def Let_def TrimCopy_trim split: option.splits if_splits)
  have "set (trim s) \<subseteq> set s" for s
    by (auto simp: trim_def dest!: set_dropWhileD)
  with find_char_Some [OF i] e show ?thesis by (auto simp: subset_iff)
qed

definition endpoint_text_ok :: "Endpoint \<Rightarrow> bool" where
  "endpoint_text_ok e \<longleftrightarrow> Endpoint_IsValid e \<and> trimmed (ep_host e) \<and>
     CHR '':'' \<notin> set (ep_host e) \<and> CHR '','' \<notin> set (ep_host e)"

lemma Endpoint_ToString_trimmed:
  assumes "endpoint_text_ok e"
  shows "trimmed (Endpoint_ToString e)"
  using assms nat_to_string_trimmed [of "unat (ep_port e)"]
  by (auto simp: endpoint_text_ok_def Endpoint_ToString_def trimmed_def Endpoint_IsValid_def)

lemma ParseEndpointList_join:
  assumes "es \<noteq> []" and "\<forall>e \<in> set es. endpoint_text_ok e"
  shows "ParseEndpointList (join CHR '','' (map Endpoint_ToString es)) field_name = Ok es"
proof -
  have "CHR '','' \<notin> set (nat_to_string n)" for n
    using nat_to_string_digits [of "CHR '',''" n] by (auto simp: is_digit_def)
  then have "CHR '','' \<notin> set (Endpoint_ToString e)" if "endpoint_text_ok e" for e
    using that by (auto simp: endpoint_text_ok_def Endpoint_ToString_def)
  with assms have split: "Split (join CHR '','' (map Endpoint_ToString es)) CHR '','' = map Endpoint_ToString es"
    by (simp add: Split_split_on split_on_join)
  have "parse_endpoints (map Endpoint_ToString es) field_name = Ok es"
    using assms(2)
  proof (induction es)
    case (Cons e es)
    then have "ParseEndpoint (TrimCopy (Endpoint_ToString e)) field_name = Ok e"
      by (simp add: TrimCopy_trim Endpoint_ToString_trimmed) (simp add: endpoint_text_ok_def ParseEndpoint_ToString)
    with Cons show ?case by simp
  qed simp
  with split show ?thesis by (simp add: ParseEndpointList_def)
qed

section \<open>Static services\<close>

text \<open>
  The entries under \<open>discovery.services.\<close> whose value is a list of endpoints are the static
  services; every other entry is ignored.
\<close>

lemma static_services_find:
  assumes "umap_ok config"
  shows "umap_find (dc_static_services (LoadDiscoveryConfig config)) key =
    (case umap_find config (services_prefix @ key) of
       None \<Rightarrow> None
     | Some v \<Rightarrow> (case ParseEndpointList v (services_prefix @ key) of Err _ \<Rightarrow> None | Ok es \<Rightarrow> Some es))"
proof -
  define look where "look c = (case umap_find c (services_prefix @ key) of
       None \<Rightarrow> None
     | Some v \<Rightarrow> (case ParseEndpointList v (services_prefix @ key) of Err _ \<Rightarrow> None | Ok es \<Rightarrow> Some es))"
    for c :: config_map
  have "umap_find (fold add_static_service c services) key =
      (case umap_find services key of Some es \<Rightarrow> Some es | None \<Rightarrow> look c)"
    if "distinct (map fst c)" for c services
    using that
  proof (induction c arbitrary: services)
    case Nil
    then show ?case by (simp add: look_def split: option.splits)
  next
    case (Cons kv c)
    obtain k v where kv: "kv = (k, v)" by fastforce
    have ih: "umap_find (fold add_static_service c s) key = (case umap_find s key of Some es \<Rightarrow> Some es | None \<Rightarrow> look c)"
      for s using Cons by simp
    show ?case
    proof (cases "k = services_prefix @ key")
      case True
      with Cons.prems kv have rest: "umap_find c (services_prefix @ key) = None"
        by (simp add: map_of_eq_None_iff)
      show ?thesis
        unfolding fold_simps kv ih
        by (cases "ParseEndpointList v k")
          (auto simp: True add_static_service_def rest look_def split: option.splits)
    next
      case False
      then have "umap_find (add_static_service (k, v) services) key = umap_find services key"
      proof (cases "take (length services_prefix) k = services_prefix")
        case True
        with False have "key \<noteq> drop (length services_prefix) k" by (metis append_take_drop_id)
        then show ?thesis
          by (cases "ParseEndpointList v k") (simp_all add: add_static_service_def)
      qed (simp add: add_static_service_def)
      with False show ?thesis
        unfolding fold_simps kv ih by (simp add: look_def split: option.split)
    qed
  qed
  from this [of config "[]"] assms show ?thesis
    by (simp add: LoadDiscoveryConfig_def Entries_def look_def umap_ok_def)
qed

section \<open>Client and logger options\<close>

lemma BuildClientConfig_timeout:
  "BuildClientConfig config = Ok c \<Longrightarrow>
   0 < timeout_ms (cc_call_options c) \<and> timeout_ms (cc_call_options c) < 2 ^ 31"
  by (auto simp: BuildClientConfig_def Let_def default_call_options_def split: if_splits option.splits
      dest: stoi_range)

lemma BuildLoggerConfig_file:
  "BuildLoggerConfig config = Ok c \<Longrightarrow>
   (lc_file_path c \<noteq> [] \<longleftrightarrow> sink_writes_file (lc_sink c)) \<and>
   (lo_file_path (ToOptions c) \<noteq> [] \<or> stderr_enabled (ToOptions c))"
  by (auto simp: BuildLoggerConfig_def Let_def ToOptions_def sink_writes_file_def
      split: sum.splits if_splits) (metis LoggerSink.exhaust)+

end
