(* ===== verification/ZooKeeper.thy ===== *)
theory ZooKeeper
  imports Settings
begin

text \<open>
  The ZooKeeper client wrapper, \<open>src/src/zookeeperutil.cc\<close>. The ZooKeeper C library is not part
  of the repository: its calls are the record \<open>zk_api\<close> over a state \<open>'z\<close> of library and
  ensemble, with the documented behaviour \<open>zk_laws\<close> about the tree of nodes. \<open>zk_session\<close> tells
  whether the session event that \<open>Start\<close> waits for ever arrives.
\<close>

definition ZOK :: int where "ZOK = 0"
definition ZNONODE :: int where "ZNONODE = -101"

record 'z zk_api =
  zookeeper_init :: "string \<Rightarrow> 'z \<Rightarrow> bool \<times> 'z"
  zk_session :: "'z \<Rightarrow> 'z option"
  zoo_exists :: "string \<Rightarrow> 'z \<Rightarrow> int \<times> 'z"
  zoo_create :: "string \<Rightarrow> string \<Rightarrow> bool \<Rightarrow> 'z \<Rightarrow> int \<times> 'z"
  zoo_get :: "string \<Rightarrow> nat \<Rightarrow> 'z \<Rightarrow> (int \<times> string \<times> int) \<times> 'z"
  zoo_get_children :: "string \<Rightarrow> 'z \<Rightarrow> (int \<times> string list) \<times> 'z"
  zoo_wget_children :: "string \<Rightarrow> 'z \<Rightarrow> (int \<times> string list) \<times> 'z"

text \<open>Exceptions of the standard library that escape the wrapper.\<close>

datatype cpp_exception = LengthError

datatype 'a outcome = Returned 'a | Thrown cpp_exception

abbreviation zk_error :: "string \<Rightarrow> RpcError" where
  "zk_error m \<equiv> rpc_error kDiscoveryError m"

section \<open>Operations\<close>

text \<open>\<open>Start\<close> blocks (\<open>None\<close>) when the session is never established.\<close>

definition ZkClient_Start :: "'z zk_api \<Rightarrow> Endpoint \<Rightarrow> 'z \<Rightarrow> ((RpcError + unit) \<times> 'z) option" where
  "ZkClient_Start api endpoint z =
     (case zookeeper_init api (Endpoint_ToString endpoint) z of (created, z1) \<Rightarrow>
        if \<not> created then Some (Err (zk_error ''zookeeper_init failed''), z1)
        else (case zk_session api z1 of None \<Rightarrow> None | Some z2 \<Rightarrow> Some (Ok (), z2)))"

definition CreateNode ::
  "'z zk_api \<Rightarrow> string \<Rightarrow> string \<Rightarrow> bool \<Rightarrow> 'z \<Rightarrow> (RpcError + unit) \<times> 'z" where
  "CreateNode api path data ephemeral z =
     (case zoo_exists api path z of (exists_result, z1) \<Rightarrow>
        if exists_result = ZOK then (Ok (), z1)
        else if exists_result \<noteq> ZNONODE then (Err (zk_error ''zoo_exists failed''), z1)
        else (case zoo_create api path data ephemeral z1 of (create_result, z2) \<Rightarrow>
                if create_result \<noteq> ZOK then (Err (zk_error ''zoo_create failed''), z2)
                else (Ok (), z2)))"

function ensure_from :: "'z zk_api \<Rightarrow> string \<Rightarrow> nat \<Rightarrow> 'z \<Rightarrow> (RpcError + unit) \<times> 'z" where
  "ensure_from api full_path cursor z =
     (if cursor < length full_path then
        (let next_separator = find_char_from CHR ''/'' (cursor + 1) full_path;
             stop_at = (case next_separator of None \<Rightarrow> length full_path | Some i \<Rightarrow> i);
             current = take stop_at full_path;
             (result, z1) = (if current \<noteq> [] then CreateNode api current [] False z else (Ok (), z))
         in case result of
              Err e \<Rightarrow> (Err e, z1)
            | Ok _ \<Rightarrow>
                (case next_separator of
                   None \<Rightarrow> (Ok (), z1)
                 | Some i \<Rightarrow> ensure_from api full_path i z1))
      else (Ok (), z))"
  by pat_completeness auto
termination
  by (relation "measure (\<lambda>(_, path, cursor, _). length path - cursor)")
    (auto dest!: find_char_from_bounds [OF sym])

declare ensure_from.simps [simp del]

definition EnsurePath :: "'z zk_api \<Rightarrow> string \<Rightarrow> 'z \<Rightarrow> (RpcError + unit) \<times> 'z" where
  "EnsurePath api path z = (if path = ''/'' then (Ok (), z) else ensure_from api path 0 z)"

text \<open>\<open>std::string(buffer, length)\<close> throws when the length is negative.\<close>

definition GetData :: "'z zk_api \<Rightarrow> string \<Rightarrow> 'z \<Rightarrow> (RpcError + string) outcome \<times> 'z" where
  "GetData api path z =
     (case zoo_get api path 512 z of ((result, buffer, len), z1) \<Rightarrow>
        if result \<noteq> ZOK then (Returned (Err (zk_error ''zoo_get failed'')), z1)
        else if len < 0 then (Thrown LengthError, z1)
        else (Returned (Ok (take (nat len) buffer)), z1))"

definition GetChildren :: "'z zk_api \<Rightarrow> string \<Rightarrow> 'z \<Rightarrow> (RpcError + string list) \<times> 'z" where
  "GetChildren api path z =
     (case zoo_get_children api path z of ((result, children), z1) \<Rightarrow>
        if result \<noteq> ZOK then (Err (zk_error ''zoo_get_children failed''), z1)
        else (Ok children, z1))"

text \<open>A watch that was set is kept; the list holds the paths.\<close>

definition GetChildrenWatched ::
  "'z zk_api \<Rightarrow> string \<Rightarrow> 'z \<times> string list \<Rightarrow> (RpcError + string list) \<times> 'z \<times> string list" where
  "GetChildrenWatched api path st =
     (let (z, watches) = st in
      case zoo_wget_children api path z of ((result, children), z1) \<Rightarrow>
        if result \<noteq> ZOK then (Err (zk_error ''zoo_wget_children failed''), z1, watches)
        else (Ok children, z1, watches @ [path]))"

section \<open>Documented behaviour of the library\<close>

definition zk_laws :: "'z zk_api \<Rightarrow> ('z \<Rightarrow> string \<rightharpoonup> string) \<Rightarrow> bool" where
  "zk_laws api nodes \<longleftrightarrow>
     (\<forall>p z rc z'. zoo_exists api p z = (rc, z') \<longrightarrow> nodes z' = nodes z \<and>
        (rc = ZOK \<longrightarrow> nodes z p \<noteq> None) \<and> (rc = ZNONODE \<longrightarrow> nodes z p = None)) \<and>
     (\<forall>p d e z rc z'. zoo_create api p d e z = (rc, z') \<longrightarrow>
        nodes z' = (if rc = ZOK then (nodes z)(p \<mapsto> d) else nodes z)) \<and>
     (\<forall>p n z rc b len z'. zoo_get api p n z = ((rc, b, len), z') \<longrightarrow> nodes z' = nodes z \<and>
        (rc = ZOK \<longrightarrow> (\<exists>d. nodes z p = Some d \<and> b = take n d \<and> len = int (length b)))) \<and>
     (\<forall>p z rc cs z'. zoo_wget_children api p z = ((rc, cs), z') \<longrightarrow> nodes z' = nodes z \<and>
        (rc = ZOK \<longrightarrow> set cs = {c. CHR ''/'' \<notin> set c \<and> nodes z (p @ ''/'' @ c) \<noteq> None}))"

lemma zk_laws_calls:
  assumes "zk_laws api nodes"
  shows "zoo_exists api p z = (rc, z') \<Longrightarrow>
      nodes z' = nodes z \<and> (rc = ZOK \<longrightarrow> nodes z p \<noteq> None) \<and> (rc = ZNONODE \<longrightarrow> nodes z p = None)"
    and "zoo_create api p d e z = (rc, z') \<Longrightarrow>
      nodes z' = (if rc = ZOK then (nodes z)(p \<mapsto> d) else nodes z)"
    and "zoo_get api p n z = ((rc, b, len), z') \<Longrightarrow> nodes z' = nodes z \<and>
      (rc = ZOK \<longrightarrow> (\<exists>d. nodes z p = Some d \<and> b = take n d \<and> len = int (length b)))"
    and "zoo_wget_children api p z = ((rc, cs), z') \<Longrightarrow> nodes z' = nodes z \<and>
      (rc = ZOK \<longrightarrow> set cs = {c. CHR ''/'' \<notin> set c \<and> nodes z (p @ ''/'' @ c) \<noteq> None})"
  by (use assms in \<open>unfold zk_laws_def, elim conjE, simp\<close>)+

section \<open>Properties\<close>

text \<open>A node that was created is there, nothing else changes, and repeating it is harmless.\<close>

lemma CreateNode_nodes:
  assumes laws: "zk_laws api nodes" and ret: "CreateNode api p d e z = (r, z')"
  shows "(r = Ok () \<longrightarrow> nodes z' = (if nodes z p = None then (nodes z)(p \<mapsto> d) else nodes z)) \<and>
    (\<forall>q. q \<noteq> p \<longrightarrow> nodes z' q = nodes z q) \<and>
    (\<forall>err. r = Err err \<longrightarrow> err_code err = kDiscoveryError \<and> nodes z' = nodes z)"
proof -
  obtain rc z1 where ex: "zoo_exists api p z = (rc, z1)" by fastforce
  obtain rc2 z2 where cr: "zoo_create api p d e z1 = (rc2, z2)" by fastforce
  from ret ex cr zk_laws_calls(1) [OF laws ex] zk_laws_calls(2) [OF laws cr] show ?thesis
    by (auto simp: CreateNode_def split: if_splits)
qed

text \<open>The nodes that \<open>EnsurePath\<close> creates for an absolute path: every prefix, shortest first.\<close>

lemma ensure_from_step:
  assumes "CHR ''/'' \<notin> set seg" and "cursor = length pre"
  shows "ensure_from api (pre @ CHR ''/'' # seg @ CHR ''/'' # rest) cursor z =
    (case CreateNode api (pre @ CHR ''/'' # seg) [] False z of
       (Err e, z1) \<Rightarrow> (Err e, z1)
     | (Ok _, z1) \<Rightarrow> ensure_from api (pre @ CHR ''/'' # seg @ CHR ''/'' # rest) (cursor + 1 + length seg) z1)"
proof -
  have "find_char_from CHR ''/'' (cursor + 1) (pre @ CHR ''/'' # seg @ CHR ''/'' # rest) = Some (cursor + 1 + length seg)"
    using assms by (simp add: find_char_from_def find_char_append)
  with assms(2) show ?thesis
    by (subst ensure_from.simps) (auto split: prod.split sum.split)
qed

lemma ensure_from_last:
  assumes "CHR ''/'' \<notin> set seg" and "cursor = length pre"
  shows "ensure_from api (pre @ CHR ''/'' # seg) cursor z = CreateNode api (pre @ CHR ''/'' # seg) [] False z"
proof -
  have "find_char_from CHR ''/'' (cursor + 1) (pre @ CHR ''/'' # seg) = None"
    using assms by (simp add: find_char_from_def find_char_None)
  with assms(2) show ?thesis
    by (subst ensure_from.simps) (auto split: prod.split sum.split)
qed

lemma EnsurePath_one:
  "CHR ''/'' \<notin> set s \<Longrightarrow> s \<noteq> [] \<Longrightarrow> EnsurePath api (''/'' @ s) z = CreateNode api (''/'' @ s) [] False z"
  using ensure_from_last [of s 0 "[]" api z] by (simp add: EnsurePath_def)

lemma EnsurePath_two:
  assumes "CHR ''/'' \<notin> set s" "CHR ''/'' \<notin> set m"
  shows "EnsurePath api (''/'' @ s @ ''/'' @ m) z =
    (case CreateNode api (''/'' @ s) [] False z of
       (Err e, z1) \<Rightarrow> (Err e, z1)
     | (Ok _, z1) \<Rightarrow> CreateNode api (''/'' @ s @ ''/'' @ m) [] False z1)"
  using ensure_from_step [OF assms(1), of 0 "[]" api m z]
    ensure_from_last [OF assms(2), of "1 + length s" "CHR ''/'' # s" api]
  by (simp add: EnsurePath_def split: prod.split sum.split)

lemma GetData_value:
  assumes laws: "zk_laws api nodes" and ret: "GetData api p z = (r, z')"
  shows "nodes z' = nodes z \<and> (case r of
      Returned (Ok d) \<Rightarrow> (\<exists>v. nodes z p = Some v \<and> d = take 512 v)
    | Returned (Err err) \<Rightarrow> err_code err = kDiscoveryError
    | Thrown _ \<Rightarrow> False)"
proof -
  obtain rc b len z1 where get: "zoo_get api p 512 z = ((rc, b, len), z1)" by (metis prod.collapse)
  from zk_laws_calls(3) [OF laws get] have len: "rc = ZOK \<longrightarrow> take (nat len) b = b \<and> \<not> len < 0" by auto
  with ret get zk_laws_calls(3) [OF laws get] show ?thesis
    by (auto simp: GetData_def split: if_splits)
qed

end
