(* ===== verification/ServiceDiscovery.thy ===== *)
theory ServiceDiscovery
  imports ZooKeeper
begin

text \<open>
  Service discovery, \<open>src/src/service_discovery.cc\<close>: the static resolver over the configured
  table, the ZooKeeper resolver with its cache and watches, the two registrars and the
  factory. \<open>std::uniform_int_distribution\<close> over the Mersenne twister is the argument \<open>pick\<close>: from
  a bound and a generator state it gives an index and the next state, with \<open>pick_ok\<close> its
  documented range.

  \<open>service_resolver\<close> is the interface \<open>ServiceResolver\<close> that the client relies on; both
  resolvers interpret it.
\<close>

definition pick_ok :: "(nat \<Rightarrow> 'g \<Rightarrow> nat \<times> 'g) \<Rightarrow> bool" where
  "pick_ok pick \<longleftrightarrow> (\<forall>n g. 0 < n \<longrightarrow> fst (pick n g) < n)"

definition ChooseItem :: "(nat \<Rightarrow> 'g \<Rightarrow> nat \<times> 'g) \<Rightarrow> 'i list \<Rightarrow> 'g \<Rightarrow> 'i \<times> 'g" where
  "ChooseItem pick items g = (case pick (length items) g of (i, g1) \<Rightarrow> (items ! i, g1))"

section \<open>The static resolver\<close>

record 'g static_resolver =
  sr_config :: DiscoveryConfig
  sr_random :: 'g

definition MakeServiceKey :: "string \<Rightarrow> string \<Rightarrow> string" where
  "MakeServiceKey service_name method_name = service_name @ ''.'' @ method_name"

definition StaticResolver_ChooseInstance ::
  "(nat \<Rightarrow> 'g \<Rightarrow> nat \<times> 'g) \<Rightarrow> Endpoint list \<Rightarrow> 'g \<Rightarrow> (RpcError + ServiceInstance) \<times> 'g" where
  "StaticResolver_ChooseInstance pick endpoints g =
     (if endpoints = [] then (Err (zk_error ''no static instance available''), g)
      else case ChooseItem pick endpoints g of (endpoint, g1) \<Rightarrow>
             (Ok \<lparr>inst_id = Endpoint_ToString endpoint, inst_endpoint = endpoint\<rparr>, g1))"

definition StaticResolver_Resolve ::
  "(nat \<Rightarrow> 'g \<Rightarrow> nat \<times> 'g) \<Rightarrow> string \<Rightarrow> string \<Rightarrow> 'g static_resolver \<Rightarrow>
   (RpcError + ServiceInstance) outcome \<times> 'g static_resolver" where
  "StaticResolver_Resolve pick service_name method_name r =
     (let key = MakeServiceKey service_name method_name in
      case umap_find (dc_static_services (sr_config r)) key of
        None \<Rightarrow> (Returned (Err (zk_error (''missing static service: '' @ key))), r)
      | Some endpoints \<Rightarrow>
          (case StaticResolver_ChooseInstance pick endpoints (sr_random r) of
             (inst, g) \<Rightarrow> (Returned inst, r\<lparr>sr_random := g\<rparr>)))"

definition NoopRegistrar_Register :: "string \<Rightarrow> string \<Rightarrow> Endpoint \<Rightarrow> 'z \<Rightarrow> (RpcError + unit) \<times> 'z" where
  "NoopRegistrar_Register service_name method_name endpoint z = (Ok (), z)"

section \<open>The ZooKeeper resolver\<close>

record ('z, 'g) zk_resolver =
  zr_zk :: 'z
  zr_watches :: "string list"
  zr_cache :: "(string, ServiceInstance list) umap"
  zr_random :: 'g

definition BuildServicePath :: "string \<Rightarrow> string" where
  "BuildServicePath service_name = ''/'' @ service_name"

definition BuildMethodPath :: "string \<Rightarrow> string \<Rightarrow> string" where
  "BuildMethodPath service_name method_name = BuildServicePath service_name @ ''/'' @ method_name"

definition BuildInstancePath :: "string \<Rightarrow> string \<Rightarrow> string \<Rightarrow> string" where
  "BuildInstancePath service_name method_name instance_id =
     BuildMethodPath service_name method_name @ ''/'' @ instance_id"

definition ZkResolver_ParseEndpoint :: "string \<Rightarrow> RpcError + Endpoint" where
  "ZkResolver_ParseEndpoint raw =
     (case find_char CHR '':'' raw of
        None \<Rightarrow> Err (zk_error ''endpoint must be host:port'')
      | Some separator \<Rightarrow>
          (case stoul (drop (separator + 1) raw) of
             None \<Rightarrow> Err (zk_error ''endpoint port is invalid'')
           | Some port \<Rightarrow>
               let endpoint = \<lparr>ep_host = take separator raw, ep_port = ucast port\<rparr>
               in if \<not> Endpoint_IsValid endpoint then Err (zk_error ''endpoint is incomplete'')
                  else Ok endpoint))"

definition ZkResolver_ChooseInstance ::
  "(nat \<Rightarrow> 'g \<Rightarrow> nat \<times> 'g) \<Rightarrow> ServiceInstance list \<Rightarrow> 'g \<Rightarrow> (RpcError + ServiceInstance) \<times> 'g" where
  "ZkResolver_ChooseInstance pick insts g =
     (if insts = [] then (Err (zk_error ''no zookeeper instance available''), g)
      else case ChooseItem pick insts g of (inst, g1) \<Rightarrow> (Ok inst, g1))"

text \<open>The loop over the children; a child that cannot be read or parsed is left out.\<close>

fun read_instances ::
  "'z zk_api \<Rightarrow> string \<Rightarrow> string list \<Rightarrow> 'z \<Rightarrow> ServiceInstance list outcome \<times> 'z" where
  "read_instances api method_path [] z = (Returned [], z)"
| "read_instances api method_path (child # children) z =
     (case GetData api (method_path @ ''/'' @ child) z of
        (Thrown e, z1) \<Rightarrow> (Thrown e, z1)
      | (Returned data_result, z1) \<Rightarrow>
          (case read_instances api method_path children z1 of
             (Thrown e, z2) \<Rightarrow> (Thrown e, z2)
           | (Returned rest, z2) \<Rightarrow>
               (case data_result of
                  Err _ \<Rightarrow> (Returned rest, z2)
                | Ok raw \<Rightarrow>
                    (case ZkResolver_ParseEndpoint raw of
                       Err _ \<Rightarrow> (Returned rest, z2)
                     | Ok endpoint \<Rightarrow>
                         (Returned (\<lparr>inst_id = child, inst_endpoint = endpoint\<rparr> # rest), z2)))))"

definition RefreshMethod ::
  "'z zk_api \<Rightarrow> string \<Rightarrow> string \<Rightarrow> ('z, 'g) zk_resolver \<Rightarrow>
   (RpcError + ServiceInstance list) outcome \<times> ('z, 'g) zk_resolver" where
  "RefreshMethod api service_name method_name r =
     (let method_path = BuildMethodPath service_name method_name in
      case GetChildrenWatched api method_path (zr_zk r, zr_watches r) of (children_result, z1, watches) \<Rightarrow>
        let r1 = r\<lparr>zr_zk := z1, zr_watches := watches\<rparr> in
        case children_result of
          Err e \<Rightarrow> (Returned (Err e), r1)
        | Ok children \<Rightarrow>
            (case read_instances api method_path children z1 of
               (Thrown e, z2) \<Rightarrow> (Thrown e, r1\<lparr>zr_zk := z2\<rparr>)
             | (Returned insts, z2) \<Rightarrow>
                 (Returned (Ok insts),
                  r1\<lparr>zr_zk := z2, zr_cache := umap_put method_path insts (zr_cache r)\<rparr>)))"

definition ZkResolver_Resolve ::
  "'z zk_api \<Rightarrow> (nat \<Rightarrow> 'g \<Rightarrow> nat \<times> 'g) \<Rightarrow> string \<Rightarrow> string \<Rightarrow> ('z, 'g) zk_resolver \<Rightarrow>
   (RpcError + ServiceInstance) outcome \<times> ('z, 'g) zk_resolver" where
  "ZkResolver_Resolve api pick service_name method_name r =
     (let select = (\<lambda>insts r. case ZkResolver_ChooseInstance pick insts (zr_random r) of
                      (inst, g) \<Rightarrow> (Returned inst, r\<lparr>zr_random := g\<rparr>))
      in case umap_find (zr_cache r) (BuildMethodPath service_name method_name) of
           Some insts \<Rightarrow> select insts r
         | None \<Rightarrow>
             (case RefreshMethod api service_name method_name r of
                (Thrown e, r1) \<Rightarrow> (Thrown e, r1)
              | (Returned (Err e), r1) \<Rightarrow> (Returned (Err e), r1)
              | (Returned (Ok insts), r1) \<Rightarrow> select insts r1))"

text \<open>The watch callback; the result is whether an exception escaped into the library.\<close>

definition OnMethodChanged ::
  "'z zk_api \<Rightarrow> string \<Rightarrow> ('z, 'g) zk_resolver \<Rightarrow> unit outcome \<times> ('z, 'g) zk_resolver" where
  "OnMethodChanged api method_path r =
     (case find_last_char CHR ''/'' method_path of
        None \<Rightarrow> (Returned (), r)
      | Some last_separator \<Rightarrow>
          if last_separator = 0 then (Returned (), r)
          else
            let service_name = substr 1 (last_separator - 1) method_path;
                method_name = drop (last_separator + 1) method_path
            in case RefreshMethod api service_name method_name r of
                 (Thrown e, r1) \<Rightarrow> (Thrown e, r1)
               | (Returned _, r1) \<Rightarrow> (Returned (), r1))"

definition ZkRegistrar_Register ::
  "'z zk_api \<Rightarrow> string \<Rightarrow> string \<Rightarrow> Endpoint \<Rightarrow> 'z \<Rightarrow> (RpcError + unit) \<times> 'z" where
  "ZkRegistrar_Register api service_name method_name endpoint z =
     (let instance_id = Endpoint_ToString endpoint in
      case EnsurePath api (BuildServicePath service_name) z of
        (Err e, z1) \<Rightarrow> (Err e, z1)
      | (Ok _, z1) \<Rightarrow>
      (case EnsurePath api (BuildMethodPath service_name method_name) z1 of
        (Err e, z2) \<Rightarrow> (Err e, z2)
      | (Ok _, z2) \<Rightarrow>
          CreateNode api (BuildInstancePath service_name method_name instance_id) instance_id True z2))"

section \<open>The factory\<close>

datatype ('z, 'g) resolver = StaticResolver "'g static_resolver" | ZkResolver "('z, 'g) zk_resolver"

datatype registrar = NoopRegistrar | ZkRegistrar

definition CreateResolver ::
  "'z zk_api \<Rightarrow> DiscoveryConfig \<Rightarrow> 'g \<Rightarrow> 'z \<Rightarrow> ('z, 'g) resolver option" where
  "CreateResolver api config g z =
     (let static = StaticResolver \<lparr>sr_config = config, sr_random = g\<rparr> in
      if dc_backend config = kZookeeper then
        (case ZkClient_Start api (dc_zookeeper_endpoint config) z of
           None \<Rightarrow> None
         | Some (Err _, _) \<Rightarrow> Some static
         | Some (Ok _, z1) \<Rightarrow>
             Some (ZkResolver \<lparr>zr_zk = z1, zr_watches = [], zr_cache = [], zr_random = g\<rparr>))
      else Some static)"

definition CreateRegistrar :: "'z zk_api \<Rightarrow> DiscoveryConfig \<Rightarrow> 'z \<Rightarrow> (registrar \<times> 'z) option" where
  "CreateRegistrar api config z =
     (if dc_backend config = kZookeeper then
        (case ZkClient_Start api (dc_zookeeper_endpoint config) z of
           None \<Rightarrow> None
         | Some (Err _, z1) \<Rightarrow> Some (NoopRegistrar, z1)
         | Some (Ok _, z1) \<Rightarrow> Some (ZkRegistrar, z1))
      else Some (NoopRegistrar, z))"

text \<open>The virtual calls through the two interfaces.\<close>

definition Resolve ::
  "'z zk_api \<Rightarrow> (nat \<Rightarrow> 'g \<Rightarrow> nat \<times> 'g) \<Rightarrow> string \<Rightarrow> string \<Rightarrow> ('z, 'g) resolver \<Rightarrow>
   (RpcError + ServiceInstance) outcome \<times> ('z, 'g) resolver" where
  "Resolve api pick service_name method_name r =
     (case r of
        StaticResolver s \<Rightarrow> map_prod id StaticResolver (StaticResolver_Resolve pick service_name method_name s)
      | ZkResolver q \<Rightarrow> map_prod id ZkResolver (ZkResolver_Resolve api pick service_name method_name q))"

definition Register ::
  "'z zk_api \<Rightarrow> registrar \<Rightarrow> string \<Rightarrow> string \<Rightarrow> Endpoint \<Rightarrow> 'z \<Rightarrow> (RpcError + unit) \<times> 'z" where
  "Register api r service_name method_name endpoint z =
     (case r of
        NoopRegistrar \<Rightarrow> NoopRegistrar_Register service_name method_name endpoint z
      | ZkRegistrar \<Rightarrow> ZkRegistrar_Register api service_name method_name endpoint z)"

end
