(* ===== verification/DiscoveryProps.thy ===== *)
theory DiscoveryProps
  imports ServiceDiscovery
begin

text \<open>
  Properties of service discovery: what the interface \<open>ServiceResolver\<close> promises and that both
  resolvers keep it, the cache, the watch callback, and that an instance that was registered
  is found.
\<close>

section \<open>The resolver interface\<close>

text \<open>A sequence of lookups, threading the state of the resolver.\<close>

fun resolve_calls ::
  "(string \<Rightarrow> string \<Rightarrow> 'r \<Rightarrow> (RpcError + ServiceInstance) outcome \<times> 'r) \<Rightarrow> (string \<times> string) list \<Rightarrow> 'r \<Rightarrow>
   (RpcError + ServiceInstance) outcome list \<times> 'r" where
  "resolve_calls resolve [] r = ([], r)"
| "resolve_calls resolve ((s, m) # calls) r =
     (case resolve s m r of (x, r1) \<Rightarrow> case resolve_calls resolve calls r1 of (xs, r2) \<Rightarrow> (x # xs, r2))"

text \<open>
  The promise to the client: an instance that is returned has a usable endpoint, every error
  is a discovery error, and the resolver stays usable.
\<close>

locale service_resolver =
  fixes resolve :: "string \<Rightarrow> string \<Rightarrow> 'r \<Rightarrow> (RpcError + ServiceInstance) outcome \<times> 'r"
    and usable :: "'r \<Rightarrow> bool"
  assumes resolve_usable: "usable r \<Longrightarrow> resolve s m r = (x, r') \<Longrightarrow> usable r'"
    and resolve_valid: "usable r \<Longrightarrow> resolve s m r = (Returned (Ok inst), r') \<Longrightarrow>
      Endpoint_IsValid (inst_endpoint inst)"
    and resolve_error: "usable r \<Longrightarrow> resolve s m r = (Returned (Err e), r') \<Longrightarrow> err_code e = kDiscoveryError"
begin

text \<open>Any number of calls keeps the promise.\<close>

lemma resolve_calls_valid:
  assumes "usable r" and "resolve_calls resolve calls r = (xs, r')"
  shows "usable r' \<and> (\<forall>x \<in> set xs. case x of
      Returned (Ok inst) \<Rightarrow> Endpoint_IsValid (inst_endpoint inst)
    | Returned (Err e) \<Rightarrow> err_code e = kDiscoveryError
    | Thrown _ \<Rightarrow> True)"
  using assms
proof (induction calls arbitrary: r xs)
  case (Cons sm calls)
  obtain s m where sm: "sm = (s, m)" by fastforce
  obtain x r1 where x: "resolve s m r = (x, r1)" by fastforce
  obtain ys r2 where ys: "resolve_calls resolve calls r1 = (ys, r2)" by fastforce
  from Cons.prems sm x ys have eq: "xs = x # ys" "r' = r2" by simp_all
  have u: "usable r1" by (rule resolve_usable [OF Cons.prems(1) x])
  have "case x of Returned (Ok inst) \<Rightarrow> Endpoint_IsValid (inst_endpoint inst)
      | Returned (Err e) \<Rightarrow> err_code e = kDiscoveryError | Thrown _ \<Rightarrow> True"
    using resolve_valid [OF Cons.prems(1)] resolve_error [OF Cons.prems(1)] x
    by (auto split: outcome.splits sum.splits)
  with Cons.IH [OF u] ys eq show ?case by simp
qed simp

end

lemma ChooseItem_mem:
  assumes "pick_ok pick" and "items \<noteq> []" and "ChooseItem pick items g = (x, g')"
  shows "x \<in> set items"
proof -
  obtain i g1 where i: "pick (length items) g = (i, g1)" by fastforce
  from assms(1,2) i have "i < length items"
    unfolding pick_ok_def by (metis fst_conv length_greater_0_conv)
  with assms(3) i show ?thesis by (auto simp: ChooseItem_def)
qed

definition static_usable :: "'g static_resolver \<Rightarrow> bool" where
  "static_usable r \<longleftrightarrow> (\<forall>k es. umap_find (dc_static_services (sr_config r)) k = Some es \<longrightarrow>
     (\<forall>e \<in> set es. Endpoint_IsValid e))"

definition zk_usable :: "('z, 'g) zk_resolver \<Rightarrow> bool" where
  "zk_usable r \<longleftrightarrow> (\<forall>p is. umap_find (zr_cache r) p = Some is \<longrightarrow>
     (\<forall>i \<in> set is. Endpoint_IsValid (inst_endpoint i)))"

lemma StaticResolver_Resolve_result:
  assumes "pick_ok pick" and "StaticResolver_Resolve pick s m r = (x, r')"
  shows "sr_config r' = sr_config r \<and> (case x of
      Returned (Ok inst) \<Rightarrow> (\<exists>es. umap_find (dc_static_services (sr_config r)) (MakeServiceKey s m) = Some es \<and>
        inst_endpoint inst \<in> set es \<and> inst_id inst = Endpoint_ToString (inst_endpoint inst))
    | Returned (Err e) \<Rightarrow> err_code e = kDiscoveryError \<and>
        (\<forall>es. umap_find (dc_static_services (sr_config r)) (MakeServiceKey s m) = Some es \<longrightarrow> es = [])
    | Thrown _ \<Rightarrow> False)"
proof (cases "umap_find (dc_static_services (sr_config r)) (MakeServiceKey s m)")
  case None
  with assms(2) show ?thesis by (auto simp: StaticResolver_Resolve_def Let_def)
next
  case (Some es)
  show ?thesis
  proof (cases "es = []")
    case True
    with Some assms(2) show ?thesis
      by (auto simp: StaticResolver_Resolve_def Let_def StaticResolver_ChooseInstance_def)
  next
    case False
    obtain e g where e: "ChooseItem pick es (sr_random r) = (e, g)" by fastforce
    with ChooseItem_mem [OF assms(1) False e] Some False assms(2) show ?thesis
      by (auto simp: StaticResolver_Resolve_def Let_def StaticResolver_ChooseInstance_def)
  qed
qed

lemma ZkResolver_ParseEndpoint_valid:
  "ZkResolver_ParseEndpoint raw = Ok e \<Longrightarrow> Endpoint_IsValid e"
  by (auto simp: ZkResolver_ParseEndpoint_def Let_def split: option.splits if_splits)

lemma ZkResolver_ParseEndpoint_ToString:
  assumes "Endpoint_IsValid e" and "CHR '':'' \<notin> set (ep_host e)"
  shows "ZkResolver_ParseEndpoint (Endpoint_ToString e) = Ok e"
proof -
  have "stoul (nat_to_string (unat (ep_port e))) = Some (word_of_nat (unat (ep_port e)))"
    using stoul_nat_to_string [of "unat (ep_port e)" "[]"] unsigned_less [of "ep_port e", where ?'a = nat] by simp
  moreover have "ucast (word_of_nat (unat (ep_port e)) :: u64) = ep_port e"
    by (rule bit_word_eqI) (auto simp: bit_simps)
  ultimately show ?thesis
    using assms find_char_append [OF assms(2), of "nat_to_string (unat (ep_port e))"]
    by (simp add: ZkResolver_ParseEndpoint_def Endpoint_ToString_def Endpoint_IsValid_def)
qed

lemma read_instances_valid:
  "read_instances api p cs z = (Returned is, z') \<Longrightarrow> i \<in> set is \<Longrightarrow> Endpoint_IsValid (inst_endpoint i)"
proof (induction cs arbitrary: z "is" i z')
  case (Cons c cs)
  obtain d z1 where d: "GetData api (p @ ''/'' @ c) z = (d, z1)" by fastforce
  obtain t z2 where t: "read_instances api p cs z1 = (t, z2)" by fastforce
  from Cons.prems d t obtain dr rest where "d = Returned dr" "t = Returned rest"
    by (auto split: outcome.splits)
  with Cons.IH [of z1 rest z2] Cons.prems d t show ?case
    by (auto split: sum.splits simp: ZkResolver_ParseEndpoint_valid)
qed simp

lemma RefreshMethod_usable:
  assumes "zk_usable r" and "RefreshMethod api s m r = (x, r')"
  shows "zk_usable r' \<and> (case x of
      Returned (Ok is) \<Rightarrow> umap_find (zr_cache r') (BuildMethodPath s m) = Some is \<and>
        (\<forall>i \<in> set is. Endpoint_IsValid (inst_endpoint i))
    | Returned (Err e) \<Rightarrow> err_code e = kDiscoveryError \<and> zr_cache r' = zr_cache r
    | Thrown _ \<Rightarrow> zr_cache r' = zr_cache r)"
proof -
  obtain c z1 ws where c: "GetChildrenWatched api (BuildMethodPath s m) (zr_zk r, zr_watches r) = (c, z1, ws)"
    by (metis prod.collapse)
  show ?thesis
  proof (cases c)
    case (Inl e)
    then have "err_code e = kDiscoveryError"
      using c by (auto simp: GetChildrenWatched_def split: prod.splits if_splits)
    with Inl c assms show ?thesis by (auto simp: RefreshMethod_def Let_def zk_usable_def)
  next
    case (Inr cs)
    obtain t z2 where t: "read_instances api (BuildMethodPath s m) cs z1 = (t, z2)" by fastforce
    show ?thesis
    proof (cases t)
      case (Returned "is")
      with read_instances_valid [of api "BuildMethodPath s m" cs z1 "is" z2] t
      have "\<forall>i \<in> set is. Endpoint_IsValid (inst_endpoint i)" by blast
      with Returned Inr c t assms show ?thesis
        by (auto simp: RefreshMethod_def Let_def zk_usable_def split: if_splits)
    next
      case (Thrown e)
      with Inr c t assms show ?thesis by (auto simp: RefreshMethod_def Let_def zk_usable_def)
    qed
  qed
qed

lemma ZkResolver_Resolve_result:
  assumes pick: "pick_ok pick" and use: "zk_usable r" and ret: "ZkResolver_Resolve api pick s m r = (x, r')"
  shows "zk_usable r' \<and> (case x of
      Returned (Ok inst) \<Rightarrow> Endpoint_IsValid (inst_endpoint inst) \<and>
        (\<exists>is. umap_find (zr_cache r') (BuildMethodPath s m) = Some is \<and> inst \<in> set is)
    | Returned (Err e) \<Rightarrow> err_code e = kDiscoveryError
    | Thrown _ \<Rightarrow> True)"
proof -
  have select: ?thesis
    if "zk_usable q" "umap_find (zr_cache q) (BuildMethodPath s m) = Some is"
      "(x, r') = (case ZkResolver_ChooseInstance pick is (zr_random q) of
          (inst, g) \<Rightarrow> (Returned inst, q\<lparr>zr_random := g\<rparr>))" for q "is"
  proof (cases "is = []")
    case True
    with that show ?thesis by (simp add: ZkResolver_ChooseInstance_def zk_usable_def)
  next
    case False
    obtain i g where i: "ChooseItem pick is (zr_random q) = (i, g)" by fastforce
    have "i \<in> set is" by (rule ChooseItem_mem [OF pick False i])
    with that False i show ?thesis by (auto simp: ZkResolver_ChooseInstance_def zk_usable_def)
  qed
  show ?thesis
  proof (cases "umap_find (zr_cache r) (BuildMethodPath s m)")
    case (Some "is")
    with use show ?thesis by (intro select) (simp_all add: ret [symmetric] ZkResolver_Resolve_def)
  next
    case None
    obtain y r1 where y: "RefreshMethod api s m r = (y, r1)" by fastforce
    note fresh = RefreshMethod_usable [OF use y]
    show ?thesis
    proof (cases y)
      case (Thrown e)
      with None y ret fresh show ?thesis by (auto simp: ZkResolver_Resolve_def)
    next
      case (Returned w)
      show ?thesis
      proof (cases w)
        case (Inl e)
        with Returned None y ret fresh show ?thesis by (auto simp: ZkResolver_Resolve_def)
      next
        case (Inr "is")
        with Returned None y fresh show ?thesis
          by (intro select) (simp_all add: ret [symmetric] ZkResolver_Resolve_def)
      qed
    qed
  qed
qed

text \<open>The interface holds for both resolvers and for the one the factory chose.\<close>

definition resolver_usable :: "('z, 'g) resolver \<Rightarrow> bool" where
  "resolver_usable r \<longleftrightarrow> (case r of StaticResolver s \<Rightarrow> static_usable s | ZkResolver q \<Rightarrow> zk_usable q)"

lemma Resolve_result:
  assumes "pick_ok pick" and "resolver_usable r" and "Resolve api pick s m r = (x, r')"
  shows "resolver_usable r' \<and> (case x of
      Returned (Ok inst) \<Rightarrow> Endpoint_IsValid (inst_endpoint inst)
    | Returned (Err e) \<Rightarrow> err_code e = kDiscoveryError
    | Thrown _ \<Rightarrow> True)"
proof (cases r)
  case (StaticResolver q)
  obtain y q' where q': "StaticResolver_Resolve pick s m q = (y, q')" by fastforce
  with assms(3) StaticResolver have x: "x = y" "r' = StaticResolver q'" by (simp_all add: Resolve_def)
  have use: "static_usable q" using assms(2) StaticResolver by (simp add: resolver_usable_def)
  note res = StaticResolver_Resolve_result [OF assms(1) q']
  then have "static_usable q'" using use by (simp add: static_usable_def)
  moreover have "Endpoint_IsValid (inst_endpoint inst)" if "y = Returned (Ok inst)" for inst
    using res use that by (auto simp: static_usable_def)
  moreover have "err_code e = kDiscoveryError" if "y = Returned (Err e)" for e
    using res that by simp
  ultimately show ?thesis
    using x by (simp add: resolver_usable_def split: outcome.split sum.split)
next
  case (ZkResolver q)
  obtain y q' where q': "ZkResolver_Resolve api pick s m q = (y, q')" by fastforce
  with assms(3) ZkResolver have x: "x = y" "r' = ZkResolver q'" by (simp_all add: Resolve_def)
  have use: "zk_usable q" using assms(2) ZkResolver by (simp add: resolver_usable_def)
  from ZkResolver_Resolve_result [OF assms(1) use q'] x show ?thesis
    by (auto simp: resolver_usable_def split: outcome.splits sum.splits)
qed

interpretation discovery: service_resolver "Resolve api pick" "\<lambda>r. pick_ok pick \<and> resolver_usable r"
  for api :: "'z zk_api" and pick :: "nat \<Rightarrow> 'g \<Rightarrow> nat \<times> 'g"
  by unfold_locales (auto dest: Resolve_result)

text \<open>What the settings loader produces is usable.\<close>

lemma parse_endpoints_valid:
  "parse_endpoints items f = Ok es \<Longrightarrow> e \<in> set es \<Longrightarrow> Endpoint_IsValid e"
  by (induction items arbitrary: es) (auto split: sum.splits dest: ParseEndpoint_valid)

lemma LoadDiscoveryConfig_usable:
  "umap_ok config \<Longrightarrow> static_usable \<lparr>sr_config = LoadDiscoveryConfig config, sr_random = g\<rparr>"
  by (auto simp: static_usable_def static_services_find ParseEndpointList_def
      split: option.splits sum.splits dest: parse_endpoints_valid)

section \<open>Cache and watches\<close>

text \<open>A cached method is answered without talking to ZooKeeper.\<close>

lemma Resolve_cached:
  assumes "umap_find (zr_cache r) (BuildMethodPath s m) = Some is"
    and "ZkResolver_Resolve api pick s m r = (x, r')"
  shows "zr_zk r' = zr_zk r \<and> zr_cache r' = zr_cache r \<and> zr_watches r' = zr_watches r"
  using assms by (auto simp: ZkResolver_Resolve_def split: prod.splits)

text \<open>The watch callback for the path of a method refreshes that method.\<close>

lemma OnMethodChanged_refreshes:
  assumes "s \<noteq> []" and "CHR ''/'' \<notin> set m"
  shows "OnMethodChanged api (BuildMethodPath s m) r =
    (case RefreshMethod api s m r of (Thrown e, r1) \<Rightarrow> (Thrown e, r1) | (Returned _, r1) \<Rightarrow> (Returned (), r1))"
proof -
  have path: "BuildMethodPath s m = (CHR ''/'' # s) @ CHR ''/'' # m"
    by (simp add: BuildMethodPath_def BuildServicePath_def)
  have "find_last_char CHR ''/'' (BuildMethodPath s m) = Some (Suc (length s))"
    unfolding path using find_last_char_append [OF assms(2), of "CHR ''/'' # s"] by simp
  moreover have "substr 1 (length s) (BuildMethodPath s m) = s" "drop (Suc (Suc (length s))) (BuildMethodPath s m) = m"
    by (simp_all add: path substr_def)
  ultimately show ?thesis by (simp add: OnMethodChanged_def)
qed

section \<open>A registered instance is found\<close>

definition path_name :: "string \<Rightarrow> bool" where
  "path_name s \<longleftrightarrow> s \<noteq> [] \<and> CHR ''/'' \<notin> set s"

lemma CreateNode_other:
  "zk_laws api nodes \<Longrightarrow> CreateNode api p d e z = (r, z') \<Longrightarrow> q \<noteq> p \<Longrightarrow> nodes z' q = nodes z q"
  using CreateNode_nodes [of api nodes p d e z r z'] by simp

lemma ZkRegistrar_Register_node:
  assumes laws: "zk_laws api nodes" and names: "path_name s" "path_name m"
    and free: "nodes z (BuildInstancePath s m (Endpoint_ToString e)) \<in> {None, Some (Endpoint_ToString e)}"
    and ret: "ZkRegistrar_Register api s m e z = (Ok (), z')"
  shows "nodes z' (BuildInstancePath s m (Endpoint_ToString e)) = Some (Endpoint_ToString e)"
proof -
  let ?id = "Endpoint_ToString e" and ?sp = "''/'' @ s" and ?mp = "''/'' @ s @ ''/'' @ m"
  let ?ip = "BuildInstancePath s m ?id"
  have paths: "BuildServicePath s = ?sp" "BuildMethodPath s m = ?mp"
    by (simp_all add: BuildServicePath_def BuildMethodPath_def)
  have differ: "?ip \<noteq> ?sp" "?ip \<noteq> ?mp"
    by (simp_all add: BuildInstancePath_def paths)
  have slash: "CHR ''/'' \<notin> set s" "CHR ''/'' \<notin> set m" "s \<noteq> []" using names by (auto simp: path_name_def)
  obtain r1 z1 where c1: "CreateNode api ?sp [] False z = (r1, z1)" by fastforce
  obtain r2 z2 where c2: "CreateNode api ?sp [] False z1 = (r2, z2)" by fastforce
  obtain r3 z3 where c3: "CreateNode api ?mp [] False z2 = (r3, z3)" by fastforce
  have "nodes z3 ?ip = nodes z ?ip"
    using CreateNode_other [OF laws c1 differ(1)] CreateNode_other [OF laws c2 differ(1)]
      CreateNode_other [OF laws c3 differ(2)] by simp
  moreover have "r1 = Ok () \<and> r2 = Ok () \<and> r3 = Ok () \<and> CreateNode api ?ip ?id True z3 = (Ok (), z')"
    using ret unfolding ZkRegistrar_Register_def paths Let_def EnsurePath_one [OF slash(1,3)]
      EnsurePath_two [OF slash(1,2)] c1
    by (cases r1; cases r2; cases r3) (simp_all add: c2 [simplified] c3 [simplified])
  ultimately show ?thesis
    using CreateNode_nodes [OF laws, of ?ip ?id True z3 "Ok ()" z'] free by (auto split: if_splits)
qed

lemma read_instances_found:
  assumes laws: "zk_laws api nodes" and ret: "read_instances api p cs z = (Returned is, z')"
    and reach: "\<And>q n z. nodes z q \<noteq> None \<Longrightarrow> fst (fst (zoo_get api q n z)) = ZOK"
    and c: "c \<in> set cs" and node: "nodes z (p @ ''/'' @ c) = Some d"
    and parse: "ZkResolver_ParseEndpoint (take 512 d) = Ok e"
  shows "\<lparr>inst_id = c, inst_endpoint = e\<rparr> \<in> set is"
  using ret c node
proof (induction cs arbitrary: z "is" z')
  case (Cons b cs)
  obtain g z1 where g: "GetData api (p @ ''/'' @ b) z = (g, z1)" by fastforce
  note keep = GetData_value [OF laws g]
  obtain t z2 where t: "read_instances api p cs z1 = (t, z2)" by fastforce
  from Cons.prems(1) g t obtain gr rest where gt: "g = Returned gr" "t = Returned rest"
    by (auto split: outcome.splits)
  show ?case
  proof (cases "c \<in> set cs")
    case True
    have "\<lparr>inst_id = c, inst_endpoint = e\<rparr> \<in> set rest"
      using Cons.IH [of z1 rest z2] t gt True Cons.prems(3) keep by simp
    with Cons.prems(1) g t gt show ?thesis by (auto split: sum.splits)
  next
    case False
    with Cons.prems(2) have b: "b = c" by simp
    have "fst (fst (zoo_get api (p @ ''/'' @ c) 512 z)) = ZOK" using reach Cons.prems(3) by simp
    with g b gt have "\<exists>raw. gr = Ok raw" by (auto simp: GetData_def split: prod.splits if_splits)
    with keep b Cons.prems(3) gt have "gr = Ok (take 512 d)" by auto
    with Cons.prems(1) g t gt b parse show ?thesis by auto
  qed
qed simp

lemma RefreshMethod_finds:
  assumes laws: "zk_laws api nodes"
    and reach: "\<And>q n z. nodes z q \<noteq> None \<Longrightarrow> fst (fst (zoo_get api q n z)) = ZOK"
    and e: "Endpoint_IsValid e" "CHR '':'' \<notin> set (ep_host e)" "CHR ''/'' \<notin> set (ep_host e)"
      "length (Endpoint_ToString e) \<le> 512"
    and inst: "nodes (zr_zk r) (BuildInstancePath s m (Endpoint_ToString e)) = Some (Endpoint_ToString e)"
    and ref: "RefreshMethod api s m r = (Returned (Ok is), r')"
  shows "\<lparr>inst_id = Endpoint_ToString e, inst_endpoint = e\<rparr> \<in> set is"
proof -
  let ?id = "Endpoint_ToString e" and ?mp = "BuildMethodPath s m"
  have node: "nodes (zr_zk r) (?mp @ ''/'' @ ?id) = Some ?id"
    using inst by (simp add: BuildInstancePath_def)
  have "CHR ''/'' \<notin> set (nat_to_string n)" for n
    using nat_to_string_digits [of "CHR ''/''" n] by (auto simp: is_digit_def)
  with e(3) have slash: "CHR ''/'' \<notin> set ?id" by (auto simp: Endpoint_ToString_def)
  obtain rc cs z1 where ch: "zoo_wget_children api ?mp (zr_zk r) = ((rc, cs), z1)" by (metis prod.collapse)
  note kids = zk_laws_calls(4) [OF laws ch]
  from ref ch have rc: "rc = ZOK" and "\<exists>z2. read_instances api ?mp cs z1 = (Returned is, z2)"
    by (auto simp: RefreshMethod_def GetChildrenWatched_def Let_def split: if_splits prod.splits outcome.splits)
  then obtain z2 where read: "read_instances api ?mp cs z1 = (Returned is, z2)" by blast
  have c: "?id \<in> set cs" using kids rc node slash by auto
  have node1: "nodes z1 (?mp @ ''/'' @ ?id) = Some ?id" using node kids by simp
  show ?thesis
    by (rule read_instances_found [OF laws read reach c node1])
      (use e(4) ZkResolver_ParseEndpoint_ToString [OF e(1,2)] in simp_all)
qed

end
