(* ===== verification/RpcClient.thy ===== *)
theory RpcClient
  imports ClientPool RpcDispatcher DiscoveryProps
begin

text \<open>
  The client facade, \<open>src/src/rpc_client.cc\<close>: resolve, serialise, encode, round trip, decode,
  check the status, deserialise, copy. \<open>Invoke\<close> runs \<open>InvokeAsync\<close> to its end. The resolver is
  reached through its interface, so its operation is an argument. Log output is not modelled.
  The outer option is \<open>None\<close> when a transport loop does not return; \<open>Thrown\<close> is an exception of
  the resolver, which \<open>Task::Get\<close> throws again.
\<close>

record MethodDescriptor =
  md_service :: string
  md_name :: string

record ('w, 'r, 'm) rpc_client =
  cl_config :: ClientConfig
  cl_resolver :: 'r
  cl_transport :: "'w client"
  cl_pool :: "'m MessagePool"
  cl_next_request_id :: u64

definition RpcClient_new :: "ClientConfig \<Rightarrow> 'r \<Rightarrow> 'w \<Rightarrow> ('w, 'r, 'm) rpc_client" where
  "RpcClient_new config resolver w =
     \<lparr>cl_config = config, cl_resolver = resolver, cl_transport = \<lparr>cworld = w, idle_pool = []\<rparr>,
      cl_pool = MessagePool_new 32, cl_next_request_id = 1\<rparr>"

text \<open>Steps 5 and 6: from the response frame to the response message.\<close>

definition FinishInvoke ::
  "pb_headers \<Rightarrow> 'm pb_ops \<Rightarrow> SerializationContext \<Rightarrow> string \<Rightarrow> 'm \<Rightarrow> 'm MessagePool \<Rightarrow>
   (RpcError + unit) \<times> 'm \<times> 'm MessagePool" where
  "FinishInvoke hdrs pb ctx response_frame response pool =
     (case DecodeResponse hdrs response_frame of
        Err e \<Rightarrow> (Err e, response, pool)
      | Ok rpc_response \<Rightarrow>
          if \<not> RpcResponse_Ok rpc_response
          then (Err (rpc_error (resp_status rpc_response) (resp_error_text rpc_response)), response, pool)
          else
            (case Acquire pb response pool of (pooled_response, pool1) \<Rightarrow>
               (case Deserialize pb (resp_payload rpc_response) (held pooled_response) ctx of
                  (Err e, m) \<Rightarrow> (Err e, response, snd (PooledMessage_Release pb (holding pooled_response m) pool1))
                | (Ok _, m) \<Rightarrow> (Ok (), m, snd (PooledMessage_Release pb (holding pooled_response m) pool1)))))"

definition InvokeAsync ::
  "'w sys \<Rightarrow> pb_headers \<Rightarrow> 'm pb_ops \<Rightarrow>
   (string \<Rightarrow> string \<Rightarrow> 'r \<Rightarrow> (RpcError + ServiceInstance) outcome \<times> 'r) \<Rightarrow>
   MethodDescriptor \<Rightarrow> 'm \<Rightarrow> 'm \<Rightarrow> CallOptions \<Rightarrow> ('w, 'r, 'm) rpc_client \<Rightarrow>
   ((RpcError + unit) outcome \<times> 'm \<times> ('w, 'r, 'm) rpc_client) option" where
  "InvokeAsync os hdrs pb resolve meth request response options c =
     (let ctx = \<lparr>ctx_service_name = md_service meth, ctx_method_name = md_name meth\<rparr> in
      case resolve (md_service meth) (md_name meth) (cl_resolver c) of (instance_result, resolver1) \<Rightarrow>
      let c1 = c\<lparr>cl_resolver := resolver1\<rparr> in
      case instance_result of
        Thrown e \<Rightarrow> Some (Thrown e, response, c1)
      | Returned (Err e) \<Rightarrow> Some (Returned (Err e), response, c1)
      | Returned (Ok inst) \<Rightarrow>
      case Serialize pb request ctx of
        Err e \<Rightarrow> Some (Returned (Err e), response, c1)
      | Ok payload \<Rightarrow>
      let rpc_request = \<lparr>req_request_id = cl_next_request_id c1, req_service_name = md_service meth,
            req_method_name = md_name meth, req_metadata = opt_metadata options, req_payload = payload\<rparr>;
          c2 = c1\<lparr>cl_next_request_id := cl_next_request_id c1 + 1\<rparr>
      in case EncodeRequest hdrs rpc_request of
        Err e \<Rightarrow> Some (Returned (Err e), response, c2)
      | Ok frame \<Rightarrow>
      case RoundTripAsync os (inst_endpoint inst) frame options (cl_transport c2) of
        None \<Rightarrow> None
      | Some (Err e, t) \<Rightarrow> Some (Returned (Err e), response, c2\<lparr>cl_transport := t\<rparr>)
      | Some (Ok response_frame, t) \<Rightarrow>
          (case FinishInvoke hdrs pb ctx response_frame response (cl_pool c2) of
             (result, response1, pool1) \<Rightarrow>
               Some (Returned result, response1, c2\<lparr>cl_transport := t, cl_pool := pool1\<rparr>)))"

definition Invoke ::
  "'w sys \<Rightarrow> pb_headers \<Rightarrow> 'm pb_ops \<Rightarrow>
   (string \<Rightarrow> string \<Rightarrow> 'r \<Rightarrow> (RpcError + ServiceInstance) outcome \<times> 'r) \<Rightarrow>
   MethodDescriptor \<Rightarrow> 'm \<Rightarrow> 'm \<Rightarrow> ('w, 'r, 'm) rpc_client \<Rightarrow>
   ((RpcError + unit) outcome \<times> 'm \<times> ('w, 'r, 'm) rpc_client) option" where
  "Invoke os hdrs pb resolve meth request response c =
     InvokeAsync os hdrs pb resolve meth request response (cc_call_options (cl_config c)) c"

text \<open>
  The overload without options awaits the call with the default options. \<open>RoundTripAsync\<close> runs to its
  end without suspending, so the awaited task is done.
\<close>

definition InvokeAsync_default ::
  "'w sys \<Rightarrow> pb_headers \<Rightarrow> 'm pb_ops \<Rightarrow>
   (string \<Rightarrow> string \<Rightarrow> 'r \<Rightarrow> (RpcError + ServiceInstance) outcome \<times> 'r) \<Rightarrow>
   MethodDescriptor \<Rightarrow> 'm \<Rightarrow> 'm \<Rightarrow> ('w, 'r, 'm) rpc_client \<Rightarrow>
   ((RpcError + unit) outcome \<times> 'm \<times> ('w, 'r, 'm) rpc_client) option" where
  "InvokeAsync_default os hdrs pb resolve meth request response c =
     (case InvokeAsync os hdrs pb resolve meth request response (cc_call_options (cl_config c)) c of
        None \<Rightarrow> None
      | Some (invoke_result, response1, c1) \<Rightarrow> Some (invoke_result, response1, c1))"

lemma Invoke_InvokeAsync_default: "Invoke os hdrs pb resolve meth request response c = InvokeAsync_default os hdrs pb resolve meth request response c"
  by (simp add: Invoke_def InvokeAsync_default_def split: option.split)

section \<open>The last steps of a call\<close>

text \<open>
  The response message is changed only on success, the pool stays clean, and a request
  identifier in the response plays no role.
\<close>

lemma FinishInvoke_pool:
  assumes ok: "pb_ops_ok pb" "pb_wire_ok pb" and inv: "pool_inv pb pool"
    and fin: "FinishInvoke hdrs pb ctx f response pool = (r, response', pool')"
  shows "pool_inv pb pool' \<and> (r \<noteq> Ok () \<longrightarrow> response' = response) \<and>
    pb_full_name pb response' = pb_full_name pb response"
proof (cases "DecodeResponse hdrs f")
  case (Inl e)
  with fin inv show ?thesis by (auto simp: FinishInvoke_def)
next
  case (Inr resp)
  show ?thesis
  proof (cases "RpcResponse_Ok resp")
    case False
    with Inr fin inv show ?thesis by (auto simp: FinishInvoke_def)
  next
    case True
    obtain h pool1 where acq: "Acquire pb response pool = (h, pool1)" by fastforce
    note h = Acquire_blank [OF ok(1) inv acq]
    obtain d m where des: "Deserialize pb (resp_payload resp) (held h) ctx = (d, m)" by fastforce
    have m: "pb_full_name pb m = pb_full_name pb (pb_New pb response)"
      using Deserialize_type [OF ok(2) des] h(1) by simp
    have "pool_inv pb (snd (PooledMessage_Release pb (holding h m) pool1))"
      by (rule pool_inv_Release [OF ok(1) h(4) holding_inv [OF h(3,1) m]])
    with Inr True fin acq des m pb_New_type [OF ok(1), of response] show ?thesis
      by (cases d) (auto simp: FinishInvoke_def)
  qed
qed

lemma FinishInvoke_success:
  assumes ok: "pb_ops_ok pb" "pb_wire_ok pb" and inv: "pool_inv pb pool"
    and dec: "DecodeResponse hdrs f = Ok resp" and st: "resp_status resp = kOk"
    and ser: "Serialize pb answer ctx' = Ok (resp_payload resp)"
    and type: "pb_full_name pb response = pb_full_name pb answer"
  shows "\<exists>pool'. FinishInvoke hdrs pb ctx f response pool = (Ok (), answer, pool')"
proof -
  obtain h pool1 where acq: "Acquire pb response pool = (h, pool1)" by fastforce
  note h = Acquire_blank [OF ok(1) inv acq]
  have "Deserialize pb (resp_payload resp) (held h) ctx = (Ok (), answer)"
    using Deserialize_Serialize [OF ok(2) ser] h(1) type pb_New_type [OF ok(1)] by simp
  with dec st acq show ?thesis by (simp add: FinishInvoke_def RpcResponse_Ok_def)
qed

lemma FinishInvoke_failure:
  assumes "DecodeResponse hdrs f = Ok resp" and "resp_status resp \<noteq> kOk"
  shows "FinishInvoke hdrs pb ctx f response pool =
    (Err (rpc_error (resp_status resp) (resp_error_text resp)), response, pool)"
  using assms by (simp add: FinishInvoke_def RpcResponse_Ok_def)

lemma FinishInvoke_any_id:
  assumes "DecodeResponse hdrs f = Ok resp" and "DecodeResponse hdrs g = Ok (resp\<lparr>resp_request_id := n\<rparr>)"
  shows "FinishInvoke hdrs pb ctx g response pool = FinishInvoke hdrs pb ctx f response pool"
  using assms by (simp add: FinishInvoke_def RpcResponse_Ok_def)

section \<open>The call\<close>

lemma InvokeAsync_cases:
  assumes ret: "InvokeAsync os hdrs pb resolve meth request response options c = Some (x, response', c')"
  obtains (thrown) e res where "resolve (md_service meth) (md_name meth) (cl_resolver c) = (Thrown e, res)"
      "x = Thrown e" "response' = response" "c' = c\<lparr>cl_resolver := res\<rparr>"
  | (resolve) e res where "resolve (md_service meth) (md_name meth) (cl_resolver c) = (Returned (Err e), res)"
      "x = Returned (Err e)" "response' = response" "c' = c\<lparr>cl_resolver := res\<rparr>"
  | (local) e inst res i where "resolve (md_service meth) (md_name meth) (cl_resolver c) = (Returned (Ok inst), res)"
      "err_code e = kSerializeError" "x = Returned (Err e)" "response' = response"
      "c' = c\<lparr>cl_resolver := res, cl_next_request_id := i\<rparr>"
  | (transport) e inst res frame t i where
      "resolve (md_service meth) (md_name meth) (cl_resolver c) = (Returned (Ok inst), res)"
      "RoundTrip os (inst_endpoint inst) frame options (cl_transport c) = Some (Err e, t)"
      "x = Returned (Err e)" "response' = response"
      "c' = c\<lparr>cl_resolver := res, cl_next_request_id := i, cl_transport := t\<rparr>"
  | (answered) inst res payload frame t f r pool1 where
      "resolve (md_service meth) (md_name meth) (cl_resolver c) = (Returned (Ok inst), res)"
      "Serialize pb request \<lparr>ctx_service_name = md_service meth, ctx_method_name = md_name meth\<rparr> = Ok payload"
      "EncodeRequest hdrs \<lparr>req_request_id = cl_next_request_id c, req_service_name = md_service meth,
         req_method_name = md_name meth, req_metadata = opt_metadata options, req_payload = payload\<rparr> = Ok frame"
      "RoundTrip os (inst_endpoint inst) frame options (cl_transport c) = Some (Ok f, t)"
      "FinishInvoke hdrs pb \<lparr>ctx_service_name = md_service meth, ctx_method_name = md_name meth\<rparr> f response (cl_pool c)
         = (r, response', pool1)"
      "x = Returned r"
      "c' = c\<lparr>cl_resolver := res, cl_next_request_id := cl_next_request_id c + 1, cl_transport := t, cl_pool := pool1\<rparr>"
proof -
  obtain y res where y: "resolve (md_service meth) (md_name meth) (cl_resolver c) = (y, res)" by fastforce
  show ?thesis
  proof (cases y)
    case (Thrown e)
    with ret y show ?thesis by (intro thrown [of e res]) (auto simp: InvokeAsync_def Let_def)
  next
    case (Returned z)
    note y1 = this
    show ?thesis
    proof (cases z)
      case (Inl e)
      with ret y y1 show ?thesis by (intro resolve [of e res]) (auto simp: InvokeAsync_def Let_def)
    next
      case (Inr inst)
      note z = this
      let ?ctx = "\<lparr>ctx_service_name = md_service meth, ctx_method_name = md_name meth\<rparr>"
      show ?thesis
      proof (cases "Serialize pb request ?ctx")
        case (Inl e)
        with ret y y1 z Serialize_error [OF Inl] show ?thesis
          by (intro local [of inst res e "cl_next_request_id c"]) (auto simp: InvokeAsync_def Let_def)
      next
        case (Inr payload)
        note ser = this
        let ?req = "\<lparr>req_request_id = cl_next_request_id c, req_service_name = md_service meth,
         req_method_name = md_name meth, req_metadata = opt_metadata options, req_payload = payload\<rparr>"
        show ?thesis
        proof (cases "EncodeRequest hdrs ?req")
          case (Inl e)
          then have "err_code e = kSerializeError"
            by (auto simp: EncodeRequest_def EncodeFrame_def Let_def split: option.splits)
          with ret y y1 z ser Inl show ?thesis
            by (intro local [of inst res e "cl_next_request_id c + 1"]) (auto simp: InvokeAsync_def Let_def)
        next
          case (Inr frame)
          note enc = this
          obtain w t where trip: "RoundTrip os (inst_endpoint inst) frame options (cl_transport c) = Some (w, t)"
            using ret y y1 z ser enc
            by (cases "RoundTrip os (inst_endpoint inst) frame options (cl_transport c)")
              (auto simp: InvokeAsync_def RoundTripAsync_def Let_def)
          show ?thesis
          proof (cases w)
            case (Inl e)
            with ret y y1 z ser enc trip show ?thesis
              by (intro transport [of inst res frame e t "cl_next_request_id c + 1"])
                (auto simp: InvokeAsync_def RoundTripAsync_def Let_def)
          next
            case (Inr f)
            obtain r m pool1 where fin: "FinishInvoke hdrs pb ?ctx f response (cl_pool c) = (r, m, pool1)"
              by (metis prod.collapse)
            with ret y y1 z ser enc trip Inr show ?thesis
              by (intro answered [of inst res payload frame f t r pool1])
                (auto simp: InvokeAsync_def RoundTripAsync_def Let_def)
          qed
        qed
      qed
    qed
  qed
qed

text \<open>A call always returns, leaks no descriptor and touches the response only on success.\<close>

lemma InvokeAsync_returns:
  assumes "signal_laws os patience"
  shows "\<exists>x response' c'. InvokeAsync os hdrs pb resolve meth request response options c = Some (x, response', c')"
proof -
  have trip: "RoundTripAsync os e f o1 t \<noteq> None" for e f o1 t
    using RoundTrip_returns [OF assms, of e f o1 t] by (auto simp: RoundTripAsync_def)
  have "InvokeAsync os hdrs pb resolve meth request response options c \<noteq> None"
    unfolding InvokeAsync_def Let_def
    by (simp add: trip del: not_None_eq split: prod.split outcome.split sum.split option.split)
  then show ?thesis by auto
qed

lemma InvokeAsync_keeps:
  assumes laws: "fd_laws os opened" and ok: "pb_ops_ok pb" "pb_wire_ok pb"
    and inv: "client_inv opened (cl_transport c)" "pool_inv pb (cl_pool c)"
    and ret: "InvokeAsync os hdrs pb resolve meth request response options c = Some (x, response', c')"
  shows "client_inv opened (cl_transport c') \<and>
    outside_pool opened (cl_transport c') = outside_pool opened (cl_transport c) \<and> pool_inv pb (cl_pool c') \<and>
    (x \<noteq> Returned (Ok ()) \<longrightarrow> response' = response)"
  using ret
proof (cases rule: InvokeAsync_cases)
  case (transport e inst res frame t i)
  with RoundTrip_keeps_descriptors [OF laws inv(1) transport(2)] inv(2) show ?thesis by simp
next
  case (answered inst res payload frame t f r pool1)
  with RoundTrip_keeps_descriptors [OF laws inv(1) answered(4)] FinishInvoke_pool [OF ok inv(2) answered(5)]
  show ?thesis by auto
qed (use inv in simp_all)

end
