(* ===== verification/SimOS.thy ===== *)
theory SimOS
  imports ConnectionStreams
begin

text \<open>
  A small executable kernel that satisfies the contracts \<open>fd_laws\<close>, \<open>send_laws\<close>, \<open>recv_laws\<close>
  and \<open>signal_laws\<close>, so that the theorems about the parameter \<open>os\<close> can be run on a concrete
  system. Descriptors are numbered upwards; what \<open>send\<close> and \<open>recv\<close> answer is scripted
  (an error, or at most so many bytes), and after the script ends they move all bytes there
  are. It is a test bench and models no code of the repository.
\<close>

record sim =
  sim_open :: "int list"
  sim_backlog :: nat
  sim_inbox :: "int \<Rightarrow> string"
  sim_wire :: "int \<Rightarrow> string"
  sim_sends :: "(errno + nat) list"
  sim_recvs :: "(errno + nat) list"
  sim_events :: "epoll_event list list"

definition sim_boot :: sim where
  "sim_boot = \<lparr>sim_open = [0, 1, 2], sim_backlog = 0, sim_inbox = (\<lambda>_. []), sim_wire = (\<lambda>_. []),
     sim_sends = [], sim_recvs = [], sim_events = []\<rparr>"

definition sim_fresh :: "sim \<Rightarrow> int" where
  "sim_fresh w = 1 + fold max (sim_open w) 2"

definition sim_new_fd :: "sim \<Rightarrow> (errno + int) \<times> sim" where
  "sim_new_fd w = (Ok (sim_fresh w), w\<lparr>sim_open := sim_fresh w # sim_open w\<rparr>)"

definition sim_accept :: "sim \<Rightarrow> (errno + int) \<times> sim" where
  "sim_accept w =
     (case sim_backlog w of 0 \<Rightarrow> (Err EAGAIN, w) | Suc n \<Rightarrow> sim_new_fd (w\<lparr>sim_backlog := n\<rparr>))"

definition sim_put :: "int \<Rightarrow> string \<Rightarrow> sim \<Rightarrow> sim" where
  "sim_put fd d w = w\<lparr>sim_wire := (sim_wire w)(fd := sim_wire w fd @ d)\<rparr>"

definition sim_send :: "int \<Rightarrow> string \<Rightarrow> sim \<Rightarrow> (errno + nat) \<times> sim" where
  "sim_send fd d w =
     (case sim_sends w of
        [] \<Rightarrow> (Ok (length d), sim_put fd d w)
      | Err e # script \<Rightarrow> (Err e, w\<lparr>sim_sends := script\<rparr>)
      | Ok n # script \<Rightarrow> (Ok (min n (length d)), sim_put fd (take (min n (length d)) d) (w\<lparr>sim_sends := script\<rparr>)))"

definition sim_get :: "int \<Rightarrow> nat \<Rightarrow> sim \<Rightarrow> (errno + string) \<times> sim" where
  "sim_get fd n w = (Ok (take n (sim_inbox w fd)),
     w\<lparr>sim_inbox := (sim_inbox w)(fd := drop n (sim_inbox w fd))\<rparr>)"

definition sim_recv :: "int \<Rightarrow> nat \<Rightarrow> sim \<Rightarrow> (errno + string) \<times> sim" where
  "sim_recv fd n w =
     (case sim_recvs w of
        [] \<Rightarrow> if sim_inbox w fd = [] then (Err EAGAIN, w) else sim_get fd n w
      | Err e # script \<Rightarrow> (Err e, w\<lparr>sim_recvs := script\<rparr>)
      | Ok k # script \<Rightarrow> sim_get fd (min k n) (w\<lparr>sim_recvs := script\<rparr>))"

definition sim_epoll_wait :: "sim \<Rightarrow> (errno + epoll_event list) \<times> sim" where
  "sim_epoll_wait w =
     (case sim_events w of [] \<Rightarrow> (Ok [], w) | evs # rest \<Rightarrow> (Ok evs, w\<lparr>sim_events := rest\<rparr>))"

definition sim_os :: "sim sys" where
  "sim_os = \<lparr>sys_socket = sim_new_fd, sys_setsockopt = (\<lambda>fd opt w. (Ok (), w)),
     sys_getfl = (\<lambda>fd w. (Ok 2, w)), sys_setfl = (\<lambda>fd fl w. (Ok (), w)),
     sys_inet_pton = (\<lambda>host. if host = [] then None else Some 2130706433),
     sys_bind = (\<lambda>fd a p w. (Ok (), w)), sys_listen = (\<lambda>fd w. (Ok (), w)),
     sys_accept = (\<lambda>fd. sim_accept), sys_connect = (\<lambda>fd a p w. (Ok (), w)),
     sys_so_error = (\<lambda>fd w. (Ok None, w)), sys_recv = sim_recv, sys_send = sim_send,
     sys_close = (\<lambda>fd w. w\<lparr>sim_open := removeAll fd (sim_open w)\<rparr>),
     sys_epoll_create = sim_new_fd, sys_epoll_ctl = (\<lambda>ep oper fd ev w. (Ok (), w)),
     sys_epoll_wait = (\<lambda>ep n t. sim_epoll_wait), sys_strerror = (\<lambda>e. ''error'')\<rparr>"

abbreviation sim_opened :: "sim \<Rightarrow> int set" where
  "sim_opened w \<equiv> set (sim_open w)"

text \<open>The signals still to come bound the number of interrupted calls.\<close>

definition sim_patience :: "sim \<Rightarrow> nat" where
  "sim_patience w = length (sim_sends w) + length (sim_recvs w)"

lemma sim_fresh_above:
  "\<lbrakk>fd \<in> sim_opened w\<rbrakk> \<Longrightarrow> fd < sim_fresh w" "0 \<le> sim_fresh w"
proof -
  have "n \<le> fold max xs n \<and> (\<forall>x \<in> set xs. x \<le> fold max xs n)" for xs and n :: int
  proof (induction xs arbitrary: n)
    case (Cons y ys)
    from Cons.IH [of "max y n"] show ?case by auto
  qed simp
  then show "fd \<in> sim_opened w \<Longrightarrow> fd < sim_fresh w" "0 \<le> sim_fresh w"
    unfolding sim_fresh_def by (smt (verit))+
qed

lemma sim_creates_fd: "creates_fd sim_opened w (sim_new_fd w)"
  using sim_fresh_above by (fastforce simp: sim_new_fd_def)

lemma sim_fd_laws: "fd_laws sim_os sim_opened"
proof -
  have acc: "creates_fd sim_opened w (sim_accept w)" for w
  proof (cases "sim_backlog w")
    case (Suc n)
    then show ?thesis
      using sim_creates_fd [of "w\<lparr>sim_backlog := n\<rparr>"] by (simp add: sim_accept_def sim_new_fd_def sim_fresh_def)
  qed (simp add: sim_accept_def)
  show ?thesis
    by (auto simp: fd_laws_def sim_os_def sim_creates_fd acc sim_recv_def sim_get_def sim_send_def sim_put_def
        sim_epoll_wait_def split: list.split sum.split)
qed

lemma sim_send_laws: "send_laws sim_os sim_wire"
  by (auto simp: send_laws_def sim_os_def sim_send_def sim_put_def sim_recv_def sim_get_def fun_eq_iff
      split: list.split sum.split)

lemma sim_recv_laws: "recv_laws sim_os sim_inbox"
  by (auto simp: recv_laws_def sim_os_def sim_recv_def sim_get_def fun_eq_iff split: list.split sum.split)

lemma sim_signal_laws: "signal_laws sim_os sim_patience"
  by (auto simp: signal_laws_def sim_os_def sim_send_def sim_put_def sim_recv_def sim_get_def sim_patience_def
      split: list.split sum.split)

lemmas sim_defs = sim_os_def sim_send_def sim_put_def sim_recv_def sim_get_def sim_accept_def
  sim_new_fd_def sim_fresh_def sim_epoll_wait_def sim_boot_def

end
