(* ===== verification/RefHeaders.thy ===== *)
theory RefHeaders
  imports Codec
begin

text \<open>
  A concrete header serialisation that satisfies \<open>pb_headers_ok\<close>: every field is written as
  a length-prefixed string, numbers in decimal. It is not the protobuf wire format; it shows
  that the contract assumed of the generated header classes can be met, and the examples of
  the development run on it.
\<close>

definition put_str :: "string \<Rightarrow> string" where
  "put_str s = be32 (word_of_nat (length s)) @ s"

definition get_str :: "string \<Rightarrow> (string \<times> string) option" where
  "get_str s =
     (if length s < 4 then None
      else let n = unat (un_be32 (take 4 s)); r = drop 4 s
           in if length r < n then None else Some (take n r, drop n r))"

definition put_num :: "'a::len word \<Rightarrow> string" where
  "put_num w = put_str (nat_to_string (unat w))"

definition get_num :: "string \<Rightarrow> ('a::len word \<times> string) option" where
  "get_num s = map_option (\<lambda>(d, r). (word_of_nat (dec_value d), r)) (get_str s)"

definition bounded :: "string \<Rightarrow> string option" where
  "bounded b = (if length b < 2 ^ 31 then Some b else None)"

definition ref_serialize_request :: "RpcHeader \<Rightarrow> string option" where
  "ref_serialize_request h = bounded
     (put_num (hdr_request_id h) @ put_str (hdr_service_name h) @ put_str (hdr_method_name h)
      @ put_num (hdr_args_size h) @ put_num (hdr_meta_size h))"

definition ref_parse_request :: "string \<Rightarrow> int \<Rightarrow> RpcHeader option" where
  "ref_parse_request b n =
     Option.bind (get_num b) (\<lambda>(i, b1). Option.bind (get_str b1) (\<lambda>(s, b2).
     Option.bind (get_str b2) (\<lambda>(m, b3). Option.bind (get_num b3) (\<lambda>(a, b4).
     Option.bind (get_num b4) (\<lambda>(k, b5).
       if b5 = [] \<and> n = int (length b)
       then Some \<lparr>hdr_request_id = i, hdr_service_name = s, hdr_method_name = m,
                  hdr_args_size = a, hdr_meta_size = k\<rparr>
       else None)))))"

definition ref_serialize_response :: "RpcResponseHeader \<Rightarrow> string option" where
  "ref_serialize_response h = bounded
     (put_num (rhdr_request_id h) @ put_num (rhdr_status_code h) @ put_str (rhdr_error_text h)
      @ put_num (rhdr_payload_size h))"

definition ref_parse_response :: "string \<Rightarrow> int \<Rightarrow> RpcResponseHeader option" where
  "ref_parse_response b n =
     Option.bind (get_num b) (\<lambda>(i, b1). Option.bind (get_num b1) (\<lambda>(c, b2).
     Option.bind (get_str b2) (\<lambda>(t, b3). Option.bind (get_num b3) (\<lambda>(p, b4).
       if b4 = [] \<and> n = int (length b)
       then Some \<lparr>rhdr_request_id = i, rhdr_status_code = c, rhdr_error_text = t,
                  rhdr_payload_size = p\<rparr>
       else None))))"

definition ref_headers :: pb_headers where
  "ref_headers = \<lparr>SerializeRpcHeader = ref_serialize_request, ParseRpcHeader = ref_parse_request,
     SerializeRpcResponseHeader = ref_serialize_response,
     ParseRpcResponseHeader = ref_parse_response\<rparr>"

lemma get_put_str: "length s < 4294967296 \<Longrightarrow> get_str (put_str s @ r) = Some (s, r)"
  by (simp add: get_str_def put_str_def Let_def unat_u32)

lemma length_put_str [simp]: "length (put_str s) = 4 + length s"
  by (simp add: put_str_def)

lemma get_put_num:
  "length (put_num w) < 4294967296 \<Longrightarrow> get_num (put_num w @ r) = Some (w, r)"
  by (simp add: get_num_def put_num_def get_put_str)

lemma bounded_Some [simp]: "bounded b = Some c \<longleftrightarrow> c = b \<and> length b < 2 ^ 31"
  by (auto simp: bounded_def)

lemma get_put_num_end:
  "length (put_num w) < 4294967296 \<Longrightarrow> get_num (put_num w) = Some (w, [])"
  using get_put_num [of w "[]"] by simp

lemma ref_headers_ok: "pb_headers_ok ref_headers"
  unfolding pb_headers_ok_def ref_headers_def
  by (auto simp: ref_serialize_request_def ref_parse_request_def ref_serialize_response_def
      ref_parse_response_def get_put_str get_put_num get_put_num_end)

end
