(* ===== verification/RpcServer.thy ===== *)
theory RpcServer
  imports RpcDispatcher ConnectionStreams DiscoveryProps
begin

text \<open>
  The server facade, \<open>src/src/rpc_server.cc\<close>: it owns the reactor, the connection manager, the
  registry, the message pool and the dispatcher, and installs \<open>OnFrame\<close> as the frame handler.
  The state extends the record of the connection layer; the application behind the services
  is the field \<open>srv_app\<close>. Log output is not modelled. A thrown \<open>std::runtime_error\<close> is the
  constructor \<open>Threw\<close>.
\<close>

record ('w, 'm, 'a) server = "'w conn_mgr" +
  srv_config :: ServerConfig
  srv_registry :: "('m, 'a) registry"
  srv_pool :: "'m MessagePool"
  srv_app :: 'a

definition RpcServer_new :: "'w sys \<Rightarrow> ServerConfig \<Rightarrow> 'a \<Rightarrow> 'w \<Rightarrow> ('w, 'm, 'a) server" where
  "RpcServer_new os config app w =
     (let r = (Reactor_new os (sc_max_events config) w :: (cm_callback, 'w) reactor)
      in \<lparr>world = world r, epoll_fd = epoll_fd r, running = running r, max_events = max_events r,
          handlers = handlers r, listen_fd = -1, connections = [], srv_config = config,
          srv_registry = [], srv_pool = MessagePool_new 32, srv_app = app\<rparr>)"

definition RpcServer_RegisterService ::
  "('m, 'a) pb_service \<Rightarrow> ('w, 'm, 'a) server \<Rightarrow> ('w, 'm, 'a) server" where
  "RpcServer_RegisterService service s = s\<lparr>srv_registry := RegisterService service (srv_registry s)\<rparr>"

definition RpcServer_Stop :: "('w, 'm, 'a) server \<Rightarrow> ('w, 'm, 'a) server" where
  "RpcServer_Stop s = Reactor_Stop s"

definition SendFrameworkError ::
  "'w sys \<Rightarrow> pb_headers \<Rightarrow> int \<Rightarrow> u64 \<Rightarrow> RpcError \<Rightarrow> ('w, 'm, 'a) server \<Rightarrow> ('w, 'm, 'a) server run" where
  "SendFrameworkError os hdrs fd request_id err s =
     (case EncodeResponse hdrs \<lparr>resp_request_id = request_id, resp_status = err_code err,
             resp_error_text = err_message err, resp_payload = []\<rparr> of
        Err _ \<Rightarrow> returns s
      | Ok frame \<Rightarrow> Send os fd frame s)"

definition OnFrame ::
  "'w sys \<Rightarrow> pb_headers \<Rightarrow> 'm pb_ops \<Rightarrow> int \<Rightarrow> string \<Rightarrow> ('w, 'm, 'a) server \<Rightarrow> ('w, 'm, 'a) server run" where
  "OnFrame os hdrs pb fd frame s =
     (case HandleFrame hdrs pb (srv_registry s) frame (srv_pool s, srv_app s) of
        (response, pool1, app1) \<Rightarrow>
          let s1 = s\<lparr>srv_pool := pool1, srv_app := app1\<rparr> in
          case response of
            Err err \<Rightarrow>
              let request_id = (case DecodeRequest hdrs frame of
                                  Ok request \<Rightarrow> req_request_id request | Err _ \<Rightarrow> 0)
              in SendFrameworkError os hdrs fd request_id err s1
          | Ok reply \<Rightarrow> Send os fd reply s1)"

fun register_all ::
  "(string \<Rightarrow> string \<Rightarrow> Endpoint \<Rightarrow> 'z \<Rightarrow> (RpcError + unit) \<times> 'z) \<Rightarrow> Endpoint \<Rightarrow>
   ('m, 'a) RegisteredMethod list \<Rightarrow> 'z \<Rightarrow> (string + unit) \<times> 'z" where
  "register_all register endpoint [] z = (Ok (), z)"
| "register_all register endpoint (meth # methods) z =
     (case register (rm_service_name meth) (rm_method_name meth) endpoint z of
        (Err e, z1) \<Rightarrow> (Err (err_message e), z1)
      | (Ok _, z1) \<Rightarrow> register_all register endpoint methods z1)"

definition RegisterEndpoints ::
  "(string \<Rightarrow> string \<Rightarrow> Endpoint \<Rightarrow> 'z \<Rightarrow> (RpcError + unit) \<times> 'z) \<Rightarrow> ('w, 'm, 'a) server \<Rightarrow> 'z \<Rightarrow>
   (string + unit) \<times> 'z" where
  "RegisterEndpoints register s z =
     register_all register (sc_listen_endpoint (srv_config s)) (ListMethods (srv_registry s)) z"

datatype 's exit = Threw string 's | Stopped 's

definition Run ::
  "'w sys \<Rightarrow> pb_headers \<Rightarrow> 'm pb_ops \<Rightarrow>
   (string \<Rightarrow> string \<Rightarrow> Endpoint \<Rightarrow> 'z \<Rightarrow> (RpcError + unit) \<times> 'z) \<Rightarrow> ('w, 'm, 'a) server \<Rightarrow> 'z \<Rightarrow>
   ('w, 'm, 'a) server exit run" where
  "Run os hdrs pb register s z =
     (case RegisterEndpoints register s z of
        (Err message, _) \<Rightarrow> returns (Threw message s)
      | (Ok _, _) \<Rightarrow>
          (case Listen os (sc_listen_endpoint (srv_config s)) s of (listening, s1) \<Rightarrow>
             if \<not> listening
             then returns (Threw (''failed to listen on '' @ Endpoint_ToString (sc_listen_endpoint (srv_config s))) s1)
             else bind_run (Reactor_Loop os (cm_invoke os (Some (OnFrame os hdrs pb))) s1)
                    (\<lambda>s2. returns (Stopped s2))))"

section \<open>The reply to a frame\<close>

text \<open>
  The answer of the server to one frame as a function of registry, pool and application: the
  response of the dispatcher, or the framework error with the request's identifier when it can
  be read. \<open>None\<close> when the error response cannot be encoded.
\<close>

definition reply ::
  "pb_headers \<Rightarrow> 'm pb_ops \<Rightarrow> ('m, 'a) registry \<Rightarrow> string \<Rightarrow> 'm MessagePool \<times> 'a \<Rightarrow>
   string option \<times> 'm MessagePool \<times> 'a" where
  "reply hdrs pb reg frame st =
     (case HandleFrame hdrs pb reg frame st of
        (Ok f, st1) \<Rightarrow> (Some f, st1)
      | (Err err, st1) \<Rightarrow>
          ((case EncodeResponse hdrs \<lparr>resp_request_id =
                   (case DecodeRequest hdrs frame of Ok request \<Rightarrow> req_request_id request | Err _ \<Rightarrow> 0),
                   resp_status = err_code err, resp_error_text = err_message err, resp_payload = []\<rparr> of
              Err _ \<Rightarrow> None | Ok f \<Rightarrow> Some f), st1))"

lemma OnFrame_reply:
  assumes "reply hdrs pb (srv_registry s) frame (srv_pool s, srv_app s) = (answer, pool1, app1)"
  shows "OnFrame os hdrs pb fd frame s =
    (let s1 = s\<lparr>srv_pool := pool1, srv_app := app1\<rparr>
     in case answer of None \<Rightarrow> returns s1 | Some f \<Rightarrow> Send os fd f s1)"
  using assms
  by (auto simp: OnFrame_def reply_def SendFrameworkError_def Let_def split: prod.splits sum.splits)

text \<open>The replies to a sequence of frames.\<close>

fun serve_frames ::
  "pb_headers \<Rightarrow> 'm pb_ops \<Rightarrow> ('m, 'a) registry \<Rightarrow> string list \<Rightarrow> 'm MessagePool \<times> 'a \<Rightarrow>
   string list \<times> 'm MessagePool \<times> 'a" where
  "serve_frames hdrs pb reg [] st = ([], st)"
| "serve_frames hdrs pb reg (f # fs) st =
     (case reply hdrs pb reg f st of
        (answer, st1) \<Rightarrow>
          (case serve_frames hdrs pb reg fs st1 of
             (rs, st2) \<Rightarrow> (case answer of None \<Rightarrow> rs | Some r \<Rightarrow> r # rs, st2)))"

text \<open>Every reply to a decodable request carries its identifier.\<close>

lemma reply_identifies:
  assumes ok: "pb_headers_ok hdrs" "pb_ops_ok pb" "pb_wire_ok pb" and typed: "registry_typed pb reg"
    and inv: "pool_inv pb pool" and dec: "DecodeRequest hdrs frame = Ok request"
    and rep: "reply hdrs pb reg frame (pool, app) = (Some f, pool1, app1)" and short: "length f < frame_limit"
  shows "\<exists>resp. DecodeResponse hdrs f = Ok resp \<and> resp_request_id resp = req_request_id request \<and>
    (case fst (call_service pb reg request app) of
       Ok payload \<Rightarrow> resp_status resp = kOk \<and> resp_payload resp = payload \<and> resp_error_text resp = []
         \<or> resp_status resp = kSerializeError
     | Err e \<Rightarrow> resp_status resp = err_code e \<and> resp_error_text resp = err_message e \<and> resp_payload resp = []) \<and>
    pool_inv pb pool1 \<and> app1 = snd (call_service pb reg request app)"
proof -
  obtain answer app' where call: "call_service pb reg request app = (answer, app')" by fastforce
  obtain pool' where handled: "pool_inv pb pool'" "HandleFrame hdrs pb reg frame (pool, app) =
    ((case answer of
        Err e \<Rightarrow> Err e
      | Ok payload \<Rightarrow> EncodeResponse hdrs \<lparr>resp_request_id = req_request_id request, resp_status = kOk,
          resp_error_text = [], resp_payload = payload\<rparr>), pool', app')"
    using HandleFrame_refines [OF ok(2,3) typed inv dec call] by blast
  have st: "pool1 = pool'" "app1 = app'"
    using rep handled(2) by (auto simp: reply_def split: sum.splits)
  have decode: "DecodeResponse hdrs f = Ok r"
    if "EncodeResponse hdrs r = Ok f" "named_status (resp_status r)" for r
    by (rule response_roundtrip [OF ok(1) that(2,1) short])
  show ?thesis
  proof (cases answer)
    case (Inl e)
    have "err_code e \<in> {kUnknownService, kUnknownMethod, kDeserializeError, kSerializeError, kInternalError}"
      using call_service_error [of pb reg request app e app'] call Inl by simp
    then have named: "named_status (err_code e)" by (auto simp: named_status_def)
    from rep handled(2) Inl dec have "EncodeResponse hdrs \<lparr>resp_request_id = req_request_id request,
        resp_status = err_code e, resp_error_text = err_message e, resp_payload = []\<rparr> = Ok f"
      by (auto simp: reply_def split: sum.splits)
    from decode [OF this] named call Inl st handled(1) show ?thesis by simp
  next
    case (Inr payload)
    let ?r = "\<lparr>resp_request_id = req_request_id request, resp_status = kOk, resp_error_text = [], resp_payload = payload\<rparr>"
    show ?thesis
    proof (cases "EncodeResponse hdrs ?r")
      case (Inr g)
      with rep handled(2) \<open>answer = Inr payload\<close> have "g = f" by (auto simp: reply_def)
      with Inr decode [of ?r] call \<open>answer = Inr payload\<close> st handled(1) show ?thesis
        by (simp add: named_status_def)
    next
      case (Inl e)
      then have e: "e = rpc_error kSerializeError ''failed to serialize response header''"
        by (auto simp: EncodeResponse_def EncodeFrame_def Let_def split: option.splits)
      from rep handled(2) Inl \<open>answer = Inr payload\<close> dec e
      have "EncodeResponse hdrs \<lparr>resp_request_id = req_request_id request,
        resp_status = kSerializeError, resp_error_text = ''failed to serialize response header'', resp_payload = []\<rparr> = Ok f"
        by (auto simp: reply_def split: sum.splits)
      from decode [OF this] call \<open>answer = Inr payload\<close> st handled(1) show ?thesis
        by (simp add: named_status_def)
    qed
  qed
qed

end
