(* ===== verification/SimServices.thy ===== *)
theory SimServices
  imports SimOS RefHeaders RpcServer DiscoveryProps
begin

text \<open>
  A concrete protobuf library, a service, a ZooKeeper ensemble and a random engine, on which
  the theorems about these parameters can be run. As \<open>SimOS\<close> it is a test bench and models
  no code of the repository.
\<close>

section \<open>Messages\<close>

text \<open>A message is its type name and its content, which is also its wire form.\<close>

type_synonym sim_msg = "string \<times> string"

definition sim_pb :: "sim_msg pb_ops" where
  "sim_pb = \<lparr>pb_full_name = fst, pb_New = (\<lambda>m. (fst m, [])), pb_Clear = (\<lambda>m. (fst m, [])),
     pb_SerializeToString = (\<lambda>m. if length (snd m) < 2 ^ 31 then Some (snd m) else None),
     pb_ParseFromArray = (\<lambda>b n t. (n = int (length b), (fst t, b)))\<rparr>"

lemma sim_pb_ok: "pb_ops_ok sim_pb"
  by (simp add: pb_ops_ok_def sim_pb_def)

lemma sim_pb_wire_ok: "pb_wire_ok sim_pb"
  by (auto simp: pb_wire_ok_def sim_pb_def split: if_splits)

section \<open>A service\<close>

text \<open>\<open>Echo.Say\<close> answers with its argument and counts its calls; \<open>Echo.Fail\<close> sets the controller.\<close>

definition echo :: "(sim_msg, nat) pb_service" where
  "echo = \<lparr>svc_name = ''Echo'', svc_methods = [''Say'', ''Fail''],
     svc_request_prototype = (\<lambda>_. (''Req'', [])), svc_response_prototype = (\<lambda>_. (''Resp'', [])),
     svc_call = (\<lambda>meth c rq rs n.
       if meth = ''Say'' then (True, c, rq, (fst rs, snd rq), Suc n)
       else (True, SetFailed ''no'' c, rq, rs, n))\<rparr>"

definition echo_registry :: "(sim_msg, nat) registry" where
  "echo_registry = RegisterService echo []"

lemma echo_registry_eq: "echo_registry =
  [(''Echo.Say'', \<lparr>rm_service_name = ''Echo'', rm_method_name = ''Say'', rm_service = echo, rm_method = ''Say''\<rparr>),
   (''Echo.Fail'', \<lparr>rm_service_name = ''Echo'', rm_method_name = ''Fail'', rm_service = echo, rm_method = ''Fail''\<rparr>)]"
  by (simp add: echo_registry_def RegisterService_def method_key_def echo_def)

lemma echo_typed: "service_typed sim_pb echo"
  by (auto simp: service_typed_def echo_def sim_pb_def split: if_splits)

lemma echo_registry_typed: "registry_typed sim_pb echo_registry"
  by (simp add: registry_typed_def echo_registry_eq ListMethods_def echo_typed)

lemma echo_registry_ok: "registry_ok echo_registry"
  unfolding echo_registry_def
  by (rule registry_ok_Register) (simp_all add: registry_ok_def service_ok_def dot_free_def echo_def)

section \<open>A ZooKeeper ensemble\<close>

definition zk_children :: "(string, string) umap \<Rightarrow> string \<Rightarrow> string list" where
  "zk_children z p = map (\<lambda>(q, _). drop (length p + 1) q)
     (filter (\<lambda>(q, _). take (length p + 1) q = p @ ''/'' \<and> CHR ''/'' \<notin> set (drop (length p + 1) q)) z)"

definition sim_zk :: "(string, string) umap zk_api" where
  "sim_zk = \<lparr>zookeeper_init = (\<lambda>addr z. (True, z)), zk_session = Some,
     zoo_exists = (\<lambda>p z. (if umap_find z p = None then ZNONODE else ZOK, z)),
     zoo_create = (\<lambda>p d e z. if umap_find z p = None then (ZOK, umap_put p d z) else (-110, z)),
     zoo_get = (\<lambda>p n z. (case umap_find z p of
        None \<Rightarrow> (ZNONODE, [], 0) | Some d \<Rightarrow> (ZOK, take n d, int (length (take n d))), z)),
     zoo_get_children = (\<lambda>p z. ((ZOK, zk_children z p), z)),
     zoo_wget_children = (\<lambda>p z. ((ZOK, zk_children z p), z))\<rparr>"

lemma zk_children_set:
  "set (zk_children z p) = {c. CHR ''/'' \<notin> set c \<and> umap_find z (p @ ''/'' @ c) \<noteq> None}"
proof -
  have "c \<in> set (zk_children z p) \<longleftrightarrow> CHR ''/'' \<notin> set c \<and> (p @ ''/'' @ c) \<in> fst ` set z" for c
  proof
    assume "c \<in> set (zk_children z p)"
    then obtain q d where q: "(q, d) \<in> set z" "take (length p + 1) q = p @ ''/''"
      "CHR ''/'' \<notin> set c" "c = drop (length p + 1) q"
      by (auto simp: zk_children_def)
    then have "q = p @ ''/'' @ c" using append_take_drop_id [of "length p + 1" q] by simp
    with q show "CHR ''/'' \<notin> set c \<and> (p @ ''/'' @ c) \<in> fst ` set z" by force
  next
    assume "CHR ''/'' \<notin> set c \<and> (p @ ''/'' @ c) \<in> fst ` set z"
    then show "c \<in> set (zk_children z p)" by (force simp: zk_children_def)
  qed
  then show ?thesis by (auto simp: umap_find_None)
qed

lemma sim_zk_laws: "zk_laws sim_zk umap_find"
  unfolding zk_laws_def
  by (intro conjI) (auto simp: sim_zk_def zk_children_set ZOK_def ZNONODE_def split: if_splits option.splits)

lemma sim_read_instances: "\<exists>is. read_instances sim_zk p cs z = (Returned is, z)"
proof (induction cs)
  case (Cons c cs)
  have "\<exists>d. GetData sim_zk (p @ ''/'' @ c) z = (Returned d, z)"
    by (auto simp: GetData_def sim_zk_def split: option.split)
  with Cons show ?case by (fastforce split: sum.splits)
qed simp

definition sim_pick :: "nat \<Rightarrow> nat \<Rightarrow> nat \<times> nat" where
  "sim_pick n g = (g mod n, g + 1)"

lemma sim_pick_ok: "pick_ok sim_pick"
  by (simp add: pick_ok_def sim_pick_def)

end
