(* ===== verification/ClientGuarantees.thy ===== *)
theory ClientGuarantees
  imports RpcClient SimServices
begin

text \<open>
  What the client guarantees: a round trip always ends, leaks no descriptor and keeps the idle
  pool sound whatever the network does; a successful one has put exactly the request on the
  connection and returns the first frame that came back; a call changes the caller's response
  only on success.
\<close>

section \<open>Closing the transport\<close>

lemma fold_CloseSocket_opened:
  assumes "fd_laws os opened" and "\<forall>fd \<in> set fds. 0 \<le> fd"
  shows "opened (fold (CloseSocket os) fds w) = opened w - set fds"
  using assms(2)
proof (induction fds arbitrary: w)
  case (Cons fd fds)
  then have "opened (fold (CloseSocket os) fds (CloseSocket os fd w)) = opened w - {fd} - set fds"
    by (simp add: CloseSocket_opened [OF assms(1)])
  then show ?case by auto
qed simp

lemma pooled_concat:
  "umap_ok p \<Longrightarrow> pooled p = set (concat (map snd p))"
proof (intro set_eqI iffI)
  fix fd
  assume ok: "umap_ok p" and "fd \<in> pooled p"
  then obtain k where "fd \<in> set (idle_of p k)" by (auto simp: pooled_def)
  then obtain b where "umap_find p k = Some b" "fd \<in> set b" by (cases "umap_find p k") (simp_all add: idle_of_def)
  then show "fd \<in> set (concat (map snd p))" using umap_find_mem [OF ok] by force
next
  fix fd
  assume ok: "umap_ok p" and "fd \<in> set (concat (map snd p))"
  then obtain k b where "(k, b) \<in> set p" "fd \<in> set b" by auto
  then have "fd \<in> set (idle_of p k)" using umap_find_mem [OF ok, of k b] by (simp add: idle_of_def)
  then show "fd \<in> pooled p" by (auto simp: pooled_def)
qed

section \<open>A server's answer on the test bench\<close>

text \<open>The first descriptor is 3, and the frame \<open>g\<close> waits there to be read.\<close>

definition answered_world :: "string \<Rightarrow> sim" where
  "answered_world g = sim_boot\<lparr>sim_inbox := (\<lambda>_. [])(3 := g)\<rparr>"

definition demo_client :: "sim \<Rightarrow> sim client" where
  "demo_client w = \<lparr>cworld = w, idle_pool = []\<rparr>"

lemma demo_client_inv: "client_inv sim_opened (demo_client w)"
  by (simp add: client_inv_def demo_client_def idle.within_limit_def idle_of_def pooled_def)

lemma demo_connect:
  "BorrowConnection sim_os \<lparr>ep_host = ''h'', ep_port = 1\<rparr> opts (demo_client (answered_world g)) =
     (Ok 3, demo_client ((answered_world g)\<lparr>sim_open := [3, 0, 1, 2]\<rparr>))"
  by (simp add: BorrowConnection_def ConnectTo_def ConfigureSocket_def pop_idle_def demo_client_def Let_def
      sim_os_def sim_new_fd_def sim_fresh_def answered_world_def sim_boot_def)

lemma demo_send:
  assumes "sim_sends w = []" "d \<noteq> []"
  shows "SendAll sim_os 3 d w = Some (Ok (), sim_put 3 d w)"
  unfolding SendAll_def using assms
  by (subst send_from.simps, simp add: sim_os_def sim_send_def, subst send_from.simps, simp)

lemma demo_recv:
  assumes "sim_recvs w = []" "sim_inbox w 3 = d @ rest" "length d = n" "0 < n"
  shows "RecvAll sim_os 3 n w = Some (Ok d, w\<lparr>sim_inbox := (sim_inbox w)(3 := rest)\<rparr>)"
proof -
  have "d \<noteq> []" using assms by auto
  then show ?thesis
    unfolding RecvAll_def using assms
    by (subst recv_until.simps, simp add: sim_os_def sim_recv_def sim_get_def, subst recv_until.simps, simp)
qed

lemma demo_receive:
  assumes g: "acceptable_frame g" and w: "sim_recvs w = []" "sim_inbox w 3 = g"
  shows "\<exists>w2. ReceiveFrame sim_os 3 w = Some (Ok g, w2)"
proof -
  let ?w = "w\<lparr>sim_inbox := (sim_inbox w)(3 := drop 4 g)\<rparr>" and ?n = "un_be32 (take 4 g)"
  from g have len: "8 \<le> length g" "length g = 4 + unat ?n" and ok: "\<not> bad_prefix ?n"
    by (simp_all add: acceptable_frame_def well_framed_def)
  have "RecvAll sim_os 3 4 w = Some (Ok (take 4 g), ?w)"
    by (rule demo_recv) (use w len in simp_all)
  moreover have "RecvAll sim_os 3 (unat ?n) ?w = Some (Ok (drop 4 g), ?w\<lparr>sim_inbox := (sim_inbox ?w)(3 := [])\<rparr>)"
    by (rule demo_recv) (use w len in simp_all)
  ultimately show ?thesis
    using ok by (simp add: ReceiveFrame_def receive_frame_with_def bad_prefix_def Let_def)
qed

lemma demo_round_trip:
  assumes "acceptable_frame g" and "f \<noteq> []"
  shows "\<exists>c'. RoundTrip sim_os \<lparr>ep_host = ''h'', ep_port = 1\<rparr> f opts (demo_client (answered_world g)) = Some (Ok g, c')"
proof -
  let ?w = "sim_put 3 f ((answered_world g)\<lparr>sim_open := [3, 0, 1, 2]\<rparr>)"
  have w: "sim_recvs ?w = []" "sim_inbox ?w 3 = g" "sim_sends (answered_world g) = []"
    by (simp_all add: sim_put_def answered_world_def sim_boot_def)
  obtain w2 where "ReceiveFrame sim_os 3 ?w = Some (Ok g, w2)" using demo_receive [OF assms(1) w(1,2)] by blast
  moreover have "cworld (demo_client w) = w" for w by (simp add: demo_client_def)
  ultimately show ?thesis using w(3) assms(2) by (simp add: RoundTrip_def demo_connect demo_send)
qed

definition waiting_frame :: string where
  "waiting_frame = be32 4 @ be32 100"

lemma waiting_frame_ok: "acceptable_frame waiting_frame"
  by (simp add: acceptable_frame_length waiting_frame_def well_framed_def)

section \<open>Guarantees\<close>

text \<open>
  C9. A round trip always ends and leaks nothing: for every network behaviour in which signals
  come only finitely often, \<open>RoundTrip\<close> returns; afterwards the idle pool holds distinct open
  descriptors within its limit, every descriptor it opened is closed again or in the pool, and
  a failure is reported as a network error or an invalid packet.
\<close>

theorem RoundTrip_total:
  assumes laws: "fd_laws os opened" "send_laws os wire" "recv_laws os inbox" "signal_laws os patience"
    and inv: "client_inv opened c"
  shows "\<exists>r c'. RoundTrip os endpoint frame opts c = Some (r, c') \<and> client_inv opened c' \<and>
    outside_pool opened c' = outside_pool opened c \<and>
    (case r of Err err \<Rightarrow> err_code err \<in> {kNetworkError, kInvalidPacket} | Ok resp \<Rightarrow> acceptable_frame resp)"
proof -
  obtain r c' where ret: "RoundTrip os endpoint frame opts c = Some (r, c')"
    using RoundTrip_returns [OF laws(4)] by blast
  have "case r of Err err \<Rightarrow> err_code err \<in> {kNetworkError, kInvalidPacket} | Ok resp \<Rightarrow> acceptable_frame resp"
  proof (cases r)
    case (Inl err)
    then show ?thesis using RoundTrip_error_codes [OF laws(1-3) inv] ret by simp
  next
    case (Inr resp)
    then show ?thesis using RoundTrip_streams [OF laws(2,3)] ret by fastforce
  qed
  with ret RoundTrip_keeps_descriptors [OF laws(1) inv ret] show ?thesis by blast
qed

theorem RoundTrip_total_witness:
  "\<exists>r c'. RoundTrip sim_os \<lparr>ep_host = ''h'', ep_port = 1\<rparr> ''ping'' default_call_options
       (demo_client (sim_boot\<lparr>sim_recvs := [Err EINTR, Ok 2, Err (EOTHER 104)]\<rparr>)) = Some (r, c') \<and>
     client_inv sim_opened c'"
  using RoundTrip_total [OF sim_fd_laws sim_send_laws sim_recv_laws sim_signal_laws demo_client_inv] by blast

text \<open>
  C10. A successful round trip is an exchange on one connection: the request's bytes are
  appended to what this connection has sent, nothing else is sent, and the result is exactly
  the next frame of its incoming bytes, which is well formed; the connection goes back to the
  pool of the endpoint.
\<close>

theorem RoundTrip_exchange:
  assumes laws: "send_laws os wire" "recv_laws os inbox"
    and ret: "RoundTrip os endpoint frame opts c = Some (Ok resp, c')"
  shows "\<exists>fd c1 w w2. BorrowConnection os endpoint opts c = (Ok fd, c1) \<and>
      SendAll os fd frame (cworld c1) = Some (Ok (), w) \<and>
      wire w = (wire (cworld c1))(fd := wire (cworld c1) fd @ frame) \<and>
      ReceiveFrame os fd w = Some (Ok resp, w2) \<and>
      inbox w fd = resp @ inbox w2 fd \<and> acceptable_frame resp \<and>
      c' = ReturnConnection os endpoint fd (c1\<lparr>cworld := w2\<rparr>)"
  by (rule RoundTrip_streams [OF assms])

theorem RoundTrip_exchange_witness:
  "\<exists>fd w w2. SendAll sim_os fd ''ping'' w = Some (Ok (), w2) \<and> sim_wire w2 fd = sim_wire w fd @ ''ping'' \<and>
     sim_inbox w2 fd = waiting_frame @ [] \<and> acceptable_frame waiting_frame"
proof -
  obtain c' where ret: "RoundTrip sim_os \<lparr>ep_host = ''h'', ep_port = 1\<rparr> ''ping'' default_call_options
      (demo_client (answered_world waiting_frame)) = Some (Ok waiting_frame, c')"
    using demo_round_trip [OF waiting_frame_ok, of "''ping''"] by auto
  from RoundTrip_exchange [OF sim_send_laws sim_recv_laws ret]
  obtain fd c1 w w2 where x: "BorrowConnection sim_os \<lparr>ep_host = ''h'', ep_port = 1\<rparr> default_call_options
      (demo_client (answered_world waiting_frame)) = (Ok fd, c1)"
    "SendAll sim_os fd ''ping'' (cworld c1) = Some (Ok (), w)"
    "sim_wire w = (sim_wire (cworld c1))(fd := sim_wire (cworld c1) fd @ ''ping'')"
    "acceptable_frame waiting_frame"
    by (elim exE conjE)
  have "fd = 3" "cworld c1 = (answered_world waiting_frame)\<lparr>sim_open := [3, 0, 1, 2]\<rparr>"
    using x(1) unfolding demo_connect by (auto simp: demo_client_def)
  moreover from this have "w = sim_put 3 ''ping'' ((answered_world waiting_frame)\<lparr>sim_open := [3, 0, 1, 2]\<rparr>)"
    using x(2) by (simp add: demo_send answered_world_def sim_boot_def)
  ultimately have "sim_inbox w fd = waiting_frame @ []"
    by (simp add: sim_put_def answered_world_def)
  with x(2-4) show ?thesis by (intro exI conjI) (assumption | simp)+
qed

text \<open>
  C28. \<open>ReceiveFrame\<close> reads exactly one frame: what it returns is the first frame that the
  server's framing would cut off the same bytes, and the rest stays on the connection; when it
  reports an invalid packet the incoming bytes do begin with an illegal length.
\<close>

theorem ReceiveFrame_first_frame:
  assumes "recv_laws os inbox" and "ReceiveFrame os fd w = Some (r, w')"
  shows "case r of
      Ok f \<Rightarrow> inbox w fd = f @ inbox w' fd \<and> acceptable_frame f \<and>
        cut_frames (inbox w fd) = (let (fs, rest, good) = cut_frames (inbox w' fd) in (f # fs, rest, good))
    | Err err \<Rightarrow> err_code err = kNetworkError \<or>
        err_code err = kInvalidPacket \<and> cut_frames (inbox w fd) = ([], inbox w fd, False)"
proof (cases r)
  case (Inl err)
  then show ?thesis using ReceiveFrame_Err [OF assms(1)] assms(2) by simp
next
  case (Inr f)
  have "inbox w fd = f @ inbox w' fd"
    using ReceiveFrame_Ok(2) [OF assms(1), of fd w f w'] assms(2) Inr by (metis fun_upd_same)
  with ReceiveFrame_Ok(1,3) [OF assms(1), of fd w f w'] assms(2) Inr show ?thesis by simp
qed

theorem ReceiveFrame_first_frame_witness:
  "\<exists>w'. ReceiveFrame sim_os 3 (answered_world waiting_frame) = Some (Ok waiting_frame, w') \<and>
     sim_inbox (answered_world waiting_frame) 3 = waiting_frame @ sim_inbox w' 3"
proof -
  have "sim_recvs (answered_world waiting_frame) = []" "sim_inbox (answered_world waiting_frame) 3 = waiting_frame"
    by (simp_all add: answered_world_def sim_boot_def)
  from demo_receive [OF waiting_frame_ok this]
  obtain w2 where ret: "ReceiveFrame sim_os 3 (answered_world waiting_frame) = Some (Ok waiting_frame, w2)" by blast
  from ReceiveFrame_first_frame [OF sim_recv_laws ret] ret show ?thesis by auto
qed

text \<open>
  Destroying the transport closes exactly the idle connections: every descriptor of the
  pool is closed, no other one is.
\<close>

lemma transport_destroy_closes_pool:
  assumes "fd_laws os opened" and "client_inv opened c" and "umap_ok (idle_pool c)"
  shows "opened (cworld (TcpClientTransport_destroy os c)) = outside_pool opened c \<and>
    idle_pool (TcpClientTransport_destroy os c) = []"
proof -
  have "\<forall>fd \<in> set (concat (map snd (idle_pool c))). 0 \<le> fd"
    using assms(2,3) by (simp add: client_inv_def pooled_concat)
  from fold_CloseSocket_opened [OF assms(1) this, of "cworld c"] show ?thesis
    by (simp only: TcpClientTransport_destroy_def outside_pool_def pooled_concat [OF assms(3)]) simp
qed

section \<open>Calls\<close>

text \<open>
  C27. A call always ends and keeps the client sound: \<open>InvokeAsync\<close> returns for every resolver and
  network; afterwards the connection pool and the message pool are as sound as before, no
  descriptor is lost, and the caller's response object is unchanged unless the call succeeded.
\<close>

theorem InvokeAsync_total:
  assumes laws: "fd_laws os opened" "signal_laws os patience" and pb: "pb_ops_ok pb" "pb_wire_ok pb"
    and inv: "client_inv opened (cl_transport c)" "pool_inv pb (cl_pool c)"
  shows "\<exists>x response' c'.
    InvokeAsync os hdrs pb resolve meth request response options c = Some (x, response', c') \<and>
    client_inv opened (cl_transport c') \<and> pool_inv pb (cl_pool c') \<and>
    outside_pool opened (cl_transport c') = outside_pool opened (cl_transport c) \<and>
    (x \<noteq> Returned (Ok ()) \<longrightarrow> response' = response)"
proof -
  obtain x response' c' where
    ret: "InvokeAsync os hdrs pb resolve meth request response options c = Some (x, response', c')"
    using InvokeAsync_returns [OF laws(2), of hdrs pb resolve meth request response options c] by (elim exE)
  with InvokeAsync_keeps [OF laws(1) pb inv ret] show ?thesis
    by (intro exI [of _ x] exI [of _ response'] exI [of _ c']) simp
qed

definition demo_resolve :: "string \<Rightarrow> string \<Rightarrow> unit \<Rightarrow> (RpcError + ServiceInstance) outcome \<times> unit" where
  "demo_resolve s m r = (Returned (Ok \<lparr>inst_id = ''h:1'', inst_endpoint = \<lparr>ep_host = ''h'', ep_port = 1\<rparr>\<rparr>), r)"

definition demo_rpc_client :: "sim \<Rightarrow> (sim, unit, sim_msg) rpc_client" where
  "demo_rpc_client w = \<lparr>cl_config = \<lparr>cc_discovery = \<lparr>dc_backend = kStatic, dc_zookeeper_endpoint = default_endpoint,
       dc_selection_policy = kRandom, dc_static_services = []\<rparr>, cc_serialization = kProtobuf,
       cc_call_options = default_call_options\<rparr>, cl_resolver = (), cl_transport = demo_client w,
     cl_pool = MessagePool_new 32, cl_next_request_id = 1\<rparr>"

theorem InvokeAsync_total_witness:
  "\<exists>x response' c'. InvokeAsync sim_os ref_headers sim_pb demo_resolve
       \<lparr>md_service = ''Echo'', md_name = ''Say''\<rparr> (''Req'', ''hi'') (''Resp'', ''old'') default_call_options
       (demo_rpc_client sim_boot) = Some (x, response', c') \<and>
     client_inv sim_opened (cl_transport c') \<and> pool_inv sim_pb (cl_pool c')"
proof -
  have "client_inv sim_opened (cl_transport (demo_rpc_client sim_boot))" "pool_inv sim_pb (cl_pool (demo_rpc_client sim_boot))"
    by (simp_all add: demo_rpc_client_def demo_client_inv pool_inv_new)
  from InvokeAsync_total [OF sim_fd_laws sim_signal_laws sim_pb_ok sim_pb_wire_ok this, of ref_headers demo_resolve
      "\<lparr>md_service = ''Echo'', md_name = ''Say''\<rparr>" "(''Req'', ''hi'')" "(''Resp'', ''old'')" default_call_options]
  show ?thesis by (elim exE conjE) (intro exI conjI)
qed

text \<open>
  The client never checks the identifier of a response: two answers that differ only in
  their request identifiers are taken alike, so an answer to an earlier request that is still
  on a pooled connection is accepted as the answer to the current one.
\<close>

lemma FinishInvoke_ignores_id:
  assumes "DecodeResponse hdrs f = Ok resp" and "DecodeResponse hdrs g = Ok (resp\<lparr>resp_request_id := n\<rparr>)"
  shows "FinishInvoke hdrs pb ctx g response pool = FinishInvoke hdrs pb ctx f response pool"
  by (rule FinishInvoke_any_id [OF assms])

definition answer_with_id :: "u64 \<Rightarrow> RpcResponse" where
  "answer_with_id n = \<lparr>resp_request_id = n, resp_status = kOk, resp_error_text = [], resp_payload = ''hi''\<rparr>"

lemma answer_with_id_frame:
  assumes "n \<in> {1, 2}"
  obtains f where "EncodeResponse ref_headers (answer_with_id n) = Ok f"
    "DecodeResponse ref_headers f = Ok (answer_with_id n)" "acceptable_frame f"
proof -
  have "\<exists>f. EncodeResponse ref_headers (answer_with_id n) = Ok f \<and> length f \<le> 1000"
  proof -
    from assms consider "n = 1" | "n = 2" by auto
    then show ?thesis
      by cases (simp_all add: EncodeResponse_def EncodeFrame_def answer_with_id_def ref_headers_def kLengthPrefixSize_def
        ref_serialize_response_def bounded_def put_num_def put_str_def Let_def nat_to_string.simps status_to_int32_def)
  qed
  then obtain f where f: "EncodeResponse ref_headers (answer_with_id n) = Ok f" "length f \<le> 1000" by blast
  then have short: "length f < frame_limit" by simp
  have "named_status (resp_status (answer_with_id n))" by (simp add: answer_with_id_def named_status_def)
  from response_roundtrip [OF ref_headers_ok this f(1) short] EncodeResponse_framed [OF f(1) short] f that
  show ?thesis by (simp add: acceptable_frame_length)
qed

lemma FinishInvoke_ignores_id_example:
  "\<exists>f g. EncodeResponse ref_headers (answer_with_id 1) = Ok f \<and> EncodeResponse ref_headers (answer_with_id 2) = Ok g \<and>
     FinishInvoke ref_headers sim_pb \<lparr>ctx_service_name = ''Echo'', ctx_method_name = ''Say''\<rparr> g (''Resp'', [])
       (MessagePool_new 32) =
     FinishInvoke ref_headers sim_pb \<lparr>ctx_service_name = ''Echo'', ctx_method_name = ''Say''\<rparr> f (''Resp'', [])
       (MessagePool_new 32)"
proof -
  obtain f where f: "EncodeResponse ref_headers (answer_with_id 1) = Ok f"
    "DecodeResponse ref_headers f = Ok (answer_with_id 1)" by (rule answer_with_id_frame [of 1]) simp_all
  obtain g where g: "EncodeResponse ref_headers (answer_with_id 2) = Ok g"
    "DecodeResponse ref_headers g = Ok (answer_with_id 2)" by (rule answer_with_id_frame [of 2]) simp_all
  have "DecodeResponse ref_headers g = Ok ((answer_with_id 1)\<lparr>resp_request_id := 2\<rparr>)"
    using g(2) by (simp add: answer_with_id_def)
  from f(1) g(1) FinishInvoke_ignores_id [OF f(2) this] show ?thesis by (intro exI conjI)
qed

end
