(* ===== verification/ServerProps.thy ===== *)
theory ServerProps
  imports RpcServer
begin

text \<open>
  The server as a whole: its frame handler keeps the contracts of the connection layer, so
  that every state of a serving program is well formed and a connection receives exactly the
  replies to the frames it sent, in order; and what happens when the peer is gone.
\<close>

section \<open>The handler keeps the contracts of the connection layer\<close>

lemma server_fields_Close [simp]:
  "srv_registry (Close os fd s) = srv_registry s" "srv_pool (Close os fd s) = srv_pool s"
  "srv_app (Close os fd s) = srv_app s" "srv_config (Close os fd s) = srv_config s"
  by (simp_all add: Close_def Let_def Reactor_Remove_def split: option.split)

lemma server_fields_UpdateInterest [simp]:
  "srv_registry (UpdateInterest os fd b s) = srv_registry s" "srv_pool (UpdateInterest os fd b s) = srv_pool s"
  "srv_app (UpdateInterest os fd b s) = srv_app s" "srv_config (UpdateInterest os fd b s) = srv_config s"
  by (simp_all add: UpdateInterest_def Reactor_Update_def split: option.split)

lemma server_fields_HandleWritable:
  fixes s s' :: "('w, 'm, 'a) server"
  assumes "HandleWritable os fd s = returns s'"
  shows "srv_registry s' = srv_registry s \<and> srv_pool s' = srv_pool s \<and> srv_app s' = srv_app s \<and>
    srv_config s' = srv_config s"
  using assms
  by (rule HandleWritable_rule [where I = "\<lambda>t. srv_registry t = srv_registry s \<and> srv_pool t = srv_pool s \<and>
        srv_app t = srv_app s \<and> srv_config t = srv_config s"]) simp_all

lemma server_fields_Send:
  fixes s s' :: "('w, 'm, 'a) server"
  assumes "Send os fd f s = returns s'"
  shows "srv_registry s' = srv_registry s \<and> srv_pool s' = srv_pool s \<and> srv_app s' = srv_app s \<and>
    srv_config s' = srv_config s"
  using assms by (auto simp: Send_def split: option.splits dest: server_fields_HandleWritable)

lemma connections_Close:
  "umap_find (connections (Close os fd s)) g = Some st \<Longrightarrow> umap_find (connections s) g = Some st"
  by (auto simp: Close_def Let_def split: if_splits option.splits)

lemma HandleWritable_input:
  assumes ret: "HandleWritable os fd s = returns s'" and conn: "umap_find (connections s) fd = Some st"
    and conn': "umap_find (connections s') fd = Some st'"
  shows "input_buffer st' = input_buffer st"
proof -
  have "\<forall>u. umap_find (connections s') fd = Some u \<longrightarrow> input_buffer u = input_buffer st"
    using ret
    by (rule HandleWritable_rule [where I = "\<lambda>t. \<forall>u. umap_find (connections t) fd = Some u \<longrightarrow> input_buffer u = input_buffer st"])
      (auto simp: conn dest: connections_Close)
  with conn' show ?thesis by simp
qed

lemma Send_input:
  assumes "Send os fd f s = returns s'" and "umap_find (connections s) fd = Some st"
    and "umap_find (connections s') fd = Some st'"
  shows "input_buffer st' = input_buffer st"
  using assms HandleWritable_input [OF _ _ assms(3), of os _ "st\<lparr>output_buffer := output_buffer st @ f\<rparr>"]
  by (simp add: Send_def)

interpretation server_frames: frame_handler "OnFrame os hdrs pb"
  for os :: "'w sys" and hdrs and pb :: "'m pb_ops"
proof (unfold_locales, goal_cases)
  case (1 fd frame s s' st st')
  obtain answer pool1 app1 where rep:
    "reply hdrs pb (srv_registry s) frame (srv_pool s, srv_app s) = (answer, pool1, app1)"
    by (metis prod.collapse)
  from 1 OnFrame_reply [OF rep, of os fd] show ?case
    by (cases answer) (auto simp: Let_def dest: Send_input)
qed

lemma cm_inv_server_fields [simp]:
  "cm_inv opened X (s\<lparr>srv_pool := p, srv_app := a\<rparr>) = cm_inv opened X s"
  by (simp add: cm_inv_def)

lemma OnFrame_keeps_inv:
  assumes "fd_laws os opened" "send_laws os wire"
  shows "keeps_inv opened (Some (OnFrame os hdrs pb :: int \<Rightarrow> string \<Rightarrow> ('w, 'm, 'a) server \<Rightarrow> ('w, 'm, 'a) server run))"
  unfolding keeps_inv_def
proof (intro allI impI)
  fix h fd frame and s s' :: "('w, 'm, 'a) server"
  assume h: "Some (OnFrame os hdrs pb) = Some h" and inv: "cm_inv opened {} s" and ret: "h fd frame s = returns s'"
  obtain answer pool1 app1 where rep:
    "reply hdrs pb (srv_registry s) frame (srv_pool s, srv_app s) = (answer, pool1, app1)"
    by (metis prod.collapse)
  let ?s1 = "s\<lparr>srv_pool := pool1, srv_app := app1\<rparr>"
  have inv1: "cm_inv opened {} ?s1" using inv by simp
  show "cm_inv opened {} s'"
  proof (cases answer)
    case None
    with ret h OnFrame_reply [OF rep, of os fd] inv1 show ?thesis by simp
  next
    case (Some f)
    with ret h OnFrame_reply [OF rep, of os fd] have "Send os fd f ?s1 = returns s'" by simp
    from cm_inv_Send [OF assms this inv1] show ?thesis .
  qed
qed

section \<open>Replies in order\<close>

text \<open>
  One frame: when the connection survives, its stream grew by the reply and nothing else.
\<close>

lemma OnFrame_stream:
  fixes s s' :: "('w, 'm, 'a) server"
  assumes laws: "fd_laws os opened" "send_laws os wire" and inv: "cm_inv opened {} s"
    and rep: "reply hdrs pb (srv_registry s) frame (srv_pool s, srv_app s) = (answer, pool1, app1)"
    and ret: "OnFrame os hdrs pb fd frame s = returns s'"
    and conn: "umap_find (connections s) fd = Some st" and conn': "umap_find (connections s') fd \<noteq> None"
  shows "stream wire s' fd = stream wire s fd @ (case answer of None \<Rightarrow> [] | Some f \<Rightarrow> f)"
    and "srv_registry s' = srv_registry s" "srv_pool s' = pool1" "srv_app s' = app1"
proof -
  let ?s1 = "s\<lparr>srv_pool := pool1, srv_app := app1\<rparr>"
  have "stream wire s' fd = stream wire s fd @ (case answer of None \<Rightarrow> [] | Some f \<Rightarrow> f) \<and>
      srv_registry s' = srv_registry s \<and> srv_pool s' = pool1 \<and> srv_app s' = app1"
  proof (cases answer)
    case None
    with ret OnFrame_reply [OF rep, of os fd] have "s' = ?s1" by simp
    with None show ?thesis by (simp add: stream_def)
  next
    case (Some f)
    with ret OnFrame_reply [OF rep, of os fd] have send: "Send os fd f ?s1 = returns s'" by simp
    have ok: "bytes_sent st \<le> length (output_buffer st)" "fd \<noteq> listen_fd s"
      using cm_invD(1,2) [OF inv conn] by (simp_all add: conn_ok_def)
    let ?q = "?s1\<lparr>connections := umap_put fd (st\<lparr>output_buffer := output_buffer st @ f\<rparr>) (connections s)\<rparr>"
    have "flush_result wire fd ?q s'"
      using Send_flush [OF laws(2) send] conn ok by simp
    with conn' have "stream wire s' fd = stream wire ?q fd"
      by (auto simp: flush_result_def)
    also have "\<dots> = stream wire s fd @ f"
      using ok(1) conn by (simp add: stream_def)
    finally show ?thesis
      using Some server_fields_Send [OF send] by simp
  qed
  then show "stream wire s' fd = stream wire s fd @ (case answer of None \<Rightarrow> [] | Some f \<Rightarrow> f)"
    and "srv_registry s' = srv_registry s" "srv_pool s' = pool1" "srv_app s' = app1" by simp_all
qed

lemma stream_consume: 
  "umap_find (connections s) fd = Some st \<Longrightarrow>
   stream wire (s\<lparr>connections := umap_put fd (st\<lparr>input_buffer := b\<rparr>) (connections s)\<rparr>) fd = stream wire s fd"
  by (simp add: stream_def)

lemma deliver_serves:
  fixes s s' :: "('w, 'm, 'a) server"
  assumes laws: "fd_laws os opened" "send_laws os wire" and inv: "cm_inv opened {} s"
    and ret: "deliver (OnFrame os hdrs pb) fd fs s = returns s'"
    and serve: "serve_frames hdrs pb (srv_registry s) fs (srv_pool s, srv_app s) = (rs, pool1, app1)"
  shows "stream wire s' fd = stream wire s fd @ concat rs" "srv_registry s' = srv_registry s"
    "srv_pool s' = pool1" "srv_app s' = app1" "cm_inv opened {} s'"
proof -
  have "stream wire s' fd = stream wire s fd @ concat rs \<and> srv_registry s' = srv_registry s \<and>
      srv_pool s' = pool1 \<and> srv_app s' = app1 \<and> cm_inv opened {} s'"
    using inv ret serve
  proof (induction fs arbitrary: s rs)
    case Nil
    then show ?case by (auto split: if_splits)
  next
    case (Cons f fs)
    from Cons.prems(2) obtain st where conn: "umap_find (connections s) fd = Some st"
      by (auto simp: consume_def split: option.splits)
    let ?s1 = "s\<lparr>connections := umap_put fd (st\<lparr>input_buffer := drop (length f) (input_buffer st)\<rparr>) (connections s)\<rparr>"
    from Cons.prems(2) conn obtain s2 where s2: "OnFrame os hdrs pb fd f ?s1 = returns s2"
      "deliver (OnFrame os hdrs pb) fd fs s2 = returns s'"
      by (auto simp: consume_def bind_run_eq_returns)
    obtain answer pool2 app2 where rep:
      "reply hdrs pb (srv_registry s) f (srv_pool s, srv_app s) = (answer, pool2, app2)"
      by (metis prod.collapse)
    have inv1: "cm_inv opened {} ?s1" by (rule cm_inv_input [OF Cons.prems(1) conn])
    have inv2: "cm_inv opened {} s2"
      using OnFrame_keeps_inv [OF laws] inv1 s2(1) unfolding keeps_inv_def by blast
    have alive: "umap_find (connections s2) fd \<noteq> None"
      using s2(2) by (cases fs) (auto simp: consume_def split: option.splits if_splits)
    have one: "stream wire s2 fd = stream wire s fd @ (case answer of None \<Rightarrow> [] | Some r \<Rightarrow> r)"
      "srv_registry s2 = srv_registry s" "srv_pool s2 = pool2" "srv_app s2 = app2"
      using OnFrame_stream [OF laws inv1 _ s2(1) _ alive, of answer pool2 app2] rep stream_consume [OF conn] by simp_all
    obtain rs' where rs': "serve_frames hdrs pb (srv_registry s) fs (pool2, app2) = (rs', pool1, app1)"
      "rs = (case answer of None \<Rightarrow> rs' | Some r \<Rightarrow> r # rs')"
      using Cons.prems(3) rep by (auto split: prod.splits)
    from Cons.IH [OF inv2 s2(2)] rs' one show ?case by (auto split: option.splits)
  qed
  then show "stream wire s' fd = stream wire s fd @ concat rs" "srv_registry s' = srv_registry s"
    "srv_pool s' = pool1" "srv_app s' = app1" "cm_inv opened {} s'" by simp_all
qed

text \<open>
  One readable event: what the kernel delivered is cut into frames by the specification, and
  exactly the replies are added to the stream of the connection.
\<close>

lemma recv_loop_server:
  fixes s s' :: "('w, 'm, 'a) server"
  assumes laws: "send_laws os wire" and ret: "recv_loop os fd s = Some (b, s')"
  shows "srv_registry s' = srv_registry s \<and> srv_pool s' = srv_pool s \<and> srv_app s' = srv_app s \<and>
    wire (world s') = wire (world s)"
proof -
  have wire: "wire w = wire v" if "sys_recv os fd 4096 v = (x, w)" for v w x
    using send_laws_keep(3) [OF laws, of fd 4096 v] that by simp
  from ret show ?thesis
    by (rule recv_loop_rule [where I = "\<lambda>t. srv_registry t = srv_registry s \<and> srv_pool t = srv_pool s \<and>
          srv_app t = srv_app s \<and> wire (world t) = wire (world s)"])
      (simp_all add: wire laws)
qed

section \<open>When the peer is gone\<close>

lemma Send_hard_error:
  assumes conn: "umap_find (connections s) fd = Some st" and fd: "fd \<noteq> listen_fd s"
    and st: "bytes_sent st \<le> length (output_buffer st)" and f: "f \<noteq> []"
    and broken: "\<And>d w. fst (sys_send os fd d w) = Err e" "e \<noteq> EINTR" "e \<noteq> EAGAIN"
  shows "\<exists>s'. Send os fd f s = returns s' \<and> umap_find (connections s') fd = None"
proof -
  let ?st = "st\<lparr>output_buffer := output_buffer st @ f\<rparr>"
  let ?q = "UpdateInterest os fd True (s\<lparr>connections := umap_put fd ?st (connections s)\<rparr>)"
  obtain w where send: "sys_send os fd (drop (bytes_sent ?st) (output_buffer ?st)) (world ?q) = (Err e, w)"
    using broken(1) by (metis prod.collapse)
  have "bytes_sent ?st < length (output_buffer ?st)" using st f by (simp add: le_less_trans)
  with send broken(2,3) have "HandleWritable os fd ?q = returns (Close os fd (?q\<lparr>world := w\<rparr>))"
    by (subst HandleWritable.simps) simp
  moreover have "umap_find (connections (Close os fd (?q\<lparr>world := w\<rparr>))) fd = None"
    using fd by (simp add: Close_connections)
  ultimately show ?thesis using conn by (simp add: Send_def)
qed

section \<open>All states of a serving program\<close>

text \<open>Besides the connection layer, the message pool stays clean.\<close>

definition server_inv :: "'m pb_ops \<Rightarrow> ('w, 'm, 'a) server \<Rightarrow> bool" where
  "server_inv pb s \<longleftrightarrow> pool_inv pb (srv_pool s) \<and> registry_typed pb (srv_registry s)"

lemma reply_pool_inv:
  assumes "pb_ops_ok pb" "pb_wire_ok pb" "registry_typed pb reg" "pool_inv pb pool"
    and "reply hdrs pb reg frame (pool, app) = (answer, pool1, app1)"
  shows "pool_inv pb pool1"
proof (cases "DecodeRequest hdrs frame")
  case (Inl e)
  with assms(4,5) HandleFrame_Decode_Err [OF Inl, of pb reg pool app] show ?thesis by (simp add: reply_def)
next
  case (Inr request)
  obtain a app' where call: "call_service pb reg request app = (a, app')" by fastforce
  from HandleFrame_refines [OF assms(1-4) Inr call] assms(5) show ?thesis
    by (auto simp: reply_def split: sum.splits)
qed

lemma OnFrame_server_inv:
  fixes s s' :: "('w, 'm, 'a) server"
  assumes ok: "pb_ops_ok pb" "pb_wire_ok pb" and inv: "server_inv pb s"
    and ret: "OnFrame os hdrs pb fd frame s = returns s'"
  shows "server_inv pb s'"
proof -
  obtain answer pool1 app1 where rep:
    "reply hdrs pb (srv_registry s) frame (srv_pool s, srv_app s) = (answer, pool1, app1)"
    by (metis prod.collapse)
  have pool1: "pool_inv pb pool1"
    using reply_pool_inv [OF ok _ _ rep] inv by (simp add: server_inv_def)
  show ?thesis
  proof (cases answer)
    case None
    with ret OnFrame_reply [OF rep, of os fd] inv pool1 show ?thesis by (auto simp: server_inv_def)
  next
    case (Some f)
    with ret OnFrame_reply [OF rep, of os fd]
    have "Send os fd f (s\<lparr>srv_pool := pool1, srv_app := app1\<rparr>) = returns s'" by simp
    from server_fields_Send [OF this] inv pool1 show ?thesis by (simp add: server_inv_def)
  qed
qed

lemma server_inv_cm_invoke:
  fixes s s' :: "('w, 'm, 'a) server"
  assumes ok: "pb_ops_ok pb" "pb_wire_ok pb" and inv: "server_inv pb s"
    and ret: "cm_invoke os (Some (OnFrame os hdrs pb)) cb fd s = returns s'"
  shows "server_inv pb s'"
proof -
  note [simp] = server_inv_def
  have cut: "server_inv pb t'" if "cut_loop os (Some (OnFrame os hdrs pb)) fd t = returns t'" "server_inv pb t" for t t'
    using that(1)
    by (rule cut_loop_rule [where I = "server_inv pb"])
      (use that(2) in \<open>auto dest: OnFrame_server_inv [OF ok, rotated]\<close>)
  have recv: "server_inv pb t'" if "recv_loop os fd t = Some (b, t')" "server_inv pb t" for t t' :: "('w, 'm, 'a) server" and b
    using that(1) by (rule recv_loop_rule [where I = "server_inv pb" and Q = "\<lambda>_. server_inv pb"]) (use that(2) in simp_all)
  show ?thesis
  proof (cases cb)
    case CbAcceptLoop
    with ret have "AcceptLoop os fd s = returns s'" by (simp add: cm_invoke_def)
    then show ?thesis
      by (rule AcceptLoop_rule [where I = "server_inv pb"]) (use inv in \<open>simp_all add: Reactor_Add_def\<close>)
  next
    case CbHandleReadable
    with ret inv show ?thesis
      by (auto simp: cm_invoke_def HandleReadable_def ProcessInput_def simp del: server_inv_def
          split: option.splits if_splits) (blast intro: recv cut)+
  next
    case CbHandleWritable
    with ret inv show ?thesis by (simp add: cm_invoke_def) (metis server_fields_HandleWritable)
  next
    case CbClose
    with ret inv show ?thesis by (auto simp: cm_invoke_def)
  qed
qed

interpretation server_reactor: reactor_client os "cm_invoke os (Some (OnFrame os hdrs pb))"
  "\<lambda>s. fd_laws os opened \<and> send_laws os wire \<and> pb_ops_ok pb \<and> pb_wire_ok pb \<and> cm_inv opened {} s \<and> server_inv pb s"
  for os :: "'w sys" and hdrs and pb :: "'m pb_ops" and opened wire
proof (unfold_locales, goal_cases)
  case (1 s fd h cb s')
  then show ?case
    using cm_inv_cm_invoke [of os opened wire "Some (OnFrame os hdrs pb)" cb fd s s']
      OnFrame_keeps_inv [of os opened wire hdrs pb] server_inv_cm_invoke [of pb s os hdrs cb fd s'] by simp
next
  case (2 s b)
  then show ?case by (simp add: cm_inv_running server_inv_def)
next
  case (3 s ep n t r w')
  then have "opened w' = opened (world s)" by (auto dest: fd_laws_results)
  with 3 show ?case by (simp add: cm_inv_world server_inv_def)
qed

section \<open>Publishing the methods\<close>

lemma CreateNode_keeps:
  "zk_laws api nodes \<Longrightarrow> CreateNode api p d e z = (r, z') \<Longrightarrow> nodes z q = Some v \<Longrightarrow> nodes z' q = Some v"
  using CreateNode_nodes [of api nodes p d e z r z'] by (cases r) (auto split: if_splits)

lemma ZkRegistrar_Register_steps:
  assumes names: "path_name s" "path_name m" and ret: "ZkRegistrar_Register api s m e z = (Ok (), z')"
  obtains z1 z2 z3 where "CreateNode api (''/'' @ s) [] False z = (Ok (), z1)"
    "CreateNode api (''/'' @ s) [] False z1 = (Ok (), z2)"
    "CreateNode api (''/'' @ s @ ''/'' @ m) [] False z2 = (Ok (), z3)"
    "CreateNode api (BuildInstancePath s m (Endpoint_ToString e)) (Endpoint_ToString e) True z3 = (Ok (), z')"
proof -
  have slash: "CHR ''/'' \<notin> set s" "CHR ''/'' \<notin> set m" "s \<noteq> []" using names by (auto simp: path_name_def)
  have paths: "BuildServicePath s = ''/'' @ s" "BuildMethodPath s m = ''/'' @ s @ ''/'' @ m"
    by (simp_all add: BuildServicePath_def BuildMethodPath_def)
  obtain r1 z1 where c1: "CreateNode api (''/'' @ s) [] False z = (r1, z1)" by fastforce
  obtain r2 z2 where c2: "CreateNode api (''/'' @ s) [] False z1 = (r2, z2)" by fastforce
  obtain r3 z3 where c3: "CreateNode api (''/'' @ s @ ''/'' @ m) [] False z2 = (r3, z3)" by fastforce
  have "r1 = Ok () \<and> r2 = Ok () \<and> r3 = Ok () \<and>
      CreateNode api (BuildInstancePath s m (Endpoint_ToString e)) (Endpoint_ToString e) True z3 = (Ok (), z')"
    using ret unfolding ZkRegistrar_Register_def paths Let_def EnsurePath_one [OF slash(1,3)]
      EnsurePath_two [OF slash(1,2)] c1
    by (cases r1; cases r2; cases r3) (simp_all add: c2 [simplified] c3 [simplified])
  with c1 c2 c3 that show ?thesis by simp
qed

definition slashes :: "string \<Rightarrow> nat" where
  "slashes s = length (filter (\<lambda>c. c = CHR ''/'') s)"

lemma slashes_simps [simp]:
  "slashes [] = 0" "slashes (c # s) = (if c = CHR ''/'' then 1 else 0) + slashes s"
  "slashes (s @ t) = slashes s + slashes t" "path_name s \<Longrightarrow> slashes s = 0"
  by (auto simp: slashes_def path_name_def filter_empty_conv)

lemma instance_path_other:
  assumes "path_name s'" "path_name m'"
  shows "BuildInstancePath s m i \<noteq> ''/'' @ s'" "BuildInstancePath s m i \<noteq> ''/'' @ s' @ ''/'' @ m'"
proof -
  have "3 \<le> slashes (BuildInstancePath s m i)"
    by (simp add: BuildInstancePath_def BuildMethodPath_def BuildServicePath_def)
  with assms show "BuildInstancePath s m i \<noteq> ''/'' @ s'" "BuildInstancePath s m i \<noteq> ''/'' @ s' @ ''/'' @ m'"
    by (auto dest!: arg_cong [of _ _ slashes])
qed

text \<open>Registering touches no instance node but its own, and keeps what is there.\<close>

lemma ZkRegistrar_Register_frame:
  assumes laws: "zk_laws api nodes" and names: "path_name s" "path_name m"
    and ret: "ZkRegistrar_Register api s m e z = (Ok (), z')"
  shows "nodes z' (BuildInstancePath s' m' i) = nodes z (BuildInstancePath s' m' i) \<or>
    BuildInstancePath s' m' i = BuildInstancePath s m (Endpoint_ToString e) \<and>
    nodes z (BuildInstancePath s' m' i) = None \<and> nodes z' (BuildInstancePath s' m' i) = Some (Endpoint_ToString e)"
proof -
  let ?q = "BuildInstancePath s' m' i"
  from ZkRegistrar_Register_steps [OF names ret] obtain z1 z2 z3 where steps:
    "CreateNode api (''/'' @ s) [] False z = (Ok (), z1)" "CreateNode api (''/'' @ s) [] False z1 = (Ok (), z2)"
    "CreateNode api (''/'' @ s @ ''/'' @ m) [] False z2 = (Ok (), z3)"
    "CreateNode api (BuildInstancePath s m (Endpoint_ToString e)) (Endpoint_ToString e) True z3 = (Ok (), z')" .
  have "nodes z3 ?q = nodes z ?q"
    using CreateNode_other [OF laws steps(1) instance_path_other(1) [OF names]]
      CreateNode_other [OF laws steps(2) instance_path_other(1) [OF names]]
      CreateNode_other [OF laws steps(3) instance_path_other(2) [OF names]] by simp
  with CreateNode_nodes [OF laws steps(4)] show ?thesis by (auto split: if_splits)
qed

lemma register_all_published:
  assumes laws: "zk_laws api nodes"
    and names: "\<forall>r \<in> set ms. path_name (rm_service_name r) \<and> path_name (rm_method_name r)"
    and free: "\<forall>r \<in> set ms. nodes z (BuildInstancePath (rm_service_name r) (rm_method_name r) (Endpoint_ToString e))
      \<in> {None, Some (Endpoint_ToString e)}"
    and ret: "register_all (ZkRegistrar_Register api) e ms z = (Ok (), z')"
    and r: "r \<in> set ms"
  shows "nodes z' (BuildInstancePath (rm_service_name r) (rm_method_name r) (Endpoint_ToString e)) =
    Some (Endpoint_ToString e)"
proof -
  let ?id = "Endpoint_ToString e"
  let ?p = "\<lambda>r. BuildInstancePath (rm_service_name r) (rm_method_name r) ?id"
  have "\<forall>r. (nodes z (?p r) = Some ?id \<or> r \<in> set ms) \<longrightarrow> nodes z' (?p r) = Some ?id"
    using names free ret
  proof (induction ms arbitrary: z)
    case Nil
    then show ?case by simp
  next
    case (Cons a ms)
    obtain x z1 where reg: "ZkRegistrar_Register api (rm_service_name a) (rm_method_name a) e z = (x, z1)" by fastforce
    with Cons.prems(3) have x: "x = Ok ()" and rest: "register_all (ZkRegistrar_Register api) e ms z1 = (Ok (), z')"
      by (cases x; simp)+
    have na: "path_name (rm_service_name a)" "path_name (rm_method_name a)" using Cons.prems(1) by auto
    note frame = ZkRegistrar_Register_frame [OF laws na reg [unfolded x]]
    have a: "nodes z1 (?p a) = Some ?id"
      by (rule ZkRegistrar_Register_node [OF laws na _ reg [unfolded x]]) (use Cons.prems(2) in simp)
    have "\<forall>r \<in> set ms. nodes z1 (?p r) \<in> {None, Some ?id}"
      using Cons.prems(2) frame by (metis insert_iff list.set_intros(2) singletonD)
    with Cons.IH [OF _ _ rest] Cons.prems(1)
    have ih: "\<forall>r. (nodes z1 (?p r) = Some ?id \<or> r \<in> set ms) \<longrightarrow> nodes z' (?p r) = Some ?id" by simp
    show ?case
    proof (intro allI impI)
      fix r
      assume "nodes z (?p r) = Some ?id \<or> r \<in> set (a # ms)"
      then consider "nodes z (?p r) = Some ?id" | "r = a" | "r \<in> set ms" by auto
      then show "nodes z' (?p r) = Some ?id"
      proof cases
        case 1
        with frame [of "rm_service_name r" "rm_method_name r" ?id] have "nodes z1 (?p r) = Some ?id" by auto
        with ih show ?thesis by blast
      qed (use ih a in blast)+
    qed
  qed
  with r show ?thesis by blast
qed

end
