(* ===== verification/WireProps.thy ===== *)
theory WireProps
  imports RefHeaders Framing
begin

text \<open>
  What the wire format guarantees: encoding and decoding are inverse on every message whose
  frame fits the 32-bit length prefix, every longer frame is refused, a frame is accepted only
  if it is the encoding of what was read from it, and cutting a byte stream into frames does
  not depend on how the stream arrives in pieces. The witnesses use the header format of
  \<open>RefHeaders\<close>.
\<close>

section \<open>Arrival in pieces\<close>

text \<open>
  A connection that receives the chunks \<open>cs\<close> one by one, cutting frames after each
  (\<open>HandleReadable\<close> followed by \<open>ProcessInput\<close>), with \<open>buf\<close> left over from before.
\<close>

fun feed :: "string \<Rightarrow> string list \<Rightarrow> string list \<times> string \<times> bool" where
  "feed buf [] = ([], buf, True)"
| "feed buf (c # cs) =
     (case cut_frames (buf @ c) of
        (fs, r, good) \<Rightarrow>
          if good then (case feed r cs of (gs, q, good') \<Rightarrow> (fs @ gs, q, good'))
          else (fs, r @ concat cs, False))"

lemma feed_cut_frames:
  "cut_frames buf = ([], buf, True) \<Longrightarrow> feed buf cs = cut_frames (buf @ concat cs)"
proof (induction cs arbitrary: buf)
  case (Cons c cs)
  obtain fs r good where cut: "cut_frames (buf @ c) = (fs, r, good)" by (metis prod_cases3)
  show ?case
  proof (cases good)
    case True
    then have "cut_frames r = ([], r, True)" using cut_frames_rest [OF cut] by simp
    from Cons.IH [OF this] cut_frames_append [OF cut, of "concat cs"] cut True show ?thesis by simp
  next
    case False
    then show ?thesis using cut_frames_append [OF cut, of "concat cs"] cut by simp
  qed
qed simp

section \<open>Guarantees\<close>

text \<open>
  C2. A request survives the wire: \<open>EncodeRequest\<close> either reports a serialisation error or
  makes a frame that \<open>DecodeRequest\<close> turns back into the same request; only when the frame
  does not fit the 32-bit length prefix is it refused, as an invalid packet.
\<close>

theorem request_survives_wire:
  assumes "pb_headers_ok pb"
  shows "case EncodeRequest pb r of
      Err e \<Rightarrow> err_code e = kSerializeError
    | Ok f \<Rightarrow>
        if length f < 4294967300 then DecodeRequest pb f = Ok r
        else DecodeRequest pb f = Err (rpc_error kInvalidPacket ''frame length prefix does not match'')"
proof (cases "EncodeRequest pb r")
  case (Inl e)
  then show ?thesis by (auto simp: EncodeRequest_def EncodeFrame_def Let_def split: option.splits)
next
  case (Inr f)
  then show ?thesis using request_roundtrip [OF assms Inr] request_oversize [OF Inr] by simp
qed

definition sample_request :: RpcRequest where
  "sample_request = \<lparr>req_request_id = 7, req_service_name = ''Echo'', req_method_name = ''Say'',
     req_metadata = ''m'', req_payload = ''hi''\<rparr>"

lemma sample_request_frame: "\<exists>f. EncodeRequest ref_headers sample_request = Ok f \<and> length f = 41"
  by (simp add: EncodeRequest_def EncodeFrame_def sample_request_def ref_headers_def kLengthPrefixSize_def
      ref_serialize_request_def bounded_def put_num_def put_str_def Let_def nat_to_string.simps)

theorem request_survives_wire_witness:
  "\<exists>f. EncodeRequest ref_headers sample_request = Ok f \<and> DecodeRequest ref_headers f = Ok sample_request"
proof -
  obtain f where "EncodeRequest ref_headers sample_request = Ok f" "length f = 41"
    using sample_request_frame by blast
  then show ?thesis
    using request_survives_wire [OF ref_headers_ok, of sample_request] by simp
qed

text \<open>
  C3. A response survives the wire in the same way, for every status the code can send: the
  enumerators and the numbers above them that an old client can receive.
\<close>

theorem response_survives_wire:
  assumes "pb_headers_ok pb" and "named_status (resp_status r)"
  shows "case EncodeResponse pb r of
      Err e \<Rightarrow> err_code e = kSerializeError
    | Ok f \<Rightarrow>
        if length f < 4294967300 then DecodeResponse pb f = Ok r
        else DecodeResponse pb f = Err (rpc_error kInvalidPacket ''frame length prefix does not match'')"
proof (cases "EncodeResponse pb r")
  case (Inl e)
  then show ?thesis by (auto simp: EncodeResponse_def EncodeFrame_def Let_def split: option.splits)
next
  case (Inr f)
  then show ?thesis using response_roundtrip [OF assms Inr] response_oversize [OF Inr] by simp
qed

definition sample_response :: RpcResponse where
  "sample_response = \<lparr>resp_request_id = 7, resp_status = kUnknownMethod,
     resp_error_text = ''unknown method'', resp_payload = []\<rparr>"

lemma sample_response_frame: "\<exists>f. EncodeResponse ref_headers sample_response = Ok f \<and> length f = 41"
  by (simp add: EncodeResponse_def EncodeFrame_def sample_response_def ref_headers_def kLengthPrefixSize_def
      ref_serialize_response_def bounded_def put_num_def put_str_def Let_def nat_to_string.simps
      status_to_int32_def)

theorem response_survives_wire_witness:
  "\<exists>f. EncodeResponse ref_headers sample_response = Ok f \<and> DecodeResponse ref_headers f = Ok sample_response"
proof -
  obtain f where f: "EncodeResponse ref_headers sample_response = Ok f" "length f = 41"
    using sample_response_frame by blast
  have "named_status (resp_status sample_response)" by (simp add: sample_response_def named_status_def)
  from f response_survives_wire [OF ref_headers_ok this] show ?thesis by simp
qed

text \<open>
  \<open>SplitFrame\<close> accepts exactly the frames \<open>EncodeFrame\<close> makes: it returns a header and a
  payload if and only if the frame is their encoding and fits the length prefix. Nothing else
  is accepted, whatever bytes a peer sends.
\<close>

lemma SplitFrame_exact:
  "SplitFrame f = Ok (h, p) \<longleftrightarrow> EncodeFrame h p = Ok f \<and> length f < 4294967300"
  by (rule SplitFrame_Ok_iff)

text \<open>
  C4. What \<open>DecodeRequest\<close> accepts is consistent: the frame is a parsed header followed by
  exactly the metadata and the arguments the header announces, and identifier, service and
  method are the header's. Whatever it refuses is reported as an invalid packet.
\<close>

theorem DecodeRequest_consistent:
  "case DecodeRequest pb f of
     Err e \<Rightarrow> err_code e = kInvalidPacket
   | Ok r \<Rightarrow> \<exists>hb h. ParseRpcHeader pb hb (size_to_int (length hb)) = Some h \<and>
       EncodeFrame hb (req_metadata r @ req_payload r) = Ok f \<and>
       req_request_id r = hdr_request_id h \<and> req_service_name r = hdr_service_name h \<and>
       req_method_name r = hdr_method_name h \<and>
       length (req_metadata r) = unat (hdr_meta_size h) \<and>
       length (req_payload r) = unat (hdr_args_size h)"
  using DecodeRequest_layout [of pb f] DecodeRequest_error_code [of pb f] by (simp split: sum.split)


end
