(* ===== verification/ServerGuarantees.thy ===== *)
theory ServerGuarantees
  imports ServerProps SimServices WireProps
begin

text \<open>
  What the server guarantees, end to end on its side of a connection: the invariant of every
  state it serves from, the exact bytes it answers with, that its handlers return, and the
  places where it reads freed memory or drops requests. The witnesses run the server with the
  service \<open>echo\<close> on the test bench.
\<close>

section \<open>Handlers return\<close>

lemma OnFrame_total:
  assumes "send_laws os wire" "signal_laws os patience"
  shows "\<exists>s'. OnFrame os hdrs pb fd frame s = returns s'"
proof -
  obtain answer pool1 app1 where
    rep: "reply hdrs pb (srv_registry s) frame (srv_pool s, srv_app s) = (answer, pool1, app1)"
    by (metis prod_cases3)
  show ?thesis
    using OnFrame_reply [OF rep, of os fd] Send_returns [OF assms, of fd _ "s\<lparr>srv_pool := pool1, srv_app := app1\<rparr>"]
    by (cases answer) (simp_all add: Let_def)
qed

lemma deliver_total:
  assumes "send_laws os wire" "signal_laws os patience"
  shows "\<exists>x. deliver (OnFrame os hdrs pb) fd fs s = Some x"
proof (induction fs arbitrary: s)
  case (Cons f fs)
  show ?case
  proof (cases "umap_find (connections s) fd")
    case (Some st)
    let ?s1 = "s\<lparr>connections := umap_put fd (st\<lparr>input_buffer := drop (length f) (input_buffer st)\<rparr>) (connections s)\<rparr>"
    obtain s2 where "OnFrame os hdrs pb fd f ?s1 = returns s2" using OnFrame_total [OF assms] by blast
    with Cons.IH [of s2] Some show ?thesis by (simp add: consume_def)
  qed (simp add: consume_def)
qed simp

lemma ProcessInput_total:
  assumes "send_laws os wire" "signal_laws os patience"
  shows "\<exists>x. ProcessInput os (Some (OnFrame os hdrs pb)) fd s = Some x"
proof (cases "umap_find (connections s) fd")
  case (Some st)
  obtain fs r good where cut: "cut_frames (input_buffer st) = (fs, r, good)" by (metis prod_cases3)
  obtain x where "deliver (OnFrame os hdrs pb) fd fs s = Some x" using deliver_total [OF assms] by blast
  with server_frames.cut_loop_deliver [OF Some cut, of os os hdrs pb] Some show ?thesis
    by (cases x) (simp_all add: ProcessInput_def)
qed (simp add: ProcessInput_def)

section \<open>Building a server\<close>

lemma umap_put_subset: "set (umap_put k v m) \<subseteq> insert (k, v) (set m)"
  by (induction m) auto

lemma registry_typed_Register:
  assumes "service_typed pb svc" "registry_typed pb reg"
  shows "registry_typed pb (RegisterService svc reg)"
proof -
  have all: "registry_typed pb (fold (\<lambda>name reg. umap_put (k name) (r name) reg) names reg)"
    if "\<And>name. rm_service (r name) = svc" for names k r
    using assms(2)
  proof (induction names arbitrary: reg)
    case (Cons name names)
    have "registry_typed pb (umap_put (k name) (r name) reg)"
      using Cons.prems umap_put_subset [of "k name" "r name" reg] assms(1) that
      by (auto simp: registry_typed_def ListMethods_def)
    with Cons.IH show ?case by simp
  qed simp
  show ?thesis unfolding RegisterService_def by (rule all) simp
qed

lemma registered_server_inv:
  assumes "\<forall>svc \<in> set svcs. service_typed pb svc"
  shows "server_inv pb (fold RpcServer_RegisterService svcs (RpcServer_new os config app w)) \<and>
    connections (fold RpcServer_RegisterService svcs (RpcServer_new os config app w)) = [] \<and>
    handlers (fold RpcServer_RegisterService svcs (RpcServer_new os config app w)) = [] \<and>
    listen_fd (fold RpcServer_RegisterService svcs (RpcServer_new os config app w)) = -1"
proof -
  let ?P = "\<lambda>s. server_inv pb s \<and> connections s = [] \<and> handlers s = [] \<and> listen_fd s = -1"
  have "?P (fold RpcServer_RegisterService svcs s)" if "?P s" for s
    using assms that
    by (induction svcs arbitrary: s)
      (simp_all add: RpcServer_RegisterService_def server_inv_def registry_typed_Register)
  moreover have "?P (RpcServer_new os config app w)"
    by (simp add: RpcServer_new_def Reactor_new_def server_inv_def pool_inv_new registry_typed_def ListMethods_def
        case_prod_unfold Let_def)
  ultimately show ?thesis by blast
qed

lemma server_fields_Listen:
  assumes "Listen os endpoint s = (b, s')"
  shows "srv_registry s' = srv_registry s \<and> srv_pool s' = srv_pool s \<and> srv_app s' = srv_app s"
  using assms
  by (auto simp: Listen_def Let_def Reactor_Add_def split: prod.splits sum.splits option.splits if_splits)

section \<open>A running server on the test bench\<close>

definition demo_config :: ServerConfig where
  "demo_config = \<lparr>sc_listen_endpoint = \<lparr>ep_host = ''127.0.0.1'', ep_port = 8000\<rparr>, sc_max_events = 128,
     sc_discovery = \<lparr>dc_backend = kStatic, dc_zookeeper_endpoint = default_endpoint,
       dc_selection_policy = kRandom, dc_static_services = []\<rparr>, sc_serialization = kProtobuf\<rparr>"

text \<open>Listening on descriptor 4, with one connection on descriptor 5.\<close>

definition demo_world :: sim where
  "demo_world = sim_boot\<lparr>sim_open := [5, 4, 3, 2, 1, 0]\<rparr>"

definition demo_server :: "sim \<Rightarrow> string \<Rightarrow> (sim, sim_msg, nat) server" where
  "demo_server w buffered = \<lparr>world = w, epoll_fd = 3, running = True, max_events = 128,
     handlers = [(4, listen_handler), (5, conn_handler EPOLLIN)], listen_fd = 4,
     connections = [(5, new_connection\<lparr>input_buffer := buffered\<rparr>)], srv_config = demo_config,
     srv_registry = echo_registry, srv_pool = MessagePool_new 32, srv_app = 0\<rparr>"

lemma demo_server_inv:
  assumes "sim_open w = [5, 4, 3, 2, 1, 0]"
  shows "cm_inv sim_opened {} (demo_server w b)"
proof (rule cm_invI)
  fix fd st
  assume "umap_find (connections (demo_server w b)) fd = Some st"
  then show "conn_ok (fd \<notin> {}) (umap_find (handlers (demo_server w b))) fd st \<and>
      fd \<noteq> listen_fd (demo_server w b) \<and> fd \<in> sim_opened (world (demo_server w b))"
    using assms by (auto simp: demo_server_def conn_ok_def new_connection_def interest_def split: if_splits)
next
  show "umap_find (handlers (demo_server w b)) (listen_fd (demo_server w b)) = Some listen_handler \<and>
      listen_fd (demo_server w b) \<in> sim_opened (world (demo_server w b))"
    using assms by (simp add: demo_server_def)
next
  fix fd h
  assume "umap_find (handlers (demo_server w b)) fd = Some h"
  then show "0 \<le> fd \<and> (fd = listen_fd (demo_server w b) \<or> umap_find (connections (demo_server w b)) fd \<noteq> None)"
    by (auto simp: demo_server_def split: if_splits)
qed

text \<open>With a healthy peer the bench sends everything at once, so frames are served to the end.\<close>

lemma sim_world_UpdateInterest [simp]: "world (UpdateInterest sim_os fd b s) = world s"
  by (simp add: UpdateInterest_def Reactor_Update_def sim_os_def split: option.split)

lemma sim_HandleWritable:
  assumes "umap_find (connections s) fd = Some st" "sim_sends (world s) = []"
  shows "\<exists>s'. HandleWritable sim_os fd s = returns s' \<and>
    umap_find (connections s') fd = Some (st\<lparr>output_buffer := [], bytes_sent := 0\<rparr>) \<and> sim_sends (world s') = []"
proof (cases "bytes_sent st < length (output_buffer st)")
  case True
  with assms show ?thesis
    by (subst HandleWritable.simps, subst HandleWritable.simps)
      (simp add: sim_os_def sim_send_def sim_put_def UpdateInterest_def Reactor_Update_def split: option.split)
next
  case False
  with assms show ?thesis by (subst HandleWritable.simps) simp
qed

lemma sim_OnFrame:
  assumes "umap_find (connections s) fd = Some st" "sim_sends (world s) = []"
  shows "\<exists>s' st'. OnFrame sim_os hdrs pb fd f s = returns s' \<and> umap_find (connections s') fd = Some st' \<and>
    sim_sends (world s') = []"
proof -
  obtain answer pool1 app1 where
    rep: "reply hdrs pb (srv_registry s) f (srv_pool s, srv_app s) = (answer, pool1, app1)"
    by (metis prod_cases3)
  show ?thesis
  proof (cases answer)
    case None
    with OnFrame_reply [OF rep, of sim_os fd] assms show ?thesis by (simp add: Let_def)
  next
    case (Some g)
    let ?s = "UpdateInterest sim_os fd True (s\<lparr>srv_pool := pool1, srv_app := app1, connections :=
      umap_put fd (st\<lparr>output_buffer := output_buffer st @ g\<rparr>) (connections s)\<rparr>)"
    have "\<exists>s'. HandleWritable sim_os fd ?s = returns s' \<and>
      umap_find (connections s') fd = Some (st\<lparr>output_buffer := [], bytes_sent := 0\<rparr>) \<and> sim_sends (world s') = []"
      using sim_HandleWritable [of ?s fd "st\<lparr>output_buffer := output_buffer st @ g\<rparr>"] assms by simp
    with OnFrame_reply [OF rep, of sim_os fd] assms Some show ?thesis by (auto simp: Let_def Send_def)
  qed
qed

lemma sim_deliver:
  assumes "umap_find (connections s) fd = Some st" "sim_sends (world s) = []"
  shows "\<exists>s'. deliver (OnFrame sim_os hdrs pb) fd fs s = returns s'"
  using assms
proof (induction fs arbitrary: s st)
  case (Cons f fs)
  let ?s1 = "s\<lparr>connections := umap_put fd (st\<lparr>input_buffer := drop (length f) (input_buffer st)\<rparr>) (connections s)\<rparr>"
  have "umap_find (connections ?s1) fd = Some (st\<lparr>input_buffer := drop (length f) (input_buffer st)\<rparr>)"
    "sim_sends (world ?s1) = []"
    using Cons.prems by simp_all
  from sim_OnFrame [OF this] obtain s2 st2 where "OnFrame sim_os hdrs pb fd f ?s1 = returns s2"
    "umap_find (connections s2) fd = Some st2" "sim_sends (world s2) = []" by blast
  with Cons.IH [of s2 st2] Cons.prems show ?case by (simp add: consume_def)
qed simp

lemma sim_HandleReadable:
  assumes conn: "umap_find (connections s) fd = Some st" and w: "sim_sends (world s) = []" "sim_recvs (world s) = []"
    "length (sim_inbox (world s) fd) \<le> 4096"
  shows "\<exists>s' s1. HandleReadable sim_os (Some (OnFrame sim_os hdrs pb)) fd s = returns s' \<and>
    recv_loop sim_os fd s = Some (True, s1) \<and> sim_inbox (world s1) fd = []"
proof -
  have "\<exists>s1 st1. recv_loop sim_os fd s = Some (True, s1) \<and> umap_find (connections s1) fd = Some st1 \<and>
      sim_sends (world s1) = [] \<and> sim_inbox (world s1) fd = []"
  proof (cases "sim_inbox (world s) fd = []")
    case True
    with conn w show ?thesis by (subst recv_loop.simps) (simp add: sim_os_def sim_recv_def)
  next
    case False
    with conn w show ?thesis
      by (subst recv_loop.simps, subst recv_loop.simps) (simp add: sim_os_def sim_recv_def sim_get_def)
  qed
  then obtain s1 st1 where s1: "recv_loop sim_os fd s = Some (True, s1)" "umap_find (connections s1) fd = Some st1"
    "sim_sends (world s1) = []" "sim_inbox (world s1) fd = []" by blast
  obtain fs r good where cut: "cut_frames (input_buffer st1) = (fs, r, good)" by (metis prod_cases3)
  obtain s2 where "deliver (OnFrame sim_os hdrs pb) fd fs s1 = returns s2" using sim_deliver [OF s1(2,3)] by blast
  with server_frames.cut_loop_deliver [OF s1(2) cut, of sim_os sim_os hdrs pb] s1 conn show ?thesis
    by (simp add: HandleReadable_def ProcessInput_def)
qed

section \<open>Guarantees\<close>

text \<open>
  C6. What a readable connection answers: when \<open>HandleReadable\<close> has drained the socket, the
  bytes sent and queued for this connection grow by exactly the replies to the complete
  frames in its input, in order, where \<open>serve_frames\<close> runs the dispatcher on them one after
  the other; the rest of the input is kept. After an illegal length prefix the replies to the
  frames before it are still made, and the connection is closed.
\<close>

theorem HandleReadable_serves:
  fixes s s' :: "('w, 'm, 'a) server"
  assumes laws: "fd_laws os opened" "send_laws os wire" "recv_laws os inbox" and inv: "cm_inv opened {} s"
    and conn: "umap_find (connections s) fd = Some st"
    and recv: "recv_loop os fd s = Some (True, s1)"
    and ret: "HandleReadable os (Some (OnFrame os hdrs pb)) fd s = returns s'"
  shows "\<exists>d fs r good. inbox (world s) fd = d @ inbox (world s1) fd \<and>
    cut_frames (input_buffer st @ d) = (fs, r, good) \<and>
    (case serve_frames hdrs pb (srv_registry s) fs (srv_pool s, srv_app s) of (rs, pool1, app1) \<Rightarrow>
       srv_pool s' = pool1 \<and> srv_app s' = app1 \<and>
       (if good
        then stream wire s' fd = stream wire s fd @ concat rs \<and>
          (\<exists>st'. umap_find (connections s') fd = Some st' \<and> input_buffer st' = r)
        else umap_find (connections s') fd = None \<and>
          (\<exists>lost. stream wire s fd @ concat rs = wire (world s') fd @ lost)))"
proof -
  obtain st1 d where st1: "umap_find (connections s1) fd = Some st1" "input_buffer st1 = input_buffer st @ d"
      "inbox (world s) fd = d @ inbox (world s1) fd" "output_buffer st1 = output_buffer st" "bytes_sent st1 = bytes_sent st"
    using recv_loop_stream [OF laws(3) recv conn] by blast
  obtain fs r good where cut: "cut_frames (input_buffer st @ d) = (fs, r, good)" by (metis prod.collapse)
  obtain rs pool1 app1 where serve:
    "serve_frames hdrs pb (srv_registry s) fs (srv_pool s, srv_app s) = (rs, pool1, app1)" by (metis prod.collapse)
  note fields = recv_loop_server [OF laws(2) recv]
  have inv1: "cm_inv opened {} s1" by (rule cm_inv_recv_loop [OF laws(1) recv inv])
  have cutl: "cut_loop os (Some (OnFrame os hdrs pb)) fd s1 = returns s'"
    using ret conn recv st1(1) by (simp add: HandleReadable_def ProcessInput_def)
  from cutl have "bind_run (deliver (OnFrame os hdrs pb) fd fs s1)
      (\<lambda>s'. returns (if good then s' else Close os fd s')) = returns s'"
    unfolding server_frames.cut_loop_deliver [OF st1(1) cut [folded st1(2)]] .
  then obtain s2 where del: "deliver (OnFrame os hdrs pb) fd fs s1 = returns s2"
    and s': "s' = (if good then s2 else Close os fd s2)"
    by (auto simp: bind_run_eq_returns)
  have same: "stream wire s1 fd = stream wire s fd"
    using st1(1,4,5) conn fields by (simp add: stream_def)
  have "input_buffer st1 = concat fs @ r"
    using cut_frames_partition [OF cut] st1(2) by simp
  from server_frames.deliver_input [OF del st1(1) this]
  obtain st2 where st2: "umap_find (connections s2) fd = Some st2" "input_buffer st2 = r" by blast
  have served: "stream wire s2 fd = stream wire s fd @ concat rs" "srv_pool s2 = pool1" "srv_app s2 = app1"
      "cm_inv opened {} s2"
    using deliver_serves [OF laws(1,2) inv1 del, of rs pool1 app1] serve fields same by simp_all
  have "fd \<noteq> listen_fd s2" by (rule cm_invD(2) [OF served(4) st2(1)])
  then have closed: "umap_find (connections (Close os fd s2)) fd = None" by (simp add: Close_connections)
  have lost: "\<exists>lost. stream wire s fd @ concat rs = wire (world s2) fd @ lost"
    using served(1) by (metis stream_def)
  show ?thesis
    by (intro exI [of _ d] exI [of _ fs] exI [of _ r] exI [of _ good] conjI st1(3) cut)
      (use serve served s' st2 closed lost laws in \<open>simp split: if_splits\<close>)
qed

theorem HandleReadable_serves_witness:
  "\<exists>f s' rs pool1 app1. EncodeRequest ref_headers sample_request = Ok f \<and>
     HandleReadable sim_os (Some (OnFrame sim_os ref_headers sim_pb)) 5
       (demo_server (demo_world\<lparr>sim_inbox := (\<lambda>_. [])(5 := f)\<rparr>) []) = returns s' \<and>
     serve_frames ref_headers sim_pb echo_registry [f] (MessagePool_new 32, 0) = (rs, pool1, app1) \<and>
     stream sim_wire s' 5 = concat rs \<and> srv_app s' = app1"
proof -
  obtain f where f: "EncodeRequest ref_headers sample_request = Ok f" "length f = 41"
    using sample_request_frame by blast
  let ?w = "demo_world\<lparr>sim_inbox := (\<lambda>_. [])(5 := f)\<rparr>"
  let ?s = "demo_server ?w []"
  have conn: "umap_find (connections ?s) 5 = Some (new_connection\<lparr>input_buffer := []\<rparr>)"
    by (simp add: demo_server_def)
  have w: "sim_sends (world ?s) = []" "sim_recvs (world ?s) = []" "sim_inbox (world ?s) 5 = f"
    by (simp_all add: demo_server_def demo_world_def sim_boot_def)
  obtain s' s1 where ret: "HandleReadable sim_os (Some (OnFrame sim_os ref_headers sim_pb)) 5 ?s = returns s'"
    and recv: "recv_loop sim_os 5 ?s = Some (True, s1)" "sim_inbox (world s1) 5 = []"
    using sim_HandleReadable [OF conn w(1,2), of ref_headers sim_pb] w(3) f(2) by auto
  have inv: "cm_inv sim_opened {} ?s"
    by (rule demo_server_inv) (simp add: demo_world_def)
  have "well_framed f" using EncodeRequest_framed [OF f(1)] f(2) by simp
  then have cut: "cut_frames f = ([f], [], True)"
    using cut_frames_one [of f "[]"] f(2) by (simp add: acceptable_frame_length cut_frames_short)
  have "stream sim_wire ?s 5 = []"
    by (simp add: stream_def demo_server_def demo_world_def sim_boot_def new_connection_def)
  moreover obtain d fs r good where d: "sim_inbox (world ?s) 5 = d @ sim_inbox (world s1) 5"
    "cut_frames (input_buffer (new_connection\<lparr>input_buffer := []\<rparr>) @ d) = (fs, r, good)"
    "case serve_frames ref_headers sim_pb (srv_registry ?s) fs (srv_pool ?s, srv_app ?s) of (rs, pool1, app1) \<Rightarrow>
       srv_pool s' = pool1 \<and> srv_app s' = app1 \<and>
       (if good
        then stream sim_wire s' 5 = stream sim_wire ?s 5 @ concat rs \<and>
          (\<exists>st'. umap_find (connections s') 5 = Some st' \<and> input_buffer st' = r)
        else umap_find (connections s') 5 = None \<and>
          (\<exists>lost. stream sim_wire ?s 5 @ concat rs = sim_wire (world s') 5 @ lost))"
    using HandleReadable_serves [OF sim_fd_laws sim_send_laws sim_recv_laws inv conn recv(1) ret] by (elim exE conjE)
  moreover have "fs = [f]" "good" using d(1,2) w(3) recv(2) cut by simp_all
  moreover obtain rs pool1 app1 where
    "serve_frames ref_headers sim_pb echo_registry [f] (MessagePool_new 32, 0) = (rs, pool1, app1)"
    by (metis prod_cases3)
  moreover have "srv_registry ?s = echo_registry" "srv_pool ?s = MessagePool_new 32" "srv_app ?s = 0"
    by (simp_all add: demo_server_def)
  ultimately show ?thesis
    by (intro exI [of _ f] exI [of _ s'] exI [of _ rs] exI [of _ pool1] exI [of _ app1] conjI f(1) ret) simp_all
qed

text \<open>
  A handler returns: \<open>HandleReadable\<close> with the server's frame handler ends for every
  connection and every input, as long as signals interrupt it only finitely often.
\<close>

lemma HandleReadable_terminates:
  assumes "recv_laws os inbox" and "send_laws os wire" and "signal_laws os patience"
  shows "\<exists>x. HandleReadable os (Some (OnFrame os hdrs pb)) fd s = Some x"
proof (cases "umap_find (connections s) fd")
  case (Some st)
  obtain b s1 where "recv_loop os fd s = Some (b, s1)" using recv_loop_returns [OF assms(1,3)] by blast
  with ProcessInput_total [OF assms(2,3), of hdrs pb fd s1] Some show ?thesis by (simp add: HandleReadable_def)
qed (simp add: HandleReadable_def)

text \<open>
  C26. \<open>Send\<close> loses and reorders nothing and always returns: no other connection changes, and
  while the connection stays open the bytes given to the kernel followed by those still queued
  are the old ones followed by the frame; when it had to be closed, a prefix of them was sent.
\<close>

theorem Send_conserves_stream:
  assumes "send_laws os wire" and "signal_laws os patience" and "fd \<noteq> listen_fd s"
    and "umap_find (connections s) fd = Some st" and "bytes_sent st \<le> length (output_buffer st)"
  shows "\<exists>s'. Send os fd frame s = returns s' \<and>
    (\<forall>g. g \<noteq> fd \<longrightarrow> umap_find (connections s') g = umap_find (connections s) g \<and>
       wire (world s') g = wire (world s) g) \<and>
    (if umap_find (connections s') fd \<noteq> None
     then stream wire s' fd = stream wire s fd @ frame
     else (\<exists>lost. stream wire s fd @ frame = wire (world s') fd @ lost))"
proof -
  obtain s' where ret: "Send os fd frame s = returns s'" using Send_returns [OF assms(1,2)] by blast
  let ?q = "s\<lparr>connections := umap_put fd (st\<lparr>output_buffer := output_buffer st @ frame\<rparr>) (connections s)\<rparr>"
  have "stream wire ?q fd = stream wire s fd @ frame" using assms(4,5) by (simp add: stream_def)
  with Send_flush [OF assms(1) ret assms(4,3,5)] ret show ?thesis
    by (intro exI [of _ s']) (simp add: flush_result_def split: option.splits)
qed

theorem Send_conserves_stream_witness:
  "\<exists>s'. Send sim_os 5 ''hello'' (demo_server (demo_world\<lparr>sim_sends := [Ok 2, Err EINTR, Err EAGAIN]\<rparr>) []) = returns s' \<and>
     (if umap_find (connections s') 5 \<noteq> None then stream sim_wire s' 5 = ''hello''
      else (\<exists>lost. ''hello'' = sim_wire (world s') 5 @ lost))"
proof -
  let ?s = "demo_server (demo_world\<lparr>sim_sends := [Ok 2, Err EINTR, Err EAGAIN]\<rparr>) []"
  have s: "umap_find (connections ?s) 5 = Some (new_connection\<lparr>input_buffer := []\<rparr>)" "5 \<noteq> listen_fd ?s"
    "stream sim_wire ?s 5 = []"
    by (simp_all add: demo_server_def stream_def demo_world_def sim_boot_def new_connection_def)
  have "bytes_sent (new_connection\<lparr>input_buffer := []\<rparr>) \<le> length (output_buffer (new_connection\<lparr>input_buffer := []\<rparr>))"
    by (simp add: new_connection_def)
  from Send_conserves_stream [OF sim_send_laws sim_signal_laws s(2,1) this, of "''hello''"]
  show ?thesis unfolding s(3) append_Nil by (elim exE conjE) (intro exI conjI)
qed

text \<open>
  C7. Every state a serving program goes through is well formed: for a server built with any
  services and listening, after any sequence of turns of the event loop, whatever the peers
  send, each connection is open, registered for writing exactly when bytes are queued, and has
  sent no more than it queued; each registered descriptor belongs to the listener or to a
  connection; and the message pool holds only cleared messages under their types, within its
  limit.
\<close>

theorem server_states_well_formed:
  fixes s1 s :: "('w, 'm, 'a) server"
  assumes laws: "fd_laws os opened" "send_laws os wire" and pb: "pb_ops_ok pb" "pb_wire_ok pb"
    and typed: "\<forall>svc \<in> set svcs. service_typed pb svc"
    and listen: "Listen os endpoint (fold RpcServer_RegisterService svcs (RpcServer_new os config app w)) = (True, s1)"
    and run: "served os (cm_invoke os (Some (OnFrame os hdrs pb))) s1 s"
  shows "cm_inv opened {} s \<and> server_inv pb s"
proof -
  let ?s0 = "fold RpcServer_RegisterService svcs (RpcServer_new os config app w) :: ('w, 'm, 'a) server"
  have "server_inv pb ?s0 \<and> connections ?s0 = [] \<and> handlers ?s0 = [] \<and> listen_fd ?s0 = -1"
    by (rule registered_server_inv [OF typed])
  then have s0: "server_inv pb ?s0" "cm_inv opened {} ?s0" "listen_fd ?s0 = -1"
    by (auto intro: cm_invI)
  have inv1: "cm_inv opened {} s1" using cm_inv_Listen [OF laws(1) s0(2,3) listen] by simp
  have "server_inv pb s1"
    using s0(1) server_fields_Listen [OF listen] by (simp add: server_inv_def)
  with inv1 laws pb have "fd_laws os opened \<and> send_laws os wire \<and> pb_ops_ok pb \<and> pb_wire_ok pb \<and>
    cm_inv opened {} s1 \<and> server_inv pb s1" by simp
  from server_reactor.served_good [OF run this] show ?thesis by simp
qed

theorem server_states_well_formed_witness:
  "\<exists>s1. Listen sim_os (sc_listen_endpoint demo_config)
       (fold RpcServer_RegisterService [echo] (RpcServer_new sim_os demo_config 0 sim_boot)) = (True, s1) \<and>
     cm_inv sim_opened {} (Reactor_Stop (s1\<lparr>running := True\<rparr>)) \<and> server_inv sim_pb (Reactor_Stop (s1\<lparr>running := True\<rparr>))"
proof -
  let ?s0 = "fold RpcServer_RegisterService [echo] (RpcServer_new sim_os demo_config 0 sim_boot)"
  obtain s1 where s1: "Listen sim_os (sc_listen_endpoint demo_config) ?s0 = (True, s1)"
    by (simp add: Listen_def SetNonBlocking_def sim_os_def sim_new_fd_def demo_config_def Let_def)
  have run: "served sim_os (cm_invoke sim_os (Some (OnFrame sim_os ref_headers sim_pb))) s1
      (Reactor_Stop (s1\<lparr>running := True\<rparr>))"
    by (rule served.stop [OF served.start])
  have typed: "\<forall>svc \<in> set [echo]. service_typed sim_pb svc" by (simp add: echo_typed)
  from server_states_well_formed [OF sim_fd_laws sim_send_laws sim_pb_ok sim_pb_wire_ok typed s1 run] s1
  show ?thesis by (intro exI conjI) (assumption | erule conjunct1 | erule conjunct2)+
qed

text \<open>
  C34. A reply that cannot be sent leaves \<open>ProcessInput\<close> with a dangling reference: when a
  complete frame is in the input, the reply is not empty and sending on the descriptor fails
  for good, \<open>Send\<close> closes and erases the connection, and the loop of \<open>ProcessInput\<close> then reads the
  erased input buffer.
\<close>

theorem ProcessInput_dangling:
  fixes s :: "('w, 'm, 'a) server"
  assumes conn: "umap_find (connections s) fd = Some st" and fd: "fd \<noteq> listen_fd s"
    and st: "bytes_sent st \<le> length (output_buffer st)"
    and cut: "cut_frames (input_buffer st) = (f # fs, r, good)"
    and rep: "reply hdrs pb (srv_registry s) f (srv_pool s, srv_app s) = (Some g, pool1, app1)" and g: "g \<noteq> []"
    and broken: "\<And>d w. fst (sys_send os fd d w) = Err e" "e \<noteq> EINTR" "e \<noteq> EAGAIN"
  shows "ProcessInput os (Some (OnFrame os hdrs pb)) fd s = Some (Inl UseAfterFree)"
proof -
  let ?st = "st\<lparr>input_buffer := drop (length f) (input_buffer st)\<rparr>"
  let ?s1 = "s\<lparr>connections := umap_put fd ?st (connections s)\<rparr>"
  let ?s2 = "?s1\<lparr>srv_pool := pool1, srv_app := app1\<rparr>"
  obtain s3 where s3: "Send os fd g ?s2 = returns s3" "umap_find (connections s3) fd = None"
    using Send_hard_error [of ?s2 fd ?st g os e] fd st g broken by auto
  have "OnFrame os hdrs pb fd f ?s1 = returns s3"
    using OnFrame_reply [of hdrs pb ?s1 f "Some g" pool1 app1 os fd] rep s3(1) by simp
  moreover have "deliver (OnFrame os hdrs pb) fd fs s3 = Some (Inl UseAfterFree)"
    using s3(2) by (cases fs) (simp_all add: consume_def)
  ultimately have "deliver (OnFrame os hdrs pb) fd (f # fs) s = Some (Inl UseAfterFree)"
    using conn by (simp add: consume_def)
  with server_frames.cut_loop_deliver [OF conn cut, of os] conn show ?thesis
    by (simp add: ProcessInput_def)
qed

definition broken_os :: "sim sys" where
  "broken_os = sim_os\<lparr>sys_send := (\<lambda>fd d w. (Err (EOTHER 32), w))\<rparr>"

definition short_frame :: string where
  "short_frame = be32 4 @ be32 100"

lemma short_frame_cut: "cut_frames short_frame = ([short_frame], [], True)"
  using cut_frames_one [of short_frame "[]"]
  by (simp add: acceptable_frame_length short_frame_def well_framed_def cut_frames_short)

lemma short_frame_refused:
  "DecodeRequest ref_headers short_frame = Err (rpc_error kInvalidPacket ''header length exceeds frame size'')"
  by (simp add: DecodeRequest_def SplitFrame_def short_frame_def kLengthPrefixSize_def)

lemma error_frame:
  "\<exists>g. EncodeResponse ref_headers \<lparr>resp_request_id = 0, resp_status = kInvalidPacket,
     resp_error_text = ''header length exceeds frame size'', resp_payload = []\<rparr> = Ok g \<and> g \<noteq> []"
  by (simp add: EncodeResponse_def EncodeFrame_def ref_headers_def kLengthPrefixSize_def status_to_int32_def
      ref_serialize_response_def bounded_def put_num_def put_str_def Let_def nat_to_string.simps)

lemma short_frame_reply:
  "\<exists>g. reply ref_headers sim_pb reg short_frame (pool, app) = (Some g, pool, app) \<and> g \<noteq> []"
  using error_frame by (auto simp: reply_def HandleFrame_Decode_Err [OF short_frame_refused] short_frame_refused)

theorem ProcessInput_dangling_witness:
  "ProcessInput broken_os (Some (OnFrame broken_os ref_headers sim_pb)) 5 (demo_server demo_world short_frame)
     = Some (Inl UseAfterFree)"
proof -
  let ?s = "demo_server demo_world short_frame"
  let ?st = "new_connection\<lparr>input_buffer := short_frame\<rparr>"
  obtain g where g: "reply ref_headers sim_pb (srv_registry ?s) short_frame (srv_pool ?s, srv_app ?s) =
      (Some g, srv_pool ?s, srv_app ?s)" "g \<noteq> []"
    using short_frame_reply [of "srv_registry ?s" "srv_pool ?s" "srv_app ?s"] by (elim exE conjE)
  have conn: "umap_find (connections ?s) 5 = Some ?st" "5 \<noteq> listen_fd ?s" by (simp_all add: demo_server_def)
  have "bytes_sent ?st \<le> length (output_buffer ?st)" by (simp add: new_connection_def)
  moreover have "cut_frames (input_buffer ?st) = ([short_frame], [], True)" by (simp add: short_frame_cut)
  moreover have "fst (sys_send broken_os 5 d w) = Err (EOTHER 32)" for d w by (simp add: broken_os_def)
  ultimately show ?thesis
    by (rule ProcessInput_dangling [OF conn _ _ g]) simp_all
qed

text \<open>
  C33. The event loop reads a freed handler: when a connection is reported readable and
  writable at once and its peer has closed it, \<open>HandleReadable\<close> closes the connection, which
  erases its handler, and \<open>Reactor::Loop\<close> goes on to read the write callback of the erased entry.
\<close>

theorem dispatch_event_dangling:
  assumes conn: "umap_find (connections s) fd = Some st" and fd: "fd \<noteq> listen_fd s"
    and handler: "umap_find (handlers s) fd = Some (conn_handler events)"
    and eof: "sys_recv os fd 4096 (world s) = (Ok [], w1)"
  shows "dispatch_event (cm_invoke os fh) \<lparr>ev_events = EPOLLIN OR EPOLLOUT, ev_fd = fd\<rparr> s = Some (Inl UseAfterFree)"
proof -
  have "recv_loop os fd s = Some (False, Close os fd (s\<lparr>world := w1\<rparr>))"
    using conn eof by (subst recv_loop.simps) simp
  then have "cm_invoke os fh CbHandleReadable fd s = returns (Close os fd (s\<lparr>world := w1\<rparr>))"
    using conn by (simp add: cm_invoke_def HandleReadable_def)
  moreover have "umap_find (handlers (Close os fd (s\<lparr>world := w1\<rparr>))) fd = None"
    using conn fd by (simp add: Close_def Let_def)
  moreover have "has_event (EPOLLIN OR EPOLLOUT) EPOLLIN" "has_event (EPOLLIN OR EPOLLOUT) EPOLLOUT"
    "\<not> has_event (EPOLLIN OR EPOLLOUT) (EPOLLERR OR EPOLLHUP)"
    by (simp_all add: has_event_def epoll_defs)
  ultimately show ?thesis
    using handler by (simp add: dispatch_event_def Let_def conn_handler_def call_if_set_def)
qed

theorem dispatch_event_dangling_witness:
  "dispatch_event (cm_invoke sim_os (Some (OnFrame sim_os ref_headers sim_pb)))
     \<lparr>ev_events = EPOLLIN OR EPOLLOUT, ev_fd = 5\<rparr>
     (demo_server (demo_world\<lparr>sim_recvs := [Ok 0]\<rparr>) []) = Some (Inl UseAfterFree)"
  by (rule dispatch_event_dangling [where events = EPOLLIN])
    (simp_all add: demo_server_def sim_os_def sim_recv_def sim_get_def demo_world_def)

text \<open>
  A peer that sends requests and closes its side at once gets no answer: when the end of
  the stream follows the data in the same \<open>HandleReadable\<close>, the connection is closed before its
  buffered input is looked at; nothing is sent, no service runs.
\<close>

lemma HandleReadable_eof_discards:
  fixes s :: "('w, 'm, 'a) server"
  assumes conn: "umap_find (connections s) fd = Some st" and fd: "fd \<noteq> listen_fd s" and laws: "send_laws os wire"
    and data: "sys_recv os fd 4096 (world s) = (Ok d, w1)" "d \<noteq> []"
    and eof: "sys_recv os fd 4096 w1 = (Ok [], w2)"
  shows "\<exists>s'. HandleReadable os fh fd s = returns s' \<and> umap_find (connections s') fd = None \<and>
    srv_app s' = srv_app s \<and> wire (world s') = wire (world s)"
proof -
  let ?s1 = "s\<lparr>connections := umap_put fd (st\<lparr>input_buffer := input_buffer st @ d\<rparr>) (connections s), world := w2\<rparr>"
  have loop: "recv_loop os fd s = Some (False, Close os fd ?s1)"
    using conn data eof by (subst recv_loop.simps, simp, subst recv_loop.simps, simp)
  have "wire w2 = wire (world s)"
    using send_laws_keep(3) [OF laws, of fd 4096 "world s"] send_laws_keep(3) [OF laws, of fd 4096 w1] data eof by simp
  with loop conn fd laws show ?thesis by (simp add: HandleReadable_def Close_connections)
qed

text \<open>
  \<open>ProcessInput\<close> implements the framing specification: on a connection whose input buffer
  consists of the frames \<open>fs\<close> and a rest, it hands the handler exactly these frames in order,
  each taken off the buffer before its call, and closes the connection afterwards if the rest
  begins with an illegal length.
\<close>

lemma ProcessInput_refines_framing:
  assumes "umap_find (connections s) fd = Some st" and "cut_frames (input_buffer st) = (fs, r, good)"
  shows "ProcessInput os (Some (OnFrame os hdrs pb)) fd s =
    bind_run (deliver (OnFrame os hdrs pb) fd fs s) (\<lambda>s'. returns (if good then s' else Close os fd s'))"
  using server_frames.cut_loop_deliver [OF assms, of os os hdrs pb] assms(1) by (simp add: ProcessInput_def)

end
