(* ===== verification/ServiceGuarantees.thy ===== *)
theory ServiceGuarantees
  imports SimServices
begin

text \<open>
  What the parts behind a connection guarantee: the dispatcher runs the service that the
  request names and answers what the service computed, the registry finds exactly what was
  registered, pooled messages are always blank, and a controller never reports a stale error.
\<close>

section \<open>Dispatcher\<close>

text \<open>
  C8. \<open>HandleFrame\<close> implements the abstract call: on a frame that decodes it finds the method,
  runs the service once on the decoded argument and a blank answer, and encodes the answer
  under the request's identifier; the pooled messages it borrows and returns do not show. On
  any other frame it reports the decoding error and touches nothing.
\<close>

theorem HandleFrame_implements_call:
  assumes "pb_ops_ok pb" and "pb_wire_ok pb" and "registry_typed pb reg" and "pool_inv pb pool"
  shows "case DecodeRequest hdrs frame of
      Err e \<Rightarrow> HandleFrame hdrs pb reg frame (pool, app) = (Err e, pool, app)
    | Ok request \<Rightarrow> (case call_service pb reg request app of (answer, app') \<Rightarrow>
        \<exists>pool'. pool_inv pb pool' \<and> HandleFrame hdrs pb reg frame (pool, app) =
          ((case answer of
              Err e \<Rightarrow> Err e
            | Ok payload \<Rightarrow> EncodeResponse hdrs \<lparr>resp_request_id = req_request_id request, resp_status = kOk,
                resp_error_text = [], resp_payload = payload\<rparr>), pool', app'))"
proof (cases "DecodeRequest hdrs frame")
  case (Inl e)
  then show ?thesis by (simp add: HandleFrame_Decode_Err)
next
  case (Inr request)
  obtain answer app' where call: "call_service pb reg request app = (answer, app')" by fastforce
  from HandleFrame_refines [OF assms Inr call] Inr call show ?thesis by simp
qed

definition say_request :: RpcRequest where
  "say_request = \<lparr>req_request_id = 9, req_service_name = ''Echo'', req_method_name = ''Say'',
     req_metadata = [], req_payload = ''hi''\<rparr>"

lemma say_request_call: "call_service sim_pb echo_registry say_request 0 = (Ok ''hi'', 1)"
  by (simp add: call_service_def say_request_def Find_def method_key_def echo_registry_eq sim_pb_def echo_def
      size_to_int_small)

lemma say_request_frame: "\<exists>f. EncodeRequest ref_headers say_request = Ok f \<and> length f = 40"
  by (simp add: EncodeRequest_def EncodeFrame_def say_request_def ref_headers_def kLengthPrefixSize_def
      ref_serialize_request_def bounded_def put_num_def put_str_def Let_def nat_to_string.simps)

theorem HandleFrame_implements_call_witness:
  "\<exists>f pool'. DecodeRequest ref_headers f = Ok say_request \<and>
     HandleFrame ref_headers sim_pb echo_registry f (MessagePool_new 32, 0) =
       (EncodeResponse ref_headers \<lparr>resp_request_id = 9, resp_status = kOk, resp_error_text = [],
          resp_payload = ''hi''\<rparr>, pool', 1)"
proof -
  obtain f where f: "EncodeRequest ref_headers say_request = Ok f" "length f = 40" using say_request_frame by blast
  have dec: "DecodeRequest ref_headers f = Ok say_request"
    by (rule request_roundtrip [OF ref_headers_ok f(1)]) (simp add: f(2))
  have "req_request_id say_request = 9" by (simp add: say_request_def)
  with HandleFrame_implements_call [OF sim_pb_ok sim_pb_wire_ok echo_registry_typed pool_inv_new [of _ 32],
      where hdrs = ref_headers and frame = f and app = 0] dec
  have "\<exists>pool'. HandleFrame ref_headers sim_pb echo_registry f (MessagePool_new 32, 0) =
      (EncodeResponse ref_headers \<lparr>resp_request_id = 9, resp_status = kOk, resp_error_text = [],
         resp_payload = ''hi''\<rparr>, pool', 1)" by (auto simp: say_request_call)
  with dec show ?thesis by blast
qed

definition with_controller ::
  "(string \<Rightarrow> controller \<Rightarrow> controller) \<Rightarrow> ('m, 'a) pb_service \<Rightarrow> ('m, 'a) pb_service" where
  "with_controller change svc = svc\<lparr>svc_call := (\<lambda>meth c rq rs a.
     case svc_call svc meth c rq rs a of (finished, c1, rq1, rs1, a1) \<Rightarrow> (finished, change meth c1, rq1, rs1, a1))\<rparr>"

definition with_controllers ::
  "(string \<Rightarrow> controller \<Rightarrow> controller) \<Rightarrow> ('m, 'a) registry \<Rightarrow> ('m, 'a) registry" where
  "with_controllers change reg = map (\<lambda>(k, r). (k, r\<lparr>rm_service := with_controller change (rm_service r)\<rparr>)) reg"

lemma with_controller_fields:
  "svc_call (with_controller change svc) meth c rq rs a =
     (case svc_call svc meth c rq rs a of (finished, c1, rq1, rs1, a1) \<Rightarrow> (finished, change meth c1, rq1, rs1, a1))"
  "svc_request_prototype (with_controller change svc) = svc_request_prototype svc"
  "svc_response_prototype (with_controller change svc) = svc_response_prototype svc"
  by (simp_all add: with_controller_def)

lemma Find_with_controllers:
  "Find (with_controllers change reg) s m =
     map_sum id (\<lambda>r. r\<lparr>rm_service := with_controller change (rm_service r)\<rparr>) (Find reg s m)"
proof -
  have "list_ex (\<lambda>(_, r). rm_service_name r = s) (with_controllers change reg) =
      list_ex (\<lambda>(_, r). rm_service_name r = s) reg"
    by (induction reg) (auto simp: with_controllers_def)
  moreover have "umap_find (with_controllers change reg) k =
      map_option (\<lambda>r. r\<lparr>rm_service := with_controller change (rm_service r)\<rparr>) (umap_find reg k)" for k
    by (simp add: with_controllers_def map_of_map)
  ultimately show ?thesis by (simp add: Find_def split: option.split)
qed

text \<open>
  The dispatcher ignores the controller: let every service leave its controller in any
  other state, \<open>SetFailed\<close> and \<open>SetError\<close> included, and \<open>HandleFrame\<close> answers exactly the same bytes;
  a call that its service reported as failed is answered as a success.
\<close>

lemma HandleFrame_ignores_controller:
  "HandleFrame hdrs pb (with_controllers change reg) frame st = HandleFrame hdrs pb reg frame st"
proof (cases "DecodeRequest hdrs frame")
  case (Inr request)
  then show ?thesis
    by (cases st; cases "Find reg (req_service_name request) (req_method_name request)")
      (simp_all add: HandleFrame_def Find_with_controllers with_controller_fields Let_def case_prod_unfold
        split: sum.split)
qed (simp add: HandleFrame_def)

section \<open>Registry\<close>

text \<open>
  The registry finds exactly the methods that were registered: a result is the service
  and method asked for, and a miss is reported as an unknown method when the service has
  other methods and as an unknown service when it has none.
\<close>

lemma Find_exact:
  assumes "registry_ok reg"
  shows "case Find reg s m of
      Ok r \<Rightarrow> rm_service_name r = s \<and> rm_method_name r = m \<and> rm_method r = m \<and> svc_name (rm_service r) = s \<and>
        m \<in> set (svc_methods (rm_service r))
    | Err e \<Rightarrow> (\<forall>r \<in> set (ListMethods reg). \<not> (rm_service_name r = s \<and> rm_method_name r = m)) \<and>
        err_code e = (if \<exists>r \<in> set (ListMethods reg). rm_service_name r = s then kUnknownMethod else kUnknownService)"
proof (cases "Find reg s m")
  case (Inl e)
  then show ?thesis using Find_Err [OF assms Inl] by simp
next
  case (Inr r)
  then show ?thesis using Find_Ok [OF assms Inr] by simp
qed

section \<open>Pooled messages\<close>

text \<open>
  C32. A pooled message never carries old data: \<open>Acquire\<close> hands out a blank message of the
  prototype's type, whatever was released before, and acquiring and releasing keep the pool
  within its limit, with only cleared messages in the bucket of their type.
\<close>

theorem pool_messages_blank:
  assumes "pb_ops_ok pb" and "pool_inv pb p"
  shows "(case Acquire pb proto p of (h, p') \<Rightarrow>
      pm_message h = Some (pb_New pb proto) \<and> pm_key h = pb_full_name pb proto \<and> handle_inv pb h \<and> pool_inv pb p') \<and>
    (handle_inv pb h0 \<longrightarrow> pool_inv pb (snd (PooledMessage_Release pb h0 p)))"
  using Acquire_blank [OF assms, of proto] pool_inv_Release [OF assms, of h0] by (simp split: prod.split)

theorem pool_messages_blank_witness:
  "\<exists>h p'. Acquire sim_pb (''Req'', ''x'') (snd (PooledMessage_Release sim_pb
      \<lparr>pm_pool = True, pm_key = ''Req'', pm_message = Some (''Req'', ''secret'')\<rparr> (MessagePool_new 32))) = (h, p') \<and>
    pm_message h = Some (''Req'', [])"
proof -
  let ?h = "\<lparr>pm_pool = True, pm_key = ''Req'', pm_message = Some (''Req'', ''secret'')\<rparr>"
  have "handle_inv sim_pb ?h" by (simp add: handle_inv_def sim_pb_def)
  then have "pool_inv sim_pb (snd (PooledMessage_Release sim_pb ?h (MessagePool_new 32)))"
    using pool_messages_blank [OF sim_pb_ok pool_inv_new] by blast
  note blank = pool_messages_blank [OF sim_pb_ok this, of "(''Req'', ''x'')" ?h]
  obtain h p' where acq: "Acquire sim_pb (''Req'', ''x'')
      (snd (PooledMessage_Release sim_pb ?h (MessagePool_new 32))) = (h, p')" by fastforce
  have "pb_New sim_pb (''Req'', ''x'') = (''Req'', [])" by (simp add: sim_pb_def)
  with blank acq show ?thesis by simp
qed

section \<open>Controller\<close>

text \<open>
  A controller never reports a stale error: after any sequence of operations on a new
  controller, one that has not failed since its last reset carries the status \<open>kOk\<close> and no
  error text.
\<close>

lemma controller_no_stale_error:
  "\<not> Controller_Failed (controller_run ops hxrpccontroller) \<longrightarrow>
     Controller_ErrorCode (controller_run ops hxrpccontroller) = kOk \<and>
     Controller_ErrorText (controller_run ops hxrpccontroller) = []"
  using controller_run_consistent [of hxrpccontroller ops]
  by (simp add: controller_consistent_def controller_defs)

end
