(* ===== verification/EndToEnd.thy ===== *)
theory EndToEnd
  imports ClientGuarantees ServerGuarantees ServiceGuarantees
begin

text \<open>
  Client and server together. A call through \<open>RpcClient::InvokeAsync\<close> whose request frame reaches
  \<open>RpcServer::OnFrame\<close> and whose reply comes back has the outcome of calling the service directly:
  the two programs share only the bytes on the wire, and the codec, the registry, the
  dispatcher, the pools and the serializer on both sides cancel out.
\<close>

definition call_request :: "MethodDescriptor \<Rightarrow> string \<Rightarrow> CallOptions \<Rightarrow> ('w, 'r, 'm) rpc_client \<Rightarrow> RpcRequest" where
  "call_request meth payload options c = \<lparr>req_request_id = cl_next_request_id c, req_service_name = md_service meth,
     req_method_name = md_name meth, req_metadata = opt_metadata options, req_payload = payload\<rparr>"

lemma InvokeAsync_answered:
  assumes "resolve (md_service meth) (md_name meth) (cl_resolver c) = (Returned (Ok inst), res)"
    and "pb_SerializeToString pb request = Some payload"
    and "EncodeRequest hdrs (call_request meth payload options c) = Ok f"
    and "RoundTrip os (inst_endpoint inst) f options (cl_transport c) = Some (Ok g, t)"
    and "FinishInvoke hdrs pb \<lparr>ctx_service_name = md_service meth, ctx_method_name = md_name meth\<rparr> g response (cl_pool c)
      = (r, response', pool')"
  shows "\<exists>c'. InvokeAsync os hdrs pb resolve meth request response options c = Some (Returned r, response', c')"
  using assms by (simp add: InvokeAsync_def Serialize_def RoundTripAsync_def call_request_def Let_def)

text \<open>
  C1. Remote calls are transparent: when the request frame is within the server's frame limit
  and the round trip brings back the server's reply to it, the call returns what the service
  computes from the very argument, metadata and method of the caller. If the service answers,
  the caller's response object becomes that answer; if the registry, the decoding or the
  service refuses, the caller gets that error with its code and text; the only other outcome is
  a serialisation error of the reply's header. The server's state changes exactly as by the
  direct call.
\<close>

theorem remote_call_transparent:
  assumes hdrs: "pb_headers_ok hdrs" and pb: "pb_ops_ok pb" "pb_wire_ok pb"
    and srv: "registry_typed pb reg" "pool_inv pb pool" and cl: "pool_inv pb (cl_pool c)"
    and laws: "send_laws os wire" "recv_laws os inbox"
    and res: "resolve (md_service meth) (md_name meth) (cl_resolver c) = (Returned (Ok inst), rs)"
    and ser: "pb_SerializeToString pb request = Some payload"
    and enc: "EncodeRequest hdrs (call_request meth payload options c) = Ok f" and size: "length f \<le> 4194308"
    and rep: "reply hdrs pb reg f (pool, app) = (Some g, pool1, app1)"
    and trip: "RoundTrip os (inst_endpoint inst) f options (cl_transport c) = Some (Ok g, t)"
    and call: "call_service pb reg (call_request meth payload options c) app = (answer, app')"
  shows "app1 = app' \<and> (\<exists>x response' c'.
    InvokeAsync os hdrs pb resolve meth request response options c = Some (x, response', c') \<and>
    (case answer of
       Err e \<Rightarrow> x = Returned (Err e) \<and> response' = response
     | Ok p \<Rightarrow>
         (\<forall>ans. pb_SerializeToString pb ans = Some p \<and> pb_full_name pb ans = pb_full_name pb response \<longrightarrow>
            x = Returned (Ok ()) \<and> response' = ans) \<or>
         (\<exists>e. err_code e = kSerializeError \<and> x = Returned (Err e) \<and> response' = response)))"
proof -
  let ?ctx = "\<lparr>ctx_service_name = md_service meth, ctx_method_name = md_name meth\<rparr>"
  have dec: "DecodeRequest hdrs f = Ok (call_request meth payload options c)"
    by (rule request_roundtrip [OF hdrs enc]) (use size in simp)
  have "length g < frame_limit"
    using RoundTrip_streams [OF laws trip] by (auto simp: acceptable_frame_length)
  from reply_identifies [OF hdrs pb srv dec rep this] call
  obtain resp where resp: "DecodeResponse hdrs g = Ok resp" and app1: "app1 = app'"
    and outcome: "case answer of
       Ok p \<Rightarrow> resp_status resp = kOk \<and> resp_payload resp = p \<and> resp_error_text resp = []
         \<or> resp_status resp = kSerializeError
     | Err e \<Rightarrow> resp_status resp = err_code e \<and> resp_error_text resp = err_message e \<and> resp_payload resp = []"
    by auto
  obtain r response' pool' where fin: "FinishInvoke hdrs pb ?ctx g response (cl_pool c) = (r, response', pool')"
    by (metis prod_cases3)
  obtain c' where ret: "InvokeAsync os hdrs pb resolve meth request response options c = Some (Returned r, response', c')"
    using InvokeAsync_answered [where resolve = resolve and meth = meth and c = c and inst = inst, OF res ser enc trip fin] by blast
  have "case answer of
       Err e \<Rightarrow> r = Err e \<and> response' = response
     | Ok p \<Rightarrow> (\<forall>ans. pb_SerializeToString pb ans = Some p \<and> pb_full_name pb ans = pb_full_name pb response \<longrightarrow>
            r = Ok () \<and> response' = ans) \<or>
         (\<exists>e. err_code e = kSerializeError \<and> r = Err e \<and> response' = response)"
  proof (cases answer)
    case (Inl e)
    have "err_code e \<noteq> kOk" using call_service_error call Inl by fastforce
    with Inl outcome fin FinishInvoke_failure [OF resp, of pb ?ctx response "cl_pool c"] show ?thesis by auto
  next
    case (Inr p)
    show ?thesis
    proof (cases "resp_status resp = kOk")
      case True
      have "r = Ok () \<and> response' = ans"
        if "pb_SerializeToString pb ans = Some p" "pb_full_name pb ans = pb_full_name pb response" for ans
        using FinishInvoke_success [OF pb cl resp True, of ans ?ctx response ?ctx] that outcome Inr True fin
        by (auto simp: Serialize_def)
      then show ?thesis using Inr by auto
    next
      case False
      with outcome Inr fin FinishInvoke_failure [OF resp False, of pb ?ctx response "cl_pool c"] show ?thesis by auto
    qed
  qed
  with app1 ret show ?thesis
    by (intro conjI exI [of _ "Returned r"] exI [of _ response'] exI [of _ c'])
      (simp_all split: sum.splits)
qed

text \<open>On the test bench: \<open>Echo.Say\<close> called with \<open>hi\<close>, the server's answer waiting on the connection.\<close>

abbreviation say :: MethodDescriptor where
  "say \<equiv> \<lparr>md_service = ''Echo'', md_name = ''Say''\<rparr>"

lemma say_frame:
  obtains f where "EncodeRequest ref_headers (call_request say ''hi'' default_call_options (demo_rpc_client w)) = Ok f"
    "length f = 40"
  by (simp add: EncodeRequest_def EncodeFrame_def call_request_def demo_rpc_client_def default_call_options_def
      ref_headers_def kLengthPrefixSize_def ref_serialize_request_def bounded_def put_num_def put_str_def Let_def
      nat_to_string.simps)

lemma say_call:
  "call_service sim_pb echo_registry (call_request say ''hi'' default_call_options (demo_rpc_client w)) 0 = (Ok ''hi'', 1)"
  by (simp add: call_service_def call_request_def demo_rpc_client_def default_call_options_def Find_def method_key_def
      echo_registry_eq sim_pb_def echo_def size_to_int_small)

theorem remote_call_transparent_witness:
  "\<exists>f g c'. EncodeRequest ref_headers (call_request say ''hi'' default_call_options (demo_rpc_client sim_boot)) = Ok f \<and>
     fst (reply ref_headers sim_pb echo_registry f (MessagePool_new 32, 0)) = Some g \<and>
     (InvokeAsync sim_os ref_headers sim_pb demo_resolve say (''Req'', ''hi'') (''Resp'', ''old'') default_call_options
        (demo_rpc_client (answered_world g)) = Some (Returned (Ok ()), (''Resp'', ''hi''), c') \<or>
      (\<exists>e. err_code e = kSerializeError \<and> InvokeAsync sim_os ref_headers sim_pb demo_resolve say (''Req'', ''hi'')
        (''Resp'', ''old'') default_call_options (demo_rpc_client (answered_world g)) =
          Some (Returned (Err e), (''Resp'', ''old''), c')))"
proof -
  have same: "call_request say ''hi'' default_call_options (demo_rpc_client w) =
      call_request say ''hi'' default_call_options (demo_rpc_client sim_boot)" for w
    by (simp add: call_request_def demo_rpc_client_def)
  obtain f where f: "EncodeRequest ref_headers (call_request say ''hi'' default_call_options (demo_rpc_client sim_boot)) = Ok f"
    "length f = 40" by (rule say_frame)
  obtain g where g: "EncodeResponse ref_headers (answer_with_id 1) = Ok g" "acceptable_frame g"
    by (rule answer_with_id_frame [of 1]) simp_all
  have dec: "DecodeRequest ref_headers f = Ok (call_request say ''hi'' default_call_options (demo_rpc_client sim_boot))"
    by (rule request_roundtrip [OF ref_headers_ok f(1)]) (simp add: f(2))
  obtain pool1 where rep: "reply ref_headers sim_pb echo_registry f (MessagePool_new 32, 0) = (Some g, pool1, 1)"
    using HandleFrame_refines [OF sim_pb_ok sim_pb_wire_ok echo_registry_typed pool_inv_new [of _ 32] dec say_call] g(1)
    by (auto simp: reply_def answer_with_id_def call_request_def demo_rpc_client_def)
  let ?c = "demo_rpc_client (answered_world g)"
  have nonempty: "f \<noteq> []" using f(2) by auto
  obtain t where trip: "RoundTrip sim_os (inst_endpoint \<lparr>inst_id = ''h:1'', inst_endpoint = \<lparr>ep_host = ''h'', ep_port = 1\<rparr>\<rparr>) f
      default_call_options (cl_transport ?c) = Some (Ok g, t)"
    using demo_round_trip [OF g(2) nonempty, of default_call_options] by (auto simp: demo_rpc_client_def)
  have pool: "pool_inv sim_pb (cl_pool ?c)" by (simp add: demo_rpc_client_def pool_inv_new)
  have res: "demo_resolve (md_service say) (md_name say) (cl_resolver ?c) =
      (Returned (Ok \<lparr>inst_id = ''h:1'', inst_endpoint = \<lparr>ep_host = ''h'', ep_port = 1\<rparr>\<rparr>), ())"
    by (simp add: demo_resolve_def)
  have ser: "pb_SerializeToString sim_pb (''Req'', ''hi'') = Some ''hi''" "pb_SerializeToString sim_pb (''Resp'', ''hi'') = Some ''hi''"
    "pb_full_name sim_pb (''Resp'', ''hi'') = pb_full_name sim_pb (''Resp'', ''old'')"
    by (simp_all add: sim_pb_def)
  have size: "length f \<le> 4194308" using f(2) by simp
  note transparent = remote_call_transparent [where resolve = demo_resolve and meth = say and c = ?c and pb = sim_pb,
      OF ref_headers_ok sim_pb_ok sim_pb_wire_ok echo_registry_typed pool_inv_new [of _ 32] pool sim_send_laws sim_recv_laws
        res ser(1) f(1) [folded same [of "answered_world g"]] size rep trip say_call, of "(''Resp'', ''old'')"]
  then obtain x response' c' where
    call: "InvokeAsync sim_os ref_headers sim_pb demo_resolve say (''Req'', ''hi'') (''Resp'', ''old'') default_call_options ?c
      = Some (x, response', c')"
    and out: "x = Returned (Ok ()) \<and> response' = (''Resp'', ''hi'') \<or>
      (\<exists>e. err_code e = kSerializeError \<and> x = Returned (Err e) \<and> response' = (''Resp'', ''old''))"
    using ser(2,3) by auto
  show ?thesis
    by (rule exI [of _ f], rule exI [of _ g], rule exI [of _ c']) (use f rep call out in auto)
qed

end
