(* ===== verification/ClientThreads.thy ===== *)
theory ClientThreads
  imports ClientGuarantees
begin

text \<open>
  Concurrent calls on one transport. \<open>TcpClientTransport\<close> guards its idle pool by a mutex and is
  shared by all threads of a client. A call is split into the steps between which other
  threads run: borrowing a connection, sending the request, receiving the answer and giving
  the connection back. \<open>trips_run\<close> interleaves any number of calls.

  Borrowing is one step: its accesses to the pool form one critical section, and the system
  calls of a new connection concern only the descriptor that it has just created.
\<close>

datatype trip =
    Ready Endpoint string CallOptions
  | Connected Endpoint string int
  | Sent Endpoint int
  | Ended "RpcError + string"

definition trip_step :: "'w sys \<Rightarrow> trip \<Rightarrow> 'w client \<Rightarrow> (trip \<times> 'w client) option" where
  "trip_step os t c =
     (case t of
        Ready endpoint frame options \<Rightarrow>
          (case BorrowConnection os endpoint options c of
             (Err err, c1) \<Rightarrow> Some (Ended (Err err), c1)
           | (Ok fd, c1) \<Rightarrow> Some (Connected endpoint frame fd, c1))
      | Connected endpoint frame fd \<Rightarrow>
          (case SendAll os fd frame (cworld c) of
             None \<Rightarrow> None
           | Some (Err err, w) \<Rightarrow> Some (Ended (Err err), c\<lparr>cworld := CloseSocket os fd w\<rparr>)
           | Some (Ok _, w) \<Rightarrow> Some (Sent endpoint fd, c\<lparr>cworld := w\<rparr>))
      | Sent endpoint fd \<Rightarrow>
          (case ReceiveFrame os fd (cworld c) of
             None \<Rightarrow> None
           | Some (Err err, w) \<Rightarrow> Some (Ended (Err err), c\<lparr>cworld := CloseSocket os fd w\<rparr>)
           | Some (Ok resp, w) \<Rightarrow> Some (Ended (Ok resp), ReturnConnection os endpoint fd (c\<lparr>cworld := w\<rparr>)))
      | Ended r \<Rightarrow> None)"

text \<open>One call left to itself: its steps one after the other.\<close>

fun trip_run :: "'w sys \<Rightarrow> nat \<Rightarrow> trip \<Rightarrow> 'w client \<Rightarrow> trip \<times> 'w client" where
  "trip_run os 0 t c = (t, c)"
| "trip_run os (Suc n) t c = (case trip_step os t c of None \<Rightarrow> (t, c) | Some (t1, c1) \<Rightarrow> trip_run os n t1 c1)"

inductive trips_run :: "'w sys \<Rightarrow> 'w client \<Rightarrow> trip list \<Rightarrow> 'w client \<Rightarrow> bool" for os c0 where
  start: "trips_run os c0 (map (\<lambda>(e, f, opts). Ready e f opts) calls) c0"
| step: "trips_run os c0 ts c \<Longrightarrow> i < length ts \<Longrightarrow> trip_step os (ts ! i) c = Some (t, c1) \<Longrightarrow>
    trips_run os c0 (ts[i := t]) c1"

text \<open>The connection that a call holds.\<close>

fun holds :: "trip \<Rightarrow> int list" where
  "holds (Connected _ _ fd) = [fd]"
| "holds (Sent _ fd) = [fd]"
| "holds _ = []"

abbreviation held :: "trip list \<Rightarrow> int list" where
  "held ts \<equiv> concat (map holds ts)"

text \<open>
  What POSIX promises about independence: a call on one descriptor leaves the bytes sent and
  the bytes to come on every other descriptor alone, and a new descriptor is a new stream.
\<close>

definition others_kept :: "('w \<Rightarrow> int \<Rightarrow> string) \<Rightarrow> int set \<Rightarrow> 'w \<Rightarrow> 'w \<Rightarrow> bool" where
  "others_kept bytes S w w' \<longleftrightarrow> (\<forall>fd. fd \<notin> S \<longrightarrow> bytes w' fd = bytes w fd)"

definition independent :: "'w sys \<Rightarrow> ('w \<Rightarrow> int \<Rightarrow> string) \<Rightarrow> bool" where
  "independent os bytes \<longleftrightarrow>
     (\<forall>w. others_kept bytes {} w (snd (sys_socket os w))) \<and>
     (\<forall>fd opt w. others_kept bytes {fd} w (snd (sys_setsockopt os fd opt w))) \<and>
     (\<forall>fd w. others_kept bytes {fd} w (snd (sys_getfl os fd w))) \<and>
     (\<forall>fd fl w. others_kept bytes {fd} w (snd (sys_setfl os fd fl w))) \<and>
     (\<forall>fd a p w. others_kept bytes {fd} w (snd (sys_connect os fd a p w))) \<and>
     (\<forall>fd w. others_kept bytes {fd} w (sys_close os fd w)) \<and>
     (\<forall>fd d w. others_kept bytes {fd} w (snd (sys_send os fd d w))) \<and>
     (\<forall>fd n w. others_kept bytes {fd} w (snd (sys_recv os fd n w)))"

section \<open>A call alone is the round trip\<close>

lemma trip_run_RoundTrip:
  assumes "RoundTrip os endpoint frame opts c = Some (r, c')"
  shows "trip_run os 3 (Ready endpoint frame opts) c = (Ended r, c')"
  using assms
  by (cases rule: RoundTrip_cases) (simp_all add: numeral_3_eq_3 trip_step_def)

section \<open>Descriptors\<close>

lemma distinct_concat_nth:
  "distinct (concat xss) \<Longrightarrow> i < length xss \<Longrightarrow> j < length xss \<Longrightarrow> i \<noteq> j \<Longrightarrow> set (xss ! i) \<inter> set (xss ! j) = {}"
proof (induction xss arbitrary: i j)
  case (Cons xs xss)
  have apart: "set xs \<inter> set (xss ! k) = {}" if "k < length xss" for k
  proof -
    have "set (xss ! k) \<subseteq> set (concat xss)" using that by (auto intro!: bexI [of _ "xss ! k"])
    then have "set xs \<inter> set (xss ! k) \<subseteq> set xs \<inter> set (concat xss)" by (rule Int_mono [OF subset_refl])
    with Cons.prems(1) show ?thesis by simp
  qed
  show ?case
  proof (cases i)
    case 0
    with Cons.prems(3,4) obtain k where "j = Suc k" "k < length xss" by (cases j) auto
    with 0 apart show ?thesis by simp
  next
    case (Suc l)
    show ?thesis
    proof (cases j)
      case 0
      with Suc Cons.prems(2) apart [of l] show ?thesis by (simp add: Int_commute)
    next
      case (Suc k)
      with \<open>i = Suc l\<close> Cons.prems Cons.IH [of l k] show ?thesis by simp
    qed
  qed
qed simp

definition trips_inv :: "('w \<Rightarrow> int set) \<Rightarrow> int set \<Rightarrow> trip list \<Rightarrow> 'w client \<Rightarrow> bool" where
  "trips_inv opened O0 ts c \<longleftrightarrow> client_inv opened c \<and> distinct (held ts) \<and> (\<forall>fd \<in> set (held ts). 0 \<le> fd \<and> fd \<notin> O0) \<and>
     outside_pool opened c = O0 \<union> set (held ts)"

text \<open>A connection that is open and not in the pool counts as borrowed from the client without it.\<close>

lemma held_borrowed:
  assumes laws: "fd_laws os opened" and inv: "client_inv opened c" and fd: "0 \<le> fd" "fd \<in> outside_pool opened c"
  obtains c0 where "borrowed opened fd c0 c" "outside_pool opened c0 = outside_pool opened c - {fd}"
proof
  let ?c0 = "c\<lparr>cworld := CloseSocket os fd (cworld c)\<rparr>"
  show out: "outside_pool opened ?c0 = outside_pool opened c - {fd}"
    using CloseSocket_opened [OF laws fd(1)] by (auto simp: outside_pool_def)
  then show "borrowed opened fd ?c0 c"
    using inv fd by (auto simp: borrowed_def outside_pool_def)
qed

lemma close_held:
  assumes laws: "fd_laws os opened" and inv: "client_inv opened c" and fd: "0 \<le> fd" "fd \<in> outside_pool opened c"
    and w: "opened w = opened (cworld c)"
  shows "client_inv opened (c\<lparr>cworld := CloseSocket os fd w\<rparr>) \<and>
    outside_pool opened (c\<lparr>cworld := CloseSocket os fd w\<rparr>) = outside_pool opened c - {fd}"
proof -
  obtain c0 where c0: "borrowed opened fd c0 c" "outside_pool opened c0 = outside_pool opened c - {fd}"
    by (rule held_borrowed [OF laws inv fd])
  from borrowed_close [OF laws borrowed_world [OF c0(1) w]] c0(2) show ?thesis by simp
qed

lemma return_held:
  assumes laws: "fd_laws os opened" and inv: "client_inv opened c" and fd: "0 \<le> fd" "fd \<in> outside_pool opened c"
    and w: "opened w = opened (cworld c)"
  shows "client_inv opened (ReturnConnection os e fd (c\<lparr>cworld := w\<rparr>)) \<and>
    outside_pool opened (ReturnConnection os e fd (c\<lparr>cworld := w\<rparr>)) = outside_pool opened c - {fd}"
proof -
  obtain c0 where c0: "borrowed opened fd c0 c" "outside_pool opened c0 = outside_pool opened c - {fd}"
    by (rule held_borrowed [OF laws inv fd])
  from ReturnConnection_returned [OF laws borrowed_world [OF c0(1) w]] c0(2) show ?thesis by simp
qed

lemma outside_pool_world: "opened w = opened (cworld c) \<Longrightarrow> outside_pool opened (c\<lparr>cworld := w\<rparr>) = outside_pool opened c"
  by (simp add: outside_pool_def)

text \<open>The outcomes of one step.\<close>

lemma trip_step_cases:
  assumes "trip_step os t c = Some (t1, c1)"
  obtains (refused) e f opts err where "t = Ready e f opts" "BorrowConnection os e opts c = (Err err, c1)" "t1 = Ended (Err err)"
  | (connected) e f opts fd where "t = Ready e f opts" "BorrowConnection os e opts c = (Ok fd, c1)" "t1 = Connected e f fd"
  | (sent) e f fd w where "t = Connected e f fd" "SendAll os fd f (cworld c) = Some (Ok (), w)" "t1 = Sent e fd"
      "c1 = c\<lparr>cworld := w\<rparr>"
  | (broken) e f fd w err where "t = Connected e f fd" "SendAll os fd f (cworld c) = Some (Err err, w)" "t1 = Ended (Err err)"
      "c1 = c\<lparr>cworld := CloseSocket os fd w\<rparr>"
  | (received) e fd w resp where "t = Sent e fd" "ReceiveFrame os fd (cworld c) = Some (Ok resp, w)" "t1 = Ended (Ok resp)"
      "c1 = ReturnConnection os e fd (c\<lparr>cworld := w\<rparr>)"
  | (failed) e fd w err where "t = Sent e fd" "ReceiveFrame os fd (cworld c) = Some (Err err, w)" "t1 = Ended (Err err)"
      "c1 = c\<lparr>cworld := CloseSocket os fd w\<rparr>"
  using assms by (auto simp: trip_step_def split: trip.splits prod.splits sum.splits option.splits)

lemma trips_inv_step:
  assumes laws: "fd_laws os opened" and inv: "trips_inv opened O0 (xs @ t # ys) c" and step: "trip_step os t c = Some (t1, c1)"
  shows "trips_inv opened O0 (xs @ t1 # ys) c1"
proof -
  have ci: "client_inv opened c" using inv by (simp add: trips_inv_def)
  from step show ?thesis
  proof (cases rule: trip_step_cases)
    case (refused e f opts err)
    with BorrowConnection_borrowed [OF laws ci refused(2)] inv show ?thesis by (auto simp: trips_inv_def)
  next
    case (connected e f opts fd)
    with BorrowConnection_borrowed [OF laws ci connected(2)] inv show ?thesis by (auto simp: trips_inv_def borrowed_def)
  next
    case (sent e f fd w)
    with SendAll_opened [OF laws sent(2)] inv show ?thesis by (auto simp: trips_inv_def client_inv_world outside_pool_world)
  next
    case (broken e f fd w err)
    with inv have "0 \<le> fd" "fd \<in> outside_pool opened c" by (auto simp: trips_inv_def)
    with close_held [OF laws ci this SendAll_opened [OF laws broken(2)]] broken inv show ?thesis by (auto simp: trips_inv_def)
  next
    case (received e fd w resp)
    with inv have "0 \<le> fd" "fd \<in> outside_pool opened c" by (auto simp: trips_inv_def)
    with return_held [OF laws ci this ReceiveFrame_opened [OF laws received(2)]] received inv show ?thesis
      by (auto simp: trips_inv_def)
  next
    case (failed e fd w err)
    with inv have "0 \<le> fd" "fd \<in> outside_pool opened c" by (auto simp: trips_inv_def)
    with close_held [OF laws ci this ReceiveFrame_opened [OF laws failed(2)]] failed inv show ?thesis
      by (auto simp: trips_inv_def)
  qed
qed

lemma trips_run_inv:
  assumes "fd_laws os opened" and "client_inv opened c0" and "trips_run os c0 ts c"
  shows "trips_inv opened (outside_pool opened c0) ts c"
  using assms(3)
proof induction
  case (start calls)
  have none: "held (map (\<lambda>(e, f, opts). Ready e f opts) calls) = []" by (induction calls) auto
  show ?case unfolding trips_inv_def none using assms(2) by simp
next
  case (step ts c i t c1)
  let ?xs = "take i ts" and ?ys = "drop (Suc i) ts"
  have "trips_inv opened (outside_pool opened c0) (?xs @ ts ! i # ?ys) c" using step by (simp add: id_take_nth_drop [symmetric])
  from trips_inv_step [OF assms(1) this step.hyps(3)] show ?case
    using step.hyps(2) by (simp add: upd_conv_take_nth_drop)
qed

section \<open>Isolation\<close>

lemma others_kept_refl [simp]: "others_kept bytes S w w"
  by (simp add: others_kept_def)

lemma others_kept_trans:
  assumes "others_kept bytes S w w1" and "others_kept bytes T w1 w2" and "S \<subseteq> U" and "T \<subseteq> U"
  shows "others_kept bytes U w w2"
  unfolding others_kept_def
proof (intro allI impI)
  fix fd
  assume "fd \<notin> U"
  with assms(3,4) have "fd \<notin> S" "fd \<notin> T" by auto
  with assms(1,2) show "bytes w2 fd = bytes w fd" by (simp add: others_kept_def)
qed

lemma independentD:
  assumes "independent os bytes"
  shows "sys_socket os w = (r1, w') \<Longrightarrow> others_kept bytes {} w w'"
    and "sys_setsockopt os fd opt w = (r2, w') \<Longrightarrow> others_kept bytes {fd} w w'"
    and "sys_getfl os fd w = (r3, w') \<Longrightarrow> others_kept bytes {fd} w w'"
    and "sys_setfl os fd fl w = (r2, w') \<Longrightarrow> others_kept bytes {fd} w w'"
    and "sys_connect os fd a p w = (r2, w') \<Longrightarrow> others_kept bytes {fd} w w'"
    and "others_kept bytes {fd} w (sys_close os fd w)"
    and "sys_send os fd d w = (r4, w') \<Longrightarrow> others_kept bytes {fd} w w'"
    and "sys_recv os fd n w = (r5, w') \<Longrightarrow> others_kept bytes {fd} w w'"
  using assms unfolding independent_def by (metis snd_conv)+

lemma CloseSocket_kept: "independent os bytes \<Longrightarrow> others_kept bytes {fd} w (CloseSocket os fd w)"
  by (simp add: CloseSocket_def independentD)

lemma SendAll_kept:
  assumes laws: "independent os bytes" and ret: "SendAll os fd data w = Some (r, w')"
  shows "others_kept bytes {fd} w w'"
  using ret unfolding SendAll_def
  by (rule send_from_rule [where I = "\<lambda>_. others_kept bytes {fd} w"])
    (auto intro: others_kept_trans [OF _ independentD(7) [OF laws]])

lemma RecvAll_kept:
  assumes laws: "independent os bytes" and ret: "RecvAll os fd n w = Some (r, w')"
  shows "others_kept bytes {fd} w w'"
  using ret unfolding RecvAll_def
  by (rule recv_until_rule [where I = "\<lambda>_. others_kept bytes {fd} w"])
    (auto intro: others_kept_trans [OF _ independentD(8) [OF laws]])

lemma ReceiveFrame_kept:
  assumes laws: "independent os bytes" and ret: "ReceiveFrame os fd w = Some (r, w')"
  shows "others_kept bytes {fd} w w'"
  using ret
  by (cases rule: ReceiveFrame_cases) (auto intro: others_kept_trans RecvAll_kept [OF laws])

lemma ConfigureSocket_kept:
  assumes laws: "independent os bytes" and ret: "ConfigureSocket os fd opts w = (r, w')"
  shows "others_kept bytes {fd} w w'"
  using ret
  by (auto simp: ConfigureSocket_def split: prod.splits sum.splits
      intro: others_kept_trans independentD(2) [OF laws])

lemma SetSocketBlockingMode_kept:
  assumes laws: "independent os bytes" and ret: "SetSocketBlockingMode os fd b w = (r, w')"
  shows "others_kept bytes {fd} w w'"
  using ret
  by (auto simp: SetSocketBlockingMode_def split: prod.splits sum.splits
      intro: others_kept_trans independentD(3,4) [OF laws])

text \<open>Connecting and borrowing touch only a new descriptor and one that was idle.\<close>

definition touches_outside :: "('w \<Rightarrow> int \<Rightarrow> string) \<Rightarrow> int set \<Rightarrow> 'w \<Rightarrow> 'w \<Rightarrow> bool" where
  "touches_outside bytes X w w' \<longleftrightarrow> (\<forall>fd \<in> X. bytes w' fd = bytes w fd)"

lemma touches_outside_kept: "others_kept bytes S w w' \<Longrightarrow> S \<inter> X = {} \<Longrightarrow> touches_outside bytes X w w'"
  by (auto simp: others_kept_def touches_outside_def)

lemma touches_outside_trans:
  "touches_outside bytes X w w1 \<Longrightarrow> touches_outside bytes X w1 w2 \<Longrightarrow> touches_outside bytes X w w2"
  by (simp add: touches_outside_def)

lemma ConnectTo_kept:
  assumes fds: "fd_laws os opened" and laws: "independent os bytes" and ret: "ConnectTo os e opts w = (r, w')"
    and X: "X \<subseteq> opened w"
  shows "touches_outside bytes X w w'"
proof (cases "sys_socket os w")
  case (Pair x w1)
  have w1: "touches_outside bytes X w w1"
    by (rule touches_outside_kept [OF independentD(1) [OF laws Pair]]) simp
  show ?thesis
  proof (cases x)
    case (Inl err)
    with Pair ret w1 show ?thesis by (auto simp: ConnectTo_def)
  next
    case (Inr fd)
    have new: "{fd} \<inter> X = {}" using fd_laws_socket [OF fds, of w] Pair Inr X by auto
    have close: "touches_outside bytes X v (sys_close os fd v)" for v
      by (rule touches_outside_kept [OF independentD(6) [OF laws] new])
    have config: "touches_outside bytes X v v'" if "ConfigureSocket os fd opts v = (y, v')" for v v' y
      by (rule touches_outside_kept [OF ConfigureSocket_kept [OF laws that] new])
    have connect: "touches_outside bytes X v v'" if "sys_connect os fd a q v = (y, v')" for a q v v' y
      by (rule touches_outside_kept [OF independentD(5) [OF laws that] new])
    show ?thesis
      using ret Pair Inr w1 close
      by (auto simp: ConnectTo_def split: option.splits prod.splits sum.splits
          dest!: config connect intro: touches_outside_trans)
  qed
qed

lemma BorrowConnection_kept:
  assumes fds: "fd_laws os opened" and laws: "independent os bytes" and inv: "client_inv opened c"
    and ret: "BorrowConnection os e opts c = (r, c')"
  shows "touches_outside bytes (outside_pool opened c) (cworld c) (cworld c')"
proof (cases "pop_idle (EndpointKey e) (idle_pool c)")
  case (Pair x p1)
  let ?X = "outside_pool opened c"
  have X: "?X \<subseteq> opened (cworld c)" by (auto simp: outside_pool_def)
  show ?thesis
  proof (cases x)
    case None
    with Pair ret ConnectTo_kept [OF fds laws _ X] show ?thesis
      by (auto simp: BorrowConnection_def split: prod.splits)
  next
    case (Some fd)
    have idle: "{fd} \<inter> ?X = {}" using client_inv_pop(3) [OF inv] Pair Some by (auto simp: outside_pool_def)
    obtain b w1 where w1: "SetSocketBlockingMode os fd True (cworld c) = (b, w1)" by fastforce
    obtain y w2 where w2: "ConfigureSocket os fd opts w1 = (y, w2)" by fastforce
    have o: "opened w1 = opened (cworld c)" "opened w2 = opened (cworld c)"
      using SetSocketBlockingMode_opened [OF fds w1] ConfigureSocket_opened [OF fds w2] by simp_all
    have k1: "touches_outside bytes ?X (cworld c) w1"
      by (rule touches_outside_kept [OF SetSocketBlockingMode_kept [OF laws w1] idle])
    have k2: "touches_outside bytes ?X (cworld c) w2"
      by (rule touches_outside_trans [OF k1 touches_outside_kept [OF ConfigureSocket_kept [OF laws w2] idle]])
    have again: "touches_outside bytes ?X (cworld c) w'"
      if "touches_outside bytes ?X (cworld c) v" "opened v = opened (cworld c)"
        "ConnectTo os e opts (CloseSocket os fd v) = (z, w')" for v z w'
    proof -
      have "?X \<subseteq> opened (CloseSocket os fd v)"
        using that(2) X idle fd_laws_keep(1) [OF fds, of fd v] by (auto simp: CloseSocket_def)
      from ConnectTo_kept [OF fds laws that(3) this] touches_outside_kept [OF CloseSocket_kept [OF laws] idle, of v] that(1)
      show ?thesis by (blast intro: touches_outside_trans)
    qed
    show ?thesis
      using ret Pair Some w1 w2 k2 again [OF k1 o(1)] again [OF k2 o(2)]
      by (auto simp: BorrowConnection_def split: prod.splits sum.splits if_splits)
  qed
qed

lemma ReturnConnection_kept:
  assumes laws: "independent os bytes" and X: "fd \<notin> X"
  shows "touches_outside bytes X (cworld c) (cworld (ReturnConnection os e fd c))"
  using touches_outside_kept [OF CloseSocket_kept [OF laws, of fd], of X] X
  by (auto simp: ReturnConnection_def touches_outside_def split: prod.splits)

lemma trip_step_kept:
  assumes fds: "fd_laws os opened" and laws: "independent os bytes" and inv: "client_inv opened c"
    and step: "trip_step os t c = Some (t1, c1)" and X: "X \<subseteq> outside_pool opened c" "set (holds t) \<inter> X = {}"
  shows "touches_outside bytes X (cworld c) (cworld c1)"
  using step
proof (cases rule: trip_step_cases)
  case (refused e f opts err)
  from BorrowConnection_kept [OF fds laws inv refused(2)] X(1) show ?thesis by (auto simp: touches_outside_def)
next
  case (connected e f opts fd)
  from BorrowConnection_kept [OF fds laws inv connected(2)] X(1) show ?thesis by (auto simp: touches_outside_def)
next
  case (sent e f fd w)
  with X(2) touches_outside_kept [OF SendAll_kept [OF laws sent(2)]] show ?thesis by simp
next
  case (broken e f fd w err)
  with X(2) touches_outside_kept [OF SendAll_kept [OF laws broken(2)]] touches_outside_kept [OF CloseSocket_kept [OF laws, of fd w]]
  show ?thesis by (auto intro: touches_outside_trans)
next
  case (received e fd w resp)
  with X(2) touches_outside_kept [OF ReceiveFrame_kept [OF laws received(2)]]
    ReturnConnection_kept [OF laws, of fd X "c\<lparr>cworld := w\<rparr>" e]
  show ?thesis by (auto intro: touches_outside_trans)
next
  case (failed e fd w err)
  with X(2) touches_outside_kept [OF ReceiveFrame_kept [OF laws failed(2)]] touches_outside_kept [OF CloseSocket_kept [OF laws, of fd w]]
  show ?thesis by (auto intro: touches_outside_trans)
qed

section \<open>Concurrent calls\<close>

text \<open>
  C11. Concurrent calls are isolated: however the steps of any number of calls on one transport
  interleave, no two calls hold the same connection, no held connection is in the idle pool,
  and each is open; a step of one call leaves the bytes sent and the bytes to come on the
  connections of the others untouched, so no call reads another's answer; and once all have
  ended, every connection is closed or back in the pool.
\<close>

theorem calls_isolated:
  assumes fds: "fd_laws os opened" and laws: "independent os wire" "independent os inbox"
    and inv: "client_inv opened c0" and run: "trips_run os c0 ts c"
  shows "distinct (held ts) \<and> set (held ts) \<inter> pooled (idle_pool c) = {} \<and> set (held ts) \<subseteq> opened (cworld c) \<and>
    (\<forall>i j t c1 fd. i < length ts \<and> j < length ts \<and> i \<noteq> j \<and> trip_step os (ts ! j) c = Some (t, c1) \<and> fd \<in> set (holds (ts ! i)) \<longrightarrow>
       wire (cworld c1) fd = wire (cworld c) fd \<and> inbox (cworld c1) fd = inbox (cworld c) fd) \<and>
    (held ts = [] \<longrightarrow> outside_pool opened c = outside_pool opened c0)"
proof -
  have ti: "trips_inv opened (outside_pool opened c0) ts c" by (rule trips_run_inv [OF fds inv run])
  have "bytes (cworld c1) fd = bytes (cworld c) fd"
    if other: "i < length ts" "j < length ts" "i \<noteq> j" "fd \<in> set (holds (ts ! i))"
      and step: "trip_step os (ts ! j) c = Some (t, c1)" and ind: "independent os bytes" for bytes i j t c1 fd
  proof -
    have "fd \<in> set (held ts)" using other(1,4) by force
    then have X: "{fd} \<subseteq> outside_pool opened c" using ti by (auto simp: trips_inv_def)
    have "set (holds (ts ! i)) \<inter> set (holds (ts ! j)) = {}"
      using distinct_concat_nth [of "map holds ts" i j] ti other(1-3) by (simp add: trips_inv_def)
    then have "set (holds (ts ! j)) \<inter> {fd} = {}" using other(4) by auto
    from trip_step_kept [OF fds ind _ step X this] ti show ?thesis by (simp add: trips_inv_def touches_outside_def)
  qed
  with laws ti show ?thesis by (auto simp: trips_inv_def outside_pool_def)
qed

text \<open>Two calls to one endpoint on the simulated kernel: each has its own connection.\<close>

lemma sim_independent: "independent sim_os sim_wire" "independent sim_os sim_inbox"
  by (auto simp: independent_def others_kept_def sim_defs split: list.split sum.split)

definition two_worlds :: sim where
  "two_worlds = sim_boot\<lparr>sim_open := [4, 3, 0, 1, 2]\<rparr>"

abbreviation demo_ep :: Endpoint where
  "demo_ep \<equiv> \<lparr>ep_host = ''h'', ep_port = 1\<rparr>"

lemma two_calls_run:
  "trips_run sim_os (demo_client sim_boot) [Connected demo_ep ''a'' 3, Connected demo_ep ''b'' 4] (demo_client two_worlds)"
proof -
  let ?o = default_call_options
  have b0: "trip_step sim_os (Ready demo_ep ''a'' ?o) (demo_client sim_boot) =
      Some (Connected demo_ep ''a'' 3, demo_client (sim_boot\<lparr>sim_open := [3, 0, 1, 2]\<rparr>))"
    by (simp add: trip_step_def BorrowConnection_def ConnectTo_def ConfigureSocket_def pop_idle_def demo_client_def Let_def sim_defs)
  have b1: "trip_step sim_os (Ready demo_ep ''b'' ?o) (demo_client (sim_boot\<lparr>sim_open := [3, 0, 1, 2]\<rparr>)) =
      Some (Connected demo_ep ''b'' 4, demo_client two_worlds)"
    by (simp add: trip_step_def BorrowConnection_def ConnectTo_def ConfigureSocket_def pop_idle_def demo_client_def Let_def sim_defs
        two_worlds_def)
  have s0: "trips_run sim_os (demo_client sim_boot) [Ready demo_ep ''a'' ?o, Ready demo_ep ''b'' ?o] (demo_client sim_boot)"
    using trips_run.start [of sim_os "demo_client sim_boot" "[(demo_ep, ''a'', ?o), (demo_ep, ''b'', ?o)]"] by simp
  from trips_run.step [OF s0, of 0] b0
  have "trips_run sim_os (demo_client sim_boot) [Connected demo_ep ''a'' 3, Ready demo_ep ''b'' ?o]
      (demo_client (sim_boot\<lparr>sim_open := [3, 0, 1, 2]\<rparr>))" by simp
  from trips_run.step [OF this, of 1] b1 show ?thesis by simp
qed

theorem calls_isolated_witness:
  "\<exists>t c1. trip_step sim_os (Connected demo_ep ''b'' 4) (demo_client two_worlds) = Some (t, c1) \<and>
     sim_wire (cworld c1) 3 = sim_wire two_worlds 3 \<and> sim_wire (cworld c1) 4 = ''b''"
proof -
  obtain w where send: "SendAll sim_os 4 ''b'' two_worlds = Some (Ok (), w)" "sim_wire w 4 = ''b''"
    unfolding SendAll_def
    by (subst (asm) send_from.simps, simp add: sim_defs two_worlds_def, subst (asm) send_from.simps, simp)
  let ?c1 = "(demo_client two_worlds)\<lparr>cworld := w\<rparr>"
  have step: "trip_step sim_os (Connected demo_ep ''b'' 4) (demo_client two_worlds) = Some (Sent demo_ep 4, ?c1)"
    using send(1) by (simp add: trip_step_def demo_client_def)
  have "sim_wire (cworld ?c1) 3 = sim_wire (cworld (demo_client two_worlds)) 3"
    using calls_isolated [OF sim_fd_laws sim_independent demo_client_inv two_calls_run] step
    by (elim conjE allE [of _ "0 :: nat"] allE [of _ "1 :: nat"]) force
  with step send(2) show ?thesis by (simp add: demo_client_def)
qed

end
