(* ===== verification/AsyncRuntime.thy ===== *)
theory AsyncRuntime
  imports Sys "HOL-Library.Multiset"
begin

text \<open>
  The coroutine runtime, \<open>src/src/async_runtime.cc\<close>: waits for descriptor events are queued by
  any thread, registered with epoll by the loop thread under a token, and end by an event, by
  their deadline or by cancellation. The shared \<open>WaitState\<close> of an awaiter is found by its number
  in \<open>rt_states\<close>. Resuming a coroutine is the output \<open>rt_resumed\<close> (which wait, and whether it
  timed out); what the coroutine then does is further steps of the machine.

  The runtime stores tokens in the 64-bit data of epoll events, so its epoll calls are a record
  \<open>rt_sys\<close> of their own. The eventfd that wakes the loop carries no information and is left out.
\<close>

record WaitState =
  ws_timed_out :: bool
  ws_completed :: bool
  ws_cancelled :: bool
  ws_token :: u64

definition new_wait_state :: WaitState where
  "new_wait_state = \<lparr>ws_timed_out = False, ws_completed = False, ws_cancelled = False, ws_token = 0\<rparr>"

record WaitRegistration =
  wr_fd :: int
  wr_events :: u32
  wr_deadline :: int
  wr_state :: nat
  wr_token :: u64

record 'w rt_sys =
  rts_epoll_ctl :: "epoll_op \<Rightarrow> int \<Rightarrow> u32 \<Rightarrow> u64 \<Rightarrow> 'w \<Rightarrow> (errno + unit) \<times> 'w"
  rts_epoll_wait :: "'w \<Rightarrow> (errno + u64 list) \<times> 'w"

record 'w runtime =
  rt_world :: 'w
  rt_pending :: "WaitRegistration list"
  rt_grabbed :: "WaitRegistration list"
  rt_registrations :: "(u64, WaitRegistration) umap"
  rt_states :: "WaitState list"
  rt_next_token :: u64
  rt_resumed :: "(nat \<times> bool) list"

definition AsyncRuntime_new :: "'w \<Rightarrow> 'w runtime" where
  "AsyncRuntime_new w = \<lparr>rt_world = w, rt_pending = [], rt_grabbed = [], rt_registrations = [],
     rt_states = [], rt_next_token = 1, rt_resumed = []\<rparr>"

abbreviation set_state :: "nat \<Rightarrow> WaitState \<Rightarrow> 'w runtime \<Rightarrow> 'w runtime" where
  "set_state i ws s \<equiv> s\<lparr>rt_states := (rt_states s)[i := ws]\<rparr>"

section \<open>Operations\<close>

text \<open>\<open>WaitFor\<close> makes an awaiter with a new state; its number is the result.\<close>

definition WaitFor :: "'w runtime \<Rightarrow> nat \<times> 'w runtime" where
  "WaitFor s = (length (rt_states s), s\<lparr>rt_states := rt_states s @ [new_wait_state]\<rparr>)"

definition Enqueue :: "WaitRegistration \<Rightarrow> 'w runtime \<Rightarrow> 'w runtime" where
  "Enqueue r s =
     (let token = rt_next_token s; r1 = r\<lparr>wr_token := token\<rparr>;
          s1 = s\<lparr>rt_next_token := token + 1, rt_pending := rt_pending s @ [r1]\<rparr>
      in set_state (wr_state r) ((rt_states s ! wr_state r)\<lparr>ws_token := token\<rparr>) s1)"

definition await_suspend :: "int \<Rightarrow> int \<Rightarrow> u32 \<Rightarrow> int \<Rightarrow> nat \<Rightarrow> 'w runtime \<Rightarrow> 'w runtime" where
  "await_suspend now fd events timeout i s =
     Enqueue \<lparr>wr_fd = fd, wr_events = events, wr_deadline = now + timeout, wr_state = i, wr_token = 0\<rparr> s"

definition await_resume :: "nat \<Rightarrow> 'w runtime \<Rightarrow> bool" where
  "await_resume i s \<longleftrightarrow> \<not> ws_timed_out (rt_states s ! i)"

definition finish_state :: "nat \<Rightarrow> 'w runtime \<Rightarrow> 'w runtime" where
  "finish_state i s = set_state i ((rt_states s ! i)\<lparr>ws_completed := True, ws_token := 0\<rparr>) s"

definition Cancel :: "'w rt_sys \<Rightarrow> u64 \<Rightarrow> 'w runtime \<Rightarrow> 'w runtime" where
  "Cancel os token s =
     (if token = 0 then s
      else
        let gone = filter (\<lambda>r. wr_token r = token) (rt_pending s);
            s1 = fold (\<lambda>r. finish_state (wr_state r)) gone
                   (s\<lparr>rt_pending := filter (\<lambda>r. wr_token r \<noteq> token) (rt_pending s)\<rparr>)
        in case umap_find (rt_registrations s1) token of
             None \<Rightarrow> s1
           | Some r \<Rightarrow>
               finish_state (wr_state r)
                 (s1\<lparr>rt_registrations := umap_erase token (rt_registrations s1),
                     rt_world := snd (rts_epoll_ctl os EPOLL_CTL_DEL (wr_fd r) 0 0 (rt_world s1))\<rparr>))"

definition FdAwaiter_destroy :: "'w rt_sys \<Rightarrow> nat \<Rightarrow> 'w runtime \<Rightarrow> 'w runtime" where
  "FdAwaiter_destroy os i s =
     (let ws = rt_states s ! i; s1 = set_state i (ws\<lparr>ws_cancelled := True\<rparr>) s
      in if ws_token ws \<noteq> 0 \<and> \<not> ws_completed ws then Cancel os (ws_token ws) s1 else s1)"

definition ResumeReady :: "WaitRegistration \<Rightarrow> bool \<Rightarrow> 'w runtime \<Rightarrow> 'w runtime" where
  "ResumeReady r timed_out s =
     (let i = wr_state r; ws = rt_states s ! i
      in if ws_cancelled ws then finish_state i s
         else
           (set_state i (ws\<lparr>ws_timed_out := timed_out, ws_completed := True, ws_token := 0\<rparr>) s)
             \<lparr>rt_resumed := rt_resumed s @ [(i, timed_out)]\<rparr>)"

definition register_one :: "'w rt_sys \<Rightarrow> WaitRegistration \<Rightarrow> 'w runtime \<Rightarrow> 'w runtime" where
  "register_one os r s =
     (let events = wr_events r OR EPOLLONESHOT;
          keep = (\<lambda>w. s\<lparr>rt_world := w, rt_registrations := umap_put (wr_token r) r (rt_registrations s)\<rparr>)
      in case rts_epoll_ctl os EPOLL_CTL_ADD (wr_fd r) events (wr_token r) (rt_world s) of
           (Ok _, w1) \<Rightarrow> keep w1
         | (Err e, w1) \<Rightarrow>
             if e \<noteq> EEXIST then ResumeReady r True (s\<lparr>rt_world := w1\<rparr>)
             else (case rts_epoll_ctl os EPOLL_CTL_MOD (wr_fd r) events (wr_token r) w1 of
                     (Ok _, w2) \<Rightarrow> keep w2
                   | (Err _, w2) \<Rightarrow> ResumeReady r True (s\<lparr>rt_world := w2\<rparr>)))"

text \<open>
  \<open>RegisterPending\<close> takes the queue over under its lock and then registers the waits one by
  one without it; \<open>rt_grabbed\<close> is its local list.
\<close>

definition grab_pending :: "'w runtime \<Rightarrow> 'w runtime" where
  "grab_pending s = s\<lparr>rt_grabbed := rt_grabbed s @ rt_pending s, rt_pending := []\<rparr>"

definition register_next :: "'w rt_sys \<Rightarrow> 'w runtime \<Rightarrow> 'w runtime" where
  "register_next os s =
     (case rt_grabbed s of [] \<Rightarrow> s | r # rs \<Rightarrow> register_one os r (s\<lparr>rt_grabbed := rs\<rparr>))"

definition RegisterPending :: "'w rt_sys \<Rightarrow> 'w runtime \<Rightarrow> 'w runtime" where
  "RegisterPending os s =
     (let s1 = grab_pending s in (register_next os ^^ length (rt_grabbed s1)) s1)"

definition handle_token :: "'w rt_sys \<Rightarrow> u64 \<Rightarrow> 'w runtime \<Rightarrow> 'w runtime" where
  "handle_token os token s =
     (if token = 0 then RegisterPending os s
      else case umap_find (rt_registrations s) token of
             None \<Rightarrow> s
           | Some r \<Rightarrow>
               ResumeReady r False
                 (s\<lparr>rt_registrations := umap_erase token (rt_registrations s),
                    rt_world := snd (rts_epoll_ctl os EPOLL_CTL_DEL (wr_fd r) 0 0 (rt_world s))\<rparr>))"

definition ExpireTimedOut :: "'w rt_sys \<Rightarrow> int \<Rightarrow> 'w runtime \<Rightarrow> 'w runtime" where
  "ExpireTimedOut os now s =
     (let expired = filter (\<lambda>(_, r). wr_deadline r \<le> now) (rt_registrations s);
          s1 = s\<lparr>rt_registrations := filter (\<lambda>(_, r). \<not> wr_deadline r \<le> now) (rt_registrations s),
                 rt_world := fold (\<lambda>(_, r) w. snd (rts_epoll_ctl os EPOLL_CTL_DEL (wr_fd r) 0 0 w))
                               expired (rt_world s)\<rparr>
      in fold (\<lambda>(_, r). ResumeReady r True) expired s1)"

text \<open>One turn of the loop, with the time at which it checks the deadlines.\<close>

definition Run_turn :: "'w rt_sys \<Rightarrow> int \<Rightarrow> 'w runtime \<Rightarrow> 'w runtime" where
  "Run_turn os now s =
     (let s1 = RegisterPending os s in
      case rts_epoll_wait os (rt_world s1) of
        (Err _, w) \<Rightarrow> s1\<lparr>rt_world := w\<rparr>
      | (Ok tokens, w) \<Rightarrow> ExpireTimedOut os now (fold (handle_token os) tokens (s1\<lparr>rt_world := w\<rparr>)))"

section \<open>The machine\<close>

text \<open>
  All interleavings of the loop thread with threads that start waits and drop awaiters. An
  awaiter is suspended on at most once. The guard \<open>rt_next_token s \<noteq> 0\<close> bounds the number of
  waits by $2^{64} - 1$: the counter has not wrapped around. The world changes by itself, and in \<open>epoll_wait\<close>.
\<close>

inductive rt_step :: "'w rt_sys \<Rightarrow> 'w runtime \<Rightarrow> 'w runtime \<Rightarrow> bool" for os where
  wait: "rt_next_token s \<noteq> 0 \<Longrightarrow> WaitFor s = (i, s1) \<Longrightarrow>
    rt_step os s (await_suspend now fd events timeout i s1)"
| drop: "i < length (rt_states s) \<Longrightarrow> rt_step os s (FdAwaiter_destroy os i s)"
| grab: "rt_step os s (grab_pending s)"
| register: "rt_step os s (register_next os s)"
| event: "token \<noteq> 0 \<Longrightarrow> rt_step os s (handle_token os token s)"
| expire: "rt_step os s (ExpireTimedOut os now s)"
| poll: "rt_step os s (s\<lparr>rt_world := w\<rparr>)"

inductive rt_reachable :: "'w rt_sys \<Rightarrow> 'w \<Rightarrow> 'w runtime \<Rightarrow> bool" for os w0 where
  init: "rt_reachable os w0 (AsyncRuntime_new w0)"
| step: "rt_reachable os w0 s \<Longrightarrow> rt_step os s s' \<Longrightarrow> rt_reachable os w0 s'"

section \<open>The invariant\<close>

lemma nth_upd: "xs[i := x] ! j = (if i = j \<and> i < length xs then x else xs ! j)"
  by (cases "i < length xs") (simp_all add: nth_list_update list_update_beyond not_less)

text \<open>
  Every open wait (queued, being registered, registered, or in the list \<open>L\<close> of waits that an
  operation is just ending) has its own token, which its state knows, and is not completed.
  What was resumed is completed, with the outcome it was resumed with, and was resumed once.
\<close>

definition waiting :: "WaitRegistration list \<Rightarrow> 'w runtime \<Rightarrow> WaitRegistration list" where
  "waiting L s = rt_pending s @ rt_grabbed s @ L"

definition wait_ok :: "'w runtime \<Rightarrow> WaitRegistration \<Rightarrow> bool" where
  "wait_ok s r \<longleftrightarrow> wr_token r \<noteq> 0 \<and> (rt_next_token s \<noteq> 0 \<longrightarrow> wr_token r < rt_next_token s) \<and>
     wr_state r < length (rt_states s) \<and> ws_token (rt_states s ! wr_state r) = wr_token r \<and>
     \<not> ws_completed (rt_states s ! wr_state r)"

definition resumed_ok :: "'w runtime \<Rightarrow> bool" where
  "resumed_ok s \<longleftrightarrow> distinct (map fst (rt_resumed s)) \<and>
     (\<forall>(i, to) \<in> set (rt_resumed s). i < length (rt_states s) \<and> ws_completed (rt_states s ! i) \<and>
        ws_timed_out (rt_states s ! i) = to)"

definition rt_inv :: "WaitRegistration list \<Rightarrow> 'w runtime \<Rightarrow> bool" where
  "rt_inv L s \<longleftrightarrow>
     distinct (map wr_token (waiting L s)) \<and> umap_ok (rt_registrations s) \<and>
     (\<forall>(t, r) \<in> set (rt_registrations s). t = wr_token r \<and> t \<notin> wr_token ` set (waiting L s) \<and> wait_ok s r) \<and>
     (\<forall>r \<in> set (waiting L s). wait_ok s r) \<and> resumed_ok s"

lemma rt_inv_mset:
  assumes "rt_inv L s" and "mset (waiting L' s') = mset (waiting L s)"
    and "rt_registrations s' = rt_registrations s" "rt_states s' = rt_states s"
    "rt_next_token s' = rt_next_token s" "rt_resumed s' = rt_resumed s"
  shows "rt_inv L' s'"
proof -
  have "mset (map wr_token (waiting L' s')) = mset (map wr_token (waiting L s))"
    using assms(2) by (metis mset_map)
  then have "distinct (map wr_token (waiting L' s')) = distinct (map wr_token (waiting L s))"
    by (rule mset_eq_imp_distinct_iff)
  moreover have "set (waiting L' s') = set (waiting L s)" using assms(2) by (rule mset_eq_setD)
  ultimately show ?thesis
    using assms unfolding rt_inv_def wait_ok_def resumed_ok_def by simp
qed

lemma rt_inv_other:
  assumes "rt_inv L s" and "r \<in> set (waiting L s)" "q \<in> set (waiting L s) \<or> (t, q) \<in> set (rt_registrations s)"
    and "wr_token q \<noteq> wr_token r"
  shows "wr_state q \<noteq> wr_state r"
proof -
  have "wait_ok s r" "wait_ok s q" using assms(1-3) unfolding rt_inv_def by auto
  then show ?thesis using assms(4) unfolding wait_ok_def by metis
qed

text \<open>Ending a wait, with or without resuming it.\<close>

lemma rt_inv_end:
  assumes inv: "rt_inv (r # L) s"
    and st: "rt_states s' = (rt_states s)[wr_state r := ws]" "ws_completed ws"
    and same: "rt_pending s' = rt_pending s" "rt_grabbed s' = rt_grabbed s"
      "rt_registrations s' = rt_registrations s" "rt_next_token s' = rt_next_token s"
    and res: "rt_resumed s' = rt_resumed s \<or> rt_resumed s' = rt_resumed s @ [(wr_state r, ws_timed_out ws)]"
  shows "rt_inv L s'"
proof -
  have mem: "r \<in> set (waiting (r # L) s)" by (simp add: waiting_def)
  have wait': "waiting L s' = waiting L s" by (simp add: waiting_def same)
  have dist: "distinct (map wr_token (waiting L s))" "wr_token r \<notin> wr_token ` set (waiting L s)"
    using inv by (auto simp: rt_inv_def waiting_def)
  have r: "wait_ok s r" using inv mem by (simp add: rt_inv_def)
  then have bound: "wr_state r < length (rt_states s)" and open_r: "\<not> ws_completed (rt_states s ! wr_state r)"
    by (simp_all add: wait_ok_def)
  have keep: "wait_ok s' q" if "wait_ok s q" "wr_state q \<noteq> wr_state r" for q
    using that st same(4) by (simp add: wait_ok_def)
  have waits: "wait_ok s' q" if q: "q \<in> set (waiting L s)" for q
  proof (rule keep)
    have q': "q \<in> set (waiting (r # L) s)" using q by (auto simp: waiting_def)
    show "wait_ok s q" using inv q' by (simp add: rt_inv_def)
    have "wr_token q \<noteq> wr_token r" using imageI [OF q, of wr_token] dist(2) by metis
    then show "wr_state q \<noteq> wr_state r"
      by (rule rt_inv_other [OF inv mem disjI1 [OF q']])
  qed
  have regs: "t = wr_token q \<and> t \<notin> wr_token ` set (waiting L s) \<and> wait_ok s' q"
    if q: "(t, q) \<in> set (rt_registrations s)" for t q
  proof -
    from inv q have t: "t = wr_token q" "t \<notin> wr_token ` set (waiting (r # L) s)" "wait_ok s q"
      unfolding rt_inv_def by auto
    then have "wr_token q \<noteq> wr_token r" using mem by auto
    from keep [OF t(3) rt_inv_other [OF inv mem disjI2 [OF q] this]] t show ?thesis
      by (auto simp: waiting_def)
  qed
  have old: "resumed_ok s" using inv by (simp add: rt_inv_def)
  have fresh: "wr_state r \<notin> fst ` set (rt_resumed s)"
    using old open_r unfolding resumed_ok_def by auto
  have entry: "i < length (rt_states s') \<and> ws_completed (rt_states s' ! i) \<and> ws_timed_out (rt_states s' ! i) = to"
    if "(i, to) \<in> set (rt_resumed s)" for i to
  proof -
    have "i \<noteq> wr_state r" using fresh that by force
    with old that st(1) show ?thesis unfolding resumed_ok_def by auto
  qed
  have "resumed_ok s'"
    using res
  proof
    assume "rt_resumed s' = rt_resumed s"
    with old entry show ?thesis unfolding resumed_ok_def by auto
  next
    assume new: "rt_resumed s' = rt_resumed s @ [(wr_state r, ws_timed_out ws)]"
    with old fresh entry bound st show ?thesis unfolding resumed_ok_def by auto
  qed
  with dist(1) inv waits regs show ?thesis
    unfolding rt_inv_def wait' same(3) by auto
qed

lemma rt_inv_finish: "rt_inv (r # L) s \<Longrightarrow> rt_inv L (finish_state (wr_state r) s)"
  by (rule rt_inv_end) (auto simp: finish_state_def)

lemma rt_inv_ResumeReady: "rt_inv (r # L) s \<Longrightarrow> rt_inv L (ResumeReady r to s)"
  by (cases "ws_cancelled (rt_states s ! wr_state r)")
    (auto simp: ResumeReady_def Let_def rt_inv_finish intro: rt_inv_end)

lemma rt_inv_fold_finish:
  "rt_inv (gone @ L) s \<Longrightarrow> rt_inv L (fold (\<lambda>r. finish_state (wr_state r)) gone s)"
  by (induction gone arbitrary: s) (auto intro: rt_inv_finish)

lemma rt_inv_fold_resume:
  "rt_inv (map snd exs) s \<Longrightarrow> rt_inv [] (fold (\<lambda>(_, r). ResumeReady r to) exs s)"
proof (induction exs arbitrary: s)
  case (Cons e exs)
  then show ?case by (cases e) (simp add: rt_inv_ResumeReady)
qed simp

text \<open>Taking waits out of the table and putting them in.\<close>

lemma umap_put_fresh: "umap_find m k = None \<Longrightarrow> umap_put k v m = m @ [(k, v)]"
  by (induction m) (auto split: if_splits)

lemma rt_inv_unregister:
  assumes inv: "rt_inv L s" and find: "umap_find (rt_registrations s) t = Some r"
  shows "rt_inv (r # L) (s\<lparr>rt_registrations := umap_erase t (rt_registrations s), rt_world := w\<rparr>)"
proof -
  have ok: "umap_ok (rt_registrations s)" using inv by (simp add: rt_inv_def)
  have mem: "(t, r) \<in> set (rt_registrations s)" using find by (rule map_of_SomeD)
  have erase: "(u, q) \<in> set (umap_erase t (rt_registrations s)) \<longleftrightarrow> (u, q) \<in> set (rt_registrations s) \<and> u \<noteq> t" for u q
    by (auto simp: AList.delete_eq)
  from inv mem have r: "t = wr_token r" "t \<notin> wr_token ` set (waiting L s)" "wait_ok s r"
    unfolding rt_inv_def by auto
  let ?s = "s\<lparr>rt_registrations := umap_erase t (rt_registrations s), rt_world := w\<rparr>"
  have same: "wait_ok ?s = wait_ok s" "resumed_ok ?s = resumed_ok s"
    "set (waiting (r # L) ?s) = insert r (set (waiting L s))"
    "distinct (map wr_token (waiting (r # L) ?s)) \<longleftrightarrow>
       distinct (map wr_token (waiting L s)) \<and> wr_token r \<notin> wr_token ` set (waiting L s)"
    by (auto simp: wait_ok_def resumed_ok_def waiting_def)
  have "\<forall>(u, q) \<in> set (rt_registrations ?s).
      u = wr_token q \<and> u \<notin> wr_token ` insert r (set (waiting L s)) \<and> wait_ok s q"
  proof (rule ballI, clarify)
    fix u q
    assume "(u, q) \<in> set (rt_registrations ?s)"
    then have q: "(u, q) \<in> set (rt_registrations s)" "u \<noteq> wr_token r" using erase r(1) by simp_all
    then have "u = wr_token q \<and> u \<notin> wr_token ` set (waiting L s) \<and> wait_ok s q"
      using inv unfolding rt_inv_def by blast
    then show "u = wr_token q \<and> u \<notin> wr_token ` insert r (set (waiting L s)) \<and> wait_ok s q"
      using q(2) by blast
  qed
  then show ?thesis
    using inv r ok unfolding rt_inv_def same by simp
qed

lemma images_disjoint: "(\<And>b. b \<in> B \<Longrightarrow> f b \<notin> f ` A) \<Longrightarrow> f ` A \<inter> f ` B = {}"
  by (simp add: disjoint_iff image_iff) metis

lemma rt_inv_expired:
  assumes inv: "rt_inv [] s"
  shows "rt_inv (map snd (filter (\<lambda>(_, r). P r) (rt_registrations s)))
    (s\<lparr>rt_registrations := filter (\<lambda>(_, r). \<not> P r) (rt_registrations s), rt_world := w\<rparr>)"
    (is "rt_inv ?gone ?s")
proof -
  let ?regs = "rt_registrations s"
  have ok: "distinct (map fst ?regs)" and w: "distinct (map wr_token (waiting [] s))"
    using inv by (simp_all add: rt_inv_def umap_ok_def)
  have reg: "t = wr_token r" "wr_token r \<notin> wr_token ` set (waiting [] s)" "wait_ok s r"
    if "(t, r) \<in> set ?regs" for t r
    using inv that unfolding rt_inv_def by auto
  have fst_tok: "map (wr_token \<circ> snd) (filter (\<lambda>(_, r). P r) ?regs) = map fst (filter (\<lambda>(_, r). P r) ?regs)"
    using reg(1) by (auto intro!: map_cong)
  have app: "waiting ?gone ?s = waiting [] s @ ?gone" by (simp add: waiting_def)
  have d1: "distinct (map wr_token (waiting ?gone ?s))"
  proof -
    have "distinct (map wr_token ?gone)"
      using distinct_map_filter [OF ok, of "\<lambda>(_, r). P r"] by (simp only: map_map fst_tok)
    moreover have "wr_token ` set (waiting [] s) \<inter> wr_token ` set ?gone = {}"
    proof (rule images_disjoint)
      show "wr_token q \<notin> wr_token ` set (waiting [] s)" if "q \<in> set ?gone" for q
        using reg(2) that by fastforce
    qed
    ultimately show ?thesis using w by (simp only: app map_append distinct_append set_map)
  qed
  have d2: "umap_ok (rt_registrations ?s)" using ok by (simp add: umap_ok_def distinct_map_filter)
  have out: "wr_token r \<notin> wr_token ` set ?gone" if "(t, r) \<in> set ?regs" "\<not> P r" for t r
  proof
    assume "wr_token r \<in> wr_token ` set ?gone"
    then obtain u q where q: "(u, q) \<in> set ?regs" "P q" "wr_token r = wr_token q" by auto
    then have "q = r" using reg(1) that ok by (metis eq_key_imp_eq_value)
    with q(2) that(2) show False by simp
  qed
  have "\<forall>(t, r) \<in> set (rt_registrations ?s).
      t = wr_token r \<and> t \<notin> wr_token ` set (waiting ?gone ?s) \<and> wait_ok ?s r"
  proof (rule ballI, clarify)
    fix t r
    assume "(t, r) \<in> set (rt_registrations ?s)"
    then have r: "(t, r) \<in> set ?regs" "\<not> P r" by simp_all
    have "t \<notin> wr_token ` set (waiting ?gone ?s)"
      using reg(1,2) [OF r(1)] out [OF r] unfolding app set_append image_Un by simp
    moreover have "wait_ok ?s r" using reg(3) [OF r(1)] by (simp add: wait_ok_def)
    ultimately show "t = wr_token r \<and> t \<notin> wr_token ` set (waiting ?gone ?s) \<and> wait_ok ?s r"
      using reg(1) [OF r(1)] by blast
  qed
  moreover have "\<forall>r \<in> set (waiting ?gone ?s). wait_ok ?s r"
    using reg(3) inv by (auto simp: waiting_def wait_ok_def rt_inv_def)
  moreover have "resumed_ok ?s" using inv by (simp add: rt_inv_def resumed_ok_def)
  ultimately show ?thesis using d1 d2 unfolding rt_inv_def by (intro conjI)
qed

lemma rt_inv_fresh: "rt_inv (r # L) s \<Longrightarrow> umap_find (rt_registrations s) (wr_token r) = None"
  by (fastforce simp: rt_inv_def waiting_def umap_find_None)

lemma rt_inv_registered:
  assumes inv: "rt_inv (r # L) s"
  shows "rt_inv L (s\<lparr>rt_world := w, rt_registrations := umap_put (wr_token r) r (rt_registrations s)\<rparr>)"
proof -
  have ok: "umap_ok (rt_registrations s)" using inv by (simp add: rt_inv_def)
  have "set (umap_put (wr_token r) r (rt_registrations s)) = insert (wr_token r, r) (set (rt_registrations s))"
    using umap_put_fresh [OF rt_inv_fresh [OF inv], of r] by simp
  then show ?thesis
    using inv ok unfolding rt_inv_def by (auto simp: waiting_def wait_ok_def resumed_ok_def)
qed

section \<open>Every step keeps the invariant\<close>

lemma rt_inv_register_one:
  assumes "rt_inv [r] s"
  shows "rt_inv [] (register_one os r s)"
proof -
  have "rt_inv [] (ResumeReady r True (s\<lparr>rt_world := w\<rparr>))" for w
    by (rule rt_inv_ResumeReady, rule rt_inv_mset [OF assms]) (simp_all add: waiting_def)
  then show ?thesis
    using rt_inv_registered [OF assms]
    by (simp add: register_one_def Let_def split: prod.split sum.split)
qed

lemma rt_inv_grab: "rt_inv [] s \<Longrightarrow> rt_inv [] (grab_pending s)"
  by (erule rt_inv_mset) (simp_all add: waiting_def grab_pending_def)

lemma rt_inv_register_next: "rt_inv [] s \<Longrightarrow> rt_inv [] (register_next os s)"
proof (cases "rt_grabbed s")
  case (Cons r rs)
  assume "rt_inv [] s"
  then have "rt_inv [r] (s\<lparr>rt_grabbed := rs\<rparr>)"
    by (rule rt_inv_mset) (simp_all add: waiting_def Cons)
  then show ?thesis by (simp add: register_next_def Cons rt_inv_register_one)
qed (simp add: register_next_def)

lemma rt_inv_RegisterPending: "rt_inv [] s \<Longrightarrow> rt_inv [] (RegisterPending os s)"
proof -
  have many: "rt_inv [] s \<Longrightarrow> rt_inv [] ((register_next os ^^ n) s)" for n s
    by (induction n) (simp_all add: rt_inv_register_next)
  assume "rt_inv [] s"
  then show ?thesis by (simp only: RegisterPending_def Let_def many rt_inv_grab)
qed

lemma rt_inv_handle_token: "rt_inv [] s \<Longrightarrow> rt_inv [] (handle_token os token s)"
  by (auto simp: handle_token_def rt_inv_RegisterPending split: option.split
      intro!: rt_inv_ResumeReady rt_inv_unregister)

lemma rt_inv_ExpireTimedOut: "rt_inv [] s \<Longrightarrow> rt_inv [] (ExpireTimedOut os now s)"
  unfolding ExpireTimedOut_def Let_def by (intro rt_inv_fold_resume rt_inv_expired)

lemma rt_inv_Cancel:
  assumes inv: "rt_inv [] s"
  shows "rt_inv [] (Cancel os token s)"
proof -
  let ?gone = "filter (\<lambda>r. wr_token r = token) (rt_pending s)"
  let ?s1 = "fold (\<lambda>r. finish_state (wr_state r)) ?gone
    (s\<lparr>rt_pending := filter (\<lambda>r. wr_token r \<noteq> token) (rt_pending s)\<rparr>)"
  have "rt_inv (?gone @ []) (s\<lparr>rt_pending := filter (\<lambda>r. wr_token r \<noteq> token) (rt_pending s)\<rparr>)"
    by (rule rt_inv_mset [OF inv]) (simp_all add: waiting_def)
  then have s1: "rt_inv [] ?s1" by (rule rt_inv_fold_finish)
  have "rt_inv [] (finish_state (wr_state r) (?s1\<lparr>rt_registrations := umap_erase token (rt_registrations ?s1),
      rt_world := w\<rparr>))" if "umap_find (rt_registrations ?s1) token = Some r" for r w
    by (rule rt_inv_finish, rule rt_inv_unregister [OF s1 that])
  with s1 inv show ?thesis by (simp add: Cancel_def Let_def split: option.split)
qed

text \<open>Marking a state as cancelled says nothing about its wait.\<close>

lemma rt_inv_mark:
  assumes "rt_inv L s"
  shows "rt_inv L (set_state i ((rt_states s ! i)\<lparr>ws_cancelled := c\<rparr>) s)"
proof -
  let ?s = "set_state i ((rt_states s ! i)\<lparr>ws_cancelled := c\<rparr>) s"
  have at: "ws_token (rt_states ?s ! j) = ws_token (rt_states s ! j)"
    "ws_completed (rt_states ?s ! j) = ws_completed (rt_states s ! j)"
    "ws_timed_out (rt_states ?s ! j) = ws_timed_out (rt_states s ! j)" for j
    by (simp_all add: nth_upd)
  have "wait_ok ?s = wait_ok s" by (rule ext) (simp only: wait_ok_def at, simp)
  moreover have "resumed_ok ?s = resumed_ok s" by (simp only: resumed_ok_def at, simp)
  moreover have "waiting L ?s = waiting L s" by (simp add: waiting_def)
  ultimately show ?thesis using assms unfolding rt_inv_def by simp
qed

lemma rt_inv_drop: "rt_inv [] s \<Longrightarrow> rt_inv [] (FdAwaiter_destroy os i s)"
  by (simp add: FdAwaiter_destroy_def Let_def rt_inv_mark rt_inv_Cancel)

lemma rt_inv_wait:
  assumes inv: "rt_inv [] s" and tok: "rt_next_token s \<noteq> 0" and new: "WaitFor s = (i, s1)"
  shows "rt_inv [] (await_suspend now fd events timeout i s1)"
proof -
  define r where "r = \<lparr>wr_fd = fd, wr_events = events, wr_deadline = now + timeout, wr_state = i,
    wr_token = rt_next_token s\<rparr>"
  have i: "i = length (rt_states s)" and s1: "s1 = s\<lparr>rt_states := rt_states s @ [new_wait_state]\<rparr>"
    using new by (simp_all add: WaitFor_def)
  let ?s = "await_suspend now fd events timeout i s1"
  have states: "rt_states ?s = rt_states s @ [new_wait_state\<lparr>ws_token := rt_next_token s\<rparr>]"
    and waits: "waiting [] ?s = rt_pending s @ r # rt_grabbed s"
    and regs: "rt_registrations ?s = rt_registrations s" "rt_resumed ?s = rt_resumed s"
      "rt_next_token ?s = rt_next_token s + 1"
    by (simp_all add: await_suspend_def Enqueue_def Let_def waiting_def r_def s1 i list_update_append)
  have next_tok: "rt_next_token s + 1 \<noteq> 0 \<longrightarrow> t < rt_next_token s + 1" if "t < rt_next_token s" for t
    using that unatSuc [of "rt_next_token s"] by (auto simp: word_less_nat_alt add.commute)
  have keep: "wait_ok ?s q \<and> wr_token q \<noteq> wr_token r" if "wait_ok s q" for q
    using that tok next_tok
    by (auto simp: wait_ok_def states regs(3) nth_append r_def)
  have mine: "wait_ok ?s r"
    using tok unfolding wait_ok_def states regs(3)
    by (auto simp: i r_def new_wait_state_def word_less_nat_alt unatSuc add.commute)
  have old: "wait_ok s q" if "q \<in> set (waiting [] s) \<or> (t, q) \<in> set (rt_registrations s)" for q t
    using inv that unfolding rt_inv_def by auto
  have fresh: "wr_token r \<notin> wr_token ` set (waiting [] s)" using old keep by (metis imageE)
  have mem: "set (waiting [] ?s) = insert r (set (waiting [] s))"
    unfolding waits by (auto simp: waiting_def)
  have "distinct (map wr_token (waiting [] ?s))"
    using inv fresh unfolding waits by (auto simp: rt_inv_def waiting_def)
  moreover have "\<forall>(t, q) \<in> set (rt_registrations ?s).
      t = wr_token q \<and> t \<notin> wr_token ` set (waiting [] ?s) \<and> wait_ok ?s q"
    unfolding mem regs(1)
  proof (rule ballI, clarify)
    fix t q
    assume q: "(t, q) \<in> set (rt_registrations s)"
    have "wait_ok ?s q" "wr_token q \<noteq> wr_token r" using keep [OF old, of q t] q by simp_all
    moreover have "t = wr_token q" "t \<notin> wr_token ` set (waiting [] s)"
      using inv q unfolding rt_inv_def by auto
    ultimately show "t = wr_token q \<and> t \<notin> wr_token ` insert r (set (waiting [] s)) \<and> wait_ok ?s q"
      by simp
  qed
  moreover have "\<forall>q \<in> set (waiting [] ?s). wait_ok ?s q" unfolding mem using mine old keep by blast
  moreover have "resumed_ok ?s"
    using inv by (auto simp: rt_inv_def resumed_ok_def states regs nth_append)
  ultimately show ?thesis using inv unfolding rt_inv_def regs(1) by (intro conjI) simp_all
qed

section \<open>What the machine guarantees\<close>

text \<open>
  A clause about single steps: what was resumed stays resumed, and a step resumes only waits
  that were open and not cancelled before it.
\<close>

lemma rt_inv_init: "rt_inv [] (AsyncRuntime_new w)"
  by (simp add: rt_inv_def AsyncRuntime_new_def waiting_def resumed_ok_def)

lemma rt_inv_world: "rt_inv L s \<Longrightarrow> rt_inv L (s\<lparr>rt_world := w\<rparr>)"
  by (simp add: rt_inv_def waiting_def wait_ok_def resumed_ok_def)

lemma rt_inv_step: "rt_step os s s' \<Longrightarrow> rt_inv [] s \<Longrightarrow> rt_inv [] s'"
  by (induction rule: rt_step.induct)
    (simp_all add: rt_inv_wait rt_inv_drop rt_inv_grab rt_inv_register_next rt_inv_handle_token
      rt_inv_ExpireTimedOut rt_inv_world)

lemma rt_inv_reachable: "rt_reachable os w0 s \<Longrightarrow> rt_inv [] s"
  by (induction rule: rt_reachable.induct) (auto intro: rt_inv_init rt_inv_step)

text \<open>
  A wait whose awaiter is gone is quiet: it stays cancelled and is not resumed any more.
  Being quiet is transitive, so it follows for every operation from its elementary writes.
\<close>

definition gone :: "nat \<Rightarrow> 'w runtime \<Rightarrow> bool" where
  "gone i s \<longleftrightarrow> i < length (rt_states s) \<and> ws_cancelled (rt_states s ! i)"

definition quiet :: "nat \<Rightarrow> 'w runtime \<Rightarrow> 'w runtime \<Rightarrow> bool" where
  "quiet i s s' \<longleftrightarrow> (gone i s \<longrightarrow> gone i s' \<and>
     filter (\<lambda>p. fst p = i) (rt_resumed s') = filter (\<lambda>p. fst p = i) (rt_resumed s))"

lemma quiet_refl: "rt_states s' = rt_states s \<Longrightarrow> rt_resumed s' = rt_resumed s \<Longrightarrow> quiet i s s'"
  by (simp add: quiet_def gone_def)

lemma quiet_trans: "quiet i s t \<Longrightarrow> quiet i t u \<Longrightarrow> quiet i s u"
  by (simp add: quiet_def)

lemma quiet_finish: "quiet i s (finish_state j s)"
  by (simp add: quiet_def gone_def finish_state_def nth_upd)

lemma quiet_ResumeReady: "quiet i s (ResumeReady r to s)"
  by (auto simp: ResumeReady_def Let_def quiet_finish) (auto simp: quiet_def gone_def nth_upd)

lemma quiet_fold: "(\<And>x t. quiet i t (f x t)) \<Longrightarrow> quiet i s (fold f xs s)"
  by (induction xs arbitrary: s) (auto intro: quiet_refl quiet_trans)

lemma quiet_register_next: "quiet i s (register_next os s)"
proof -
  have "quiet i s (ResumeReady r True (s\<lparr>rt_grabbed := rs, rt_world := w\<rparr>))" for r rs w
    by (rule quiet_trans [OF quiet_refl quiet_ResumeReady]) simp_all
  then show ?thesis
    by (auto simp: register_next_def register_one_def Let_def intro: quiet_refl
        split: list.split prod.split sum.split)
qed

lemma quiet_handle_token: "token \<noteq> 0 \<Longrightarrow> quiet i s (handle_token os token s)"
  by (auto simp: handle_token_def intro!: quiet_refl quiet_trans [OF quiet_refl quiet_ResumeReady]
      split: option.split)

lemma quiet_ExpireTimedOut: "quiet i s (ExpireTimedOut os now s)"
  unfolding ExpireTimedOut_def Let_def
  by (rule quiet_trans [OF quiet_refl quiet_fold]) (auto simp: quiet_ResumeReady)

lemma quiet_Cancel: "quiet i s (Cancel os token s)"
proof -
  let ?s1 = "fold (\<lambda>r. finish_state (wr_state r)) (filter (\<lambda>r. wr_token r = token) (rt_pending s))
    (s\<lparr>rt_pending := filter (\<lambda>r. wr_token r \<noteq> token) (rt_pending s)\<rparr>)"
  have s1: "quiet i s ?s1"
    by (rule quiet_trans [OF quiet_refl quiet_fold]) (simp_all add: quiet_finish)
  have "quiet i s (finish_state j (?s1\<lparr>rt_registrations := m, rt_world := w\<rparr>))" for j m w
    by (rule quiet_trans [OF s1 quiet_trans [OF quiet_refl quiet_finish]]) simp_all
  with s1 show ?thesis by (simp add: Cancel_def Let_def quiet_refl split: option.split)
qed

lemma quiet_drop: "quiet i s (FdAwaiter_destroy os j s)"
proof -
  have mark: "quiet i s (set_state j ((rt_states s ! j)\<lparr>ws_cancelled := True\<rparr>) s)"
    by (simp add: quiet_def gone_def nth_upd)
  then show ?thesis
    by (simp add: FdAwaiter_destroy_def Let_def quiet_trans [OF mark quiet_Cancel])
qed

lemma quiet_wait: "WaitFor s = (j, s1) \<Longrightarrow> quiet i s (await_suspend now fd events timeout j s1)"
  by (auto simp: WaitFor_def await_suspend_def Enqueue_def Let_def quiet_def gone_def nth_append
      list_update_append)

lemma quiet_step: "rt_step os s s' \<Longrightarrow> quiet i s s'"
  by (induction rule: rt_step.induct)
    (simp_all add: quiet_wait quiet_drop quiet_register_next quiet_handle_token quiet_ExpireTimedOut
      grab_pending_def quiet_refl)

lemma fold_finish_resumed: "rt_resumed (fold (\<lambda>r. finish_state (wr_state r)) rs s) = rt_resumed s"
  by (induction rs arbitrary: s) (simp_all add: finish_state_def)

lemma finish_resumed: "rt_resumed (finish_state i s) = rt_resumed s"
  by (simp add: finish_state_def)

lemma drop_resumed: "rt_resumed (FdAwaiter_destroy os i s) = rt_resumed s"
  by (simp add: FdAwaiter_destroy_def Cancel_def Let_def finish_resumed fold_finish_resumed split: option.split)

lemma gone_drop: "i < length (rt_states s) \<Longrightarrow> gone i (FdAwaiter_destroy os i s)"
proof -
  assume "i < length (rt_states s)"
  then have "gone i (set_state i ((rt_states s ! i)\<lparr>ws_cancelled := True\<rparr>) s)"
    by (simp add: gone_def)
  then show ?thesis
    using quiet_Cancel [of i "set_state i ((rt_states s ! i)\<lparr>ws_cancelled := True\<rparr>) s" os]
    by (simp add: FdAwaiter_destroy_def Let_def quiet_def)
qed

text \<open>No wait is lost: what is not completed is still queued, being registered or registered.\<close>

definition held_waits :: "WaitRegistration list \<Rightarrow> 'w runtime \<Rightarrow> nat set" where
  "held_waits L s = wr_state ` (set (waiting L s) \<union> snd ` set (rt_registrations s))"

definition kept :: "WaitRegistration list \<Rightarrow> 'w runtime \<Rightarrow> bool" where
  "kept L s \<longleftrightarrow> (\<forall>i < length (rt_states s). \<not> ws_completed (rt_states s ! i) \<longrightarrow> i \<in> held_waits L s)"

lemma kept_mono:
  assumes "kept L s" "rt_states s' = rt_states s" "held_waits L s \<subseteq> held_waits L' s'"
  shows "kept L' s'"
  using assms by (auto simp: kept_def)

lemma kept_end:
  assumes "kept (r # L) s" and st: "rt_states s' = (rt_states s)[wr_state r := ws]" "ws_completed ws"
    and "rt_pending s' = rt_pending s" "rt_grabbed s' = rt_grabbed s" "rt_registrations s' = rt_registrations s"
  shows "kept L s'"
  using assms by (auto simp: kept_def held_waits_def waiting_def nth_upd split: if_splits)

lemma kept_finish: "kept (r # L) s \<Longrightarrow> kept L (finish_state (wr_state r) s)"
  by (rule kept_end) (auto simp: finish_state_def)

lemma kept_ResumeReady: "kept (r # L) s \<Longrightarrow> kept L (ResumeReady r to s)"
  by (cases "ws_cancelled (rt_states s ! wr_state r)")
    (auto simp: ResumeReady_def Let_def kept_finish intro: kept_end)

lemma kept_fold_finish: "kept (rs @ L) s \<Longrightarrow> kept L (fold (\<lambda>r. finish_state (wr_state r)) rs s)"
  by (induction rs arbitrary: s) (auto intro: kept_finish)

lemma kept_fold_resume: "kept (map snd exs) s \<Longrightarrow> kept [] (fold (\<lambda>(_, r). ResumeReady r to) exs s)"
proof (induction exs arbitrary: s)
  case (Cons e exs)
  then show ?case by (cases e) (simp add: kept_ResumeReady)
qed simp

lemma kept_register_next:
  assumes inv: "rt_inv [] s" and kept: "kept [] s"
  shows "kept [] (register_next os s)"
proof (cases "rt_grabbed s")
  case (Cons r rs)
  have "rt_inv [r] (s\<lparr>rt_grabbed := rs\<rparr>)"
    using inv by (rule rt_inv_mset) (simp_all add: waiting_def Cons)
  from umap_put_fresh [OF rt_inv_fresh [OF this], of r]
  have put: "umap_put (wr_token r) r (rt_registrations s) = rt_registrations s @ [(wr_token r, r)]" by simp
  have "kept [] (ResumeReady r True (s\<lparr>rt_grabbed := rs, rt_world := w\<rparr>))" for w
    by (rule kept_ResumeReady, rule kept_mono [OF kept]) (auto simp: held_waits_def waiting_def Cons)
  moreover have "kept [] (s\<lparr>rt_grabbed := rs, rt_world := w,
      rt_registrations := umap_put (wr_token r) r (rt_registrations s)\<rparr>)" for w
    by (rule kept_mono [OF kept]) (auto simp: held_waits_def waiting_def Cons put)
  ultimately show ?thesis
    by (simp add: register_next_def register_one_def Let_def Cons split: prod.split sum.split)
qed (simp add: register_next_def kept)

lemma kept_unregister:
  assumes "kept L s" and "umap_find (rt_registrations s) t = Some r"
    and "umap_ok (rt_registrations s)"
  shows "kept (r # L) (s\<lparr>rt_registrations := umap_erase t (rt_registrations s), rt_world := w\<rparr>)"
proof (rule kept_mono [OF assms(1)])
  have "q = r" if "(t, q) \<in> set (rt_registrations s)" for q
    using that assms(2,3) umap_find_mem [of "rt_registrations s" t q] by simp
  then show "held_waits L s \<subseteq> held_waits (r # L) (s\<lparr>rt_registrations := umap_erase t (rt_registrations s), rt_world := w\<rparr>)"
    by (force simp: held_waits_def waiting_def AList.delete_eq)
qed simp

lemma kept_handle_token:
  assumes "rt_inv [] s" "kept [] s" "token \<noteq> 0"
  shows "kept [] (handle_token os token s)"
  using assms kept_unregister [OF assms(2)]
  by (auto simp: handle_token_def rt_inv_def intro!: kept_ResumeReady split: option.split)

lemma kept_ExpireTimedOut: "kept [] s \<Longrightarrow> kept [] (ExpireTimedOut os now s)"
  unfolding ExpireTimedOut_def Let_def
  by (rule kept_fold_resume, erule kept_mono) (auto simp: held_waits_def waiting_def image_iff Bex_def)

lemma kept_Cancel:
  assumes inv: "rt_inv [] s" and kept: "kept [] s"
  shows "kept [] (Cancel os token s)"
proof -
  let ?gone = "filter (\<lambda>r. wr_token r = token) (rt_pending s)"
  let ?s0 = "s\<lparr>rt_pending := filter (\<lambda>r. wr_token r \<noteq> token) (rt_pending s)\<rparr>"
  let ?s1 = "fold (\<lambda>r. finish_state (wr_state r)) ?gone ?s0"
  have "rt_inv (?gone @ []) ?s0" by (rule rt_inv_mset [OF inv]) (simp_all add: waiting_def)
  then have "rt_inv [] ?s1" by (rule rt_inv_fold_finish)
  then have ok: "umap_ok (rt_registrations ?s1)" by (simp add: rt_inv_def)
  have "kept (?gone @ []) ?s0" by (rule kept_mono [OF kept]) (auto simp: held_waits_def waiting_def)
  then have s1: "kept [] ?s1" by (rule kept_fold_finish)
  have "kept [] (finish_state (wr_state r) (?s1\<lparr>rt_registrations := umap_erase token (rt_registrations ?s1),
      rt_world := w\<rparr>))" if "umap_find (rt_registrations ?s1) token = Some r" for r w
    by (rule kept_finish, rule kept_unregister [OF s1 that ok])
  with s1 kept show ?thesis by (simp add: Cancel_def Let_def split: option.split)
qed

lemma kept_drop:
  assumes "rt_inv [] s" and kept: "kept [] s"
  shows "kept [] (FdAwaiter_destroy os i s)"
proof -
  let ?s = "set_state i ((rt_states s ! i)\<lparr>ws_cancelled := True\<rparr>) s"
  have "kept [] ?s" using kept by (simp add: kept_def held_waits_def waiting_def nth_upd)
  then show ?thesis
    using rt_inv_mark [OF assms(1)] by (simp add: FdAwaiter_destroy_def Let_def kept_Cancel)
qed

lemma kept_wait:
  assumes "kept [] s" "WaitFor s = (i, s1)"
  shows "kept [] (await_suspend now fd events timeout i s1)"
  using assms by (auto simp: kept_def held_waits_def waiting_def WaitFor_def await_suspend_def Enqueue_def Let_def
      nth_append list_update_append less_Suc_eq split: if_splits)

lemma kept_step: "rt_step os s s' \<Longrightarrow> rt_inv [] s \<Longrightarrow> kept [] s \<Longrightarrow> kept [] s'"
proof (induction rule: rt_step.induct)
  case (grab s)
  from grab(2) show ?case
    by (rule kept_mono) (auto simp: grab_pending_def held_waits_def waiting_def)
next
  case (poll s w)
  from poll(2) show ?case by (rule kept_mono) (simp_all add: held_waits_def waiting_def)
qed (simp_all add: kept_wait kept_drop kept_register_next kept_handle_token kept_ExpireTimedOut)

lemma kept_reachable: "rt_reachable os w0 s \<Longrightarrow> kept [] s"
proof (induction rule: rt_reachable.induct)
  case init
  show ?case by (simp add: kept_def AsyncRuntime_new_def)
next
  case (step s s')
  then show ?case by (intro kept_step [OF step.hyps(2) rt_inv_reachable [OF step.hyps(1)]])
qed

lemma quiet_steps: "(rt_step os)\<^sup>*\<^sup>* s s' \<Longrightarrow> quiet i s s'"
  by (induction rule: rtranclp_induct) (auto intro: quiet_refl quiet_trans quiet_step)

text \<open>Ending an expired wait: it is resumed with a time-out unless its awaiter is gone.\<close>

lemma ResumeReady_frame:
  "rt_registrations (ResumeReady r to s) = rt_registrations s"
  "rt_resumed (ResumeReady r to s) =
     rt_resumed s @ (if ws_cancelled (rt_states s ! wr_state r) then [] else [(wr_state r, to)])"
  "ws_cancelled (rt_states (ResumeReady r to s) ! i) = ws_cancelled (rt_states s ! i)"
  by (simp_all add: ResumeReady_def Let_def finish_state_def nth_upd)

lemma fold_ResumeReady:
  "rt_registrations (fold (\<lambda>(_, r). ResumeReady r to) exs s) = rt_registrations s"
  "rt_resumed (fold (\<lambda>(_, r). ResumeReady r to) exs s) =
     rt_resumed s @ map (\<lambda>(_, r). (wr_state r, to))
       (filter (\<lambda>(_, r). \<not> ws_cancelled (rt_states s ! wr_state r)) exs)"
  by (induction exs arbitrary: s) (auto simp: ResumeReady_frame)

section \<open>A run of the machine\<close>

text \<open>
  One wait, from its start to the event that ends it, on an epoll that accepts everything.
\<close>

definition demo_epoll :: "unit rt_sys" where
  "demo_epoll = \<lparr>rts_epoll_ctl = (\<lambda>oper fd ev token w. (Ok (), w)), rts_epoll_wait = (\<lambda>w. (Ok [1], w))\<rparr>"

definition demo_started :: "unit runtime" where
  "demo_started = await_suspend 0 5 EPOLLIN 1000 0 (snd (WaitFor (AsyncRuntime_new ())))"

definition demo_registered :: "unit runtime" where
  "demo_registered = register_next demo_epoll (grab_pending demo_started)"

definition demo_ended :: "unit runtime" where
  "demo_ended = handle_token demo_epoll 1 demo_registered"

lemmas demo_defs = demo_epoll_def demo_started_def demo_registered_def demo_ended_def await_suspend_def
  WaitFor_def AsyncRuntime_new_def Enqueue_def register_next_def grab_pending_def register_one_def
  handle_token_def ResumeReady_def new_wait_state_def Let_def

lemma demo_started_reachable: "rt_reachable demo_epoll () demo_started"
  unfolding demo_started_def
  by (rule rt_reachable.step [OF rt_reachable.init], rule rt_step.wait)
    (simp_all add: AsyncRuntime_new_def WaitFor_def)

lemma demo_registered_reachable: "rt_reachable demo_epoll () demo_registered"
  unfolding demo_registered_def
  by (rule rt_reachable.step [OF rt_reachable.step [OF demo_started_reachable rt_step.grab] rt_step.register])

lemma demo_ended_reachable: "rt_reachable demo_epoll () demo_ended"
  unfolding demo_ended_def
  by (rule rt_reachable.step [OF demo_registered_reachable], rule rt_step.event) simp

lemma demo_registered_table:
  "rt_pending demo_registered = []" "rt_grabbed demo_registered = []" "length (rt_states demo_registered) = 1"
  "\<not> ws_completed (rt_states demo_registered ! 0)" "rt_resumed demo_registered = []"
  by (simp_all add: demo_defs)

lemma demo_ended_resumed: "rt_resumed demo_ended = [(0, False)]"
  by (simp add: demo_defs)

section \<open>Guarantees\<close>

text \<open>
  C13. In every reachable state of the runtime, whatever the interleaving of the loop with
  threads that start waits and drop awaiters: no wait was resumed twice, and what a resumed
  coroutine reads from \<open>await_resume\<close> is the outcome it was resumed with.
\<close>

theorem rt_resumed_once:
  assumes "rt_reachable os w0 s"
  shows "distinct (map fst (rt_resumed s)) \<and>
    (\<forall>(i, timed_out) \<in> set (rt_resumed s). await_resume i s = (\<not> timed_out))"
  using rt_inv_reachable [OF assms] by (auto simp: rt_inv_def resumed_ok_def await_resume_def)

theorem rt_resumed_once_witness:
  "rt_resumed demo_ended = [(0, False)] \<and> distinct (map fst (rt_resumed demo_ended)) \<and> await_resume 0 demo_ended"
  using rt_resumed_once [OF demo_ended_reachable] by (simp add: demo_ended_resumed)

text \<open>
  No wait is lost: in every reachable state a wait that is not completed is still in the
  queue, in the hands of the loop, or registered, so an event, its deadline or a
  cancellation can end it.
\<close>

lemma rt_no_lost_wait:
  assumes "rt_reachable os w0 s" and "i < length (rt_states s)" and "\<not> ws_completed (rt_states s ! i)"
  shows "\<exists>r. wr_state r = i \<and> wr_token r = ws_token (rt_states s ! i) \<and> wr_token r \<noteq> 0 \<and>
    (r \<in> set (rt_pending s) \<or> r \<in> set (rt_grabbed s) \<or> umap_find (rt_registrations s) (wr_token r) = Some r)"
proof -
  have inv: "rt_inv [] s" and "i \<in> held_waits [] s"
    using rt_inv_reachable [OF assms(1)] kept_reachable [OF assms(1)] assms(2,3) by (auto simp: kept_def)
  then obtain r where r: "wr_state r = i"
    "r \<in> set (rt_pending s) \<or> r \<in> set (rt_grabbed s) \<or> (\<exists>t. (t, r) \<in> set (rt_registrations s))"
    unfolding held_waits_def waiting_def by fastforce
  have "wait_ok s r \<and> (\<forall>t. (t, r) \<in> set (rt_registrations s) \<longrightarrow> t = wr_token r)"
    using r(2) inv unfolding rt_inv_def waiting_def by auto
  moreover have "umap_ok (rt_registrations s)" using inv by (simp add: rt_inv_def)
  ultimately show ?thesis using r by (auto simp: wait_ok_def umap_find_mem)
qed



text \<open>
  \<open>ExpireTimedOut\<close> leaves no registration whose deadline has passed, keeps all others, and
  resumes exactly the overdue waits whose awaiters still exist, in the order of the table, as
  timed out.
\<close>

lemma ExpireTimedOut_overdue:
  "rt_registrations (ExpireTimedOut os now s) = filter (\<lambda>(_, r). now < wr_deadline r) (rt_registrations s) \<and>
   rt_resumed (ExpireTimedOut os now s) = rt_resumed s @
     map (\<lambda>(_, r). (wr_state r, True))
       (filter (\<lambda>(_, r). wr_deadline r \<le> now \<and> \<not> ws_cancelled (rt_states s ! wr_state r)) (rt_registrations s))"
  unfolding ExpireTimedOut_def Let_def fold_ResumeReady by (simp add: case_prod_beta' not_le)

end
