(* ===== verification/Task.thy ===== *)
theory Task
  imports Prelude "HOL-Library.Multiset"
begin

text \<open>
  Coroutine tasks, \<open>src/src/include/task.h\<close>. A coroutine frame holds the promise (result,
  exception, completion flag, continuation) and lives in a heap until its handle is destroyed;
  a \<open>Task\<close> and an awaiter made from an rvalue own a handle, an awaiter made from an lvalue borrows
  one. Touching a frame that is gone is the fault \<open>DeadFrame\<close>, using a null handle \<open>NullHandle\<close>, and
  dereferencing an empty \<open>std::optional\<close> \<open>EmptyValue\<close>.

  Two machines: \<open>task_run\<close> for the ownership of frames under all operations on tasks and awaiters,
  and \<open>race_step\<close> for a coroutine that finishes in the thread of the coroutine runtime while
  another thread waits in \<open>Get\<close> and then drops the task. The socket coroutines of the transport
  (\<open>SendAllAsync\<close>, \<open>RecvAllAsync\<close>, \<open>ConnectToAsync\<close>) suspend in that way; \<open>RoundTripAsync\<close> does not, since it
  runs the synchronous path.
\<close>

datatype task_fault = DeadFrame | NullHandle | EmptyValue

datatype 'a slot = Empty | Full 'a | MovedFrom

record ('a, 'e) promise =
  pr_value :: "'a slot"
  pr_exception :: "'e option"
  pr_done :: bool
  pr_continuation :: "nat option"

record ('a, 'e) frames =
  fr_next :: nat
  fr_table :: "(nat, ('a, 'e) promise) umap"

record Awaiter =
  aw_handle :: "nat option"
  owns_handle :: bool

section \<open>The promise\<close>

definition new_promise :: "('a, 'e) promise" where
  "new_promise = \<lparr>pr_value = Empty, pr_exception = None, pr_done = False, pr_continuation = None\<rparr>"

definition get_return_object :: "('a, 'e) frames \<Rightarrow> nat \<times> ('a, 'e) frames" where
  "get_return_object H = (fr_next H, \<lparr>fr_next = Suc (fr_next H), fr_table = umap_put (fr_next H) new_promise (fr_table H)\<rparr>)"

definition return_value :: "'a \<Rightarrow> ('a, 'e) promise \<Rightarrow> ('a, 'e) promise" where
  "return_value v p = p\<lparr>pr_value := Full v\<rparr>"

definition unhandled_exception :: "'e \<Rightarrow> ('a, 'e) promise \<Rightarrow> ('a, 'e) promise" where
  "unhandled_exception e p = p\<lparr>pr_exception := Some e\<rparr>"

text \<open>
  \<open>FinalAwaiter::await_suspend\<close>: mark the promise done under its mutex, notify the waiting
  threads, and continue with the continuation if there is one. \<open>None\<close> is \<open>noop_coroutine\<close>.
\<close>

definition final_mark :: "('a, 'e) promise \<Rightarrow> ('a, 'e) promise" where
  "final_mark p = p\<lparr>pr_done := True\<rparr>"

definition FinalAwaiter_await_suspend :: "('a, 'e) promise \<Rightarrow> nat option \<times> ('a, 'e) promise" where
  "FinalAwaiter_await_suspend p = (let p1 = final_mark p in (pr_continuation p1, p1))"

text \<open>
  Reading the result, in \<open>Get\<close> and in \<open>await_resume\<close>: the exception is rethrown; a value is moved
  out, so a later read sees the moved-from object, here \<open>None\<close>.
\<close>

definition take_result :: "('a, 'e) promise \<Rightarrow> task_fault + (('e + 'a option) \<times> ('a, 'e) promise)" where
  "take_result p =
     (case pr_exception p of
        Some e \<Rightarrow> Ok (Err e, p)
      | None \<Rightarrow>
          (case pr_value p of
             Empty \<Rightarrow> Err EmptyValue
           | Full v \<Rightarrow> Ok (Ok (Some v), p\<lparr>pr_value := MovedFrom\<rparr>)
           | MovedFrom \<Rightarrow> Ok (Ok None, p)))"

text \<open>\<open>Get\<close> blocks, here \<open>None\<close>, until the promise is done.\<close>

definition Task_Get :: "('a, 'e) promise \<Rightarrow> (task_fault + (('e + 'a option) \<times> ('a, 'e) promise)) option" where
  "Task_Get p = (if \<not> pr_done p then None else Some (take_result p))"

definition Awaiter_await_ready :: "('a, 'e) promise \<Rightarrow> bool" where
  "Awaiter_await_ready p = pr_done p"

text \<open>\<open>await_suspend\<close> returns the coroutine to resume: the awaited one.\<close>

definition Awaiter_await_suspend :: "nat \<Rightarrow> nat \<Rightarrow> ('a, 'e) promise \<Rightarrow> nat \<times> ('a, 'e) promise" where
  "Awaiter_await_suspend handle continuation p = (handle, p\<lparr>pr_continuation := Some continuation\<rparr>)"

definition Awaiter_await_resume :: "('a, 'e) promise \<Rightarrow> task_fault + (('e + 'a option) \<times> ('a, 'e) promise)" where
  "Awaiter_await_resume p = take_result p"

section \<open>Ownership of frames\<close>

text \<open>
  The task and awaiter objects of a program, by number; a destroyed object keeps its slot
  without a handle.
\<close>

record ('a, 'e) task_state =
  ts_frames :: "('a, 'e) frames"
  ts_tasks :: "nat option list"
  ts_awaiters :: "Awaiter list"

definition task_start :: "('a, 'e) task_state" where
  "task_start = \<lparr>ts_frames = \<lparr>fr_next = 0, fr_table = []\<rparr>, ts_tasks = [], ts_awaiters = []\<rparr>"

definition destroy_handle :: "nat option \<Rightarrow> ('a, 'e) task_state \<Rightarrow> task_fault + ('a, 'e) task_state" where
  "destroy_handle h s =
     (case h of
        None \<Rightarrow> Ok s
      | Some i \<Rightarrow>
          (case umap_find (fr_table (ts_frames s)) i of
             None \<Rightarrow> Err DeadFrame
           | Some _ \<Rightarrow> Ok (s\<lparr>ts_frames := (ts_frames s)\<lparr>fr_table := umap_erase i (fr_table (ts_frames s))\<rparr>\<rparr>)))"

text \<open>Calling a coroutine makes its frame and the task that owns it.\<close>

definition Task_new :: "('a, 'e) task_state \<Rightarrow> ('a, 'e) task_state" where
  "Task_new s = (case get_return_object (ts_frames s) of (h, H) \<Rightarrow> s\<lparr>ts_frames := H, ts_tasks := ts_tasks s @ [Some h]\<rparr>)"

definition Task_move :: "nat \<Rightarrow> ('a, 'e) task_state \<Rightarrow> ('a, 'e) task_state" where
  "Task_move other s = s\<lparr>ts_tasks := (ts_tasks s)[other := None] @ [ts_tasks s ! other]\<rparr>"

definition Task_assign :: "nat \<Rightarrow> nat \<Rightarrow> ('a, 'e) task_state \<Rightarrow> task_fault + ('a, 'e) task_state" where
  "Task_assign this other s =
     (if this = other then Ok s
      else
        (case destroy_handle (ts_tasks s ! this) s of
           Err e \<Rightarrow> Err e
         | Ok s1 \<Rightarrow> Ok (s1\<lparr>ts_tasks := (ts_tasks s1)[this := ts_tasks s1 ! other, other := None]\<rparr>)))"

definition Task_destroy :: "nat \<Rightarrow> ('a, 'e) task_state \<Rightarrow> task_fault + ('a, 'e) task_state" where
  "Task_destroy this s =
     (case destroy_handle (ts_tasks s ! this) s of
        Err e \<Rightarrow> Err e
      | Ok s1 \<Rightarrow> Ok (s1\<lparr>ts_tasks := (ts_tasks s1)[this := None]\<rparr>))"

definition co_await_lvalue :: "nat \<Rightarrow> ('a, 'e) task_state \<Rightarrow> ('a, 'e) task_state" where
  "co_await_lvalue this s =
     s\<lparr>ts_awaiters := ts_awaiters s @ [\<lparr>aw_handle = ts_tasks s ! this, owns_handle = False\<rparr>]\<rparr>"

definition co_await_rvalue :: "nat \<Rightarrow> ('a, 'e) task_state \<Rightarrow> ('a, 'e) task_state" where
  "co_await_rvalue this s =
     s\<lparr>ts_awaiters := ts_awaiters s @ [\<lparr>aw_handle = ts_tasks s ! this, owns_handle = True\<rparr>],
       ts_tasks := (ts_tasks s)[this := None]\<rparr>"

definition Awaiter_destroy :: "nat \<Rightarrow> ('a, 'e) task_state \<Rightarrow> task_fault + ('a, 'e) task_state" where
  "Awaiter_destroy this s =
     (let a = ts_awaiters s ! this in
      case (if owns_handle a then destroy_handle (aw_handle a) s else Ok s) of
        Err e \<Rightarrow> Err e
      | Ok s1 \<Rightarrow> Ok (s1\<lparr>ts_awaiters := (ts_awaiters s1)[this := \<lparr>aw_handle = None, owns_handle = False\<rparr>]\<rparr>))"

datatype task_op =
  OpNew | OpMove nat | OpAssign nat nat | OpDestroy nat | OpAwaitRef nat | OpAwaitMove nat | OpAwaiterDestroy nat

fun perform :: "task_op \<Rightarrow> ('a, 'e) task_state \<Rightarrow> task_fault + ('a, 'e) task_state" where
  "perform OpNew s = Ok (Task_new s)"
| "perform (OpMove j) s = Ok (Task_move j s)"
| "perform (OpAssign i j) s = Task_assign i j s"
| "perform (OpDestroy i) s = Task_destroy i s"
| "perform (OpAwaitRef i) s = Ok (co_await_lvalue i s)"
| "perform (OpAwaitMove i) s = Ok (co_await_rvalue i s)"
| "perform (OpAwaiterDestroy a) s = Awaiter_destroy a s"

text \<open>The objects an operation names exist.\<close>

fun op_names :: "('a, 'e) task_state \<Rightarrow> task_op \<Rightarrow> bool" where
  "op_names s OpNew \<longleftrightarrow> True"
| "op_names s (OpMove j) \<longleftrightarrow> j < length (ts_tasks s)"
| "op_names s (OpAssign i j) \<longleftrightarrow> i < length (ts_tasks s) \<and> j < length (ts_tasks s)"
| "op_names s (OpDestroy i) \<longleftrightarrow> i < length (ts_tasks s)"
| "op_names s (OpAwaitRef i) \<longleftrightarrow> i < length (ts_tasks s)"
| "op_names s (OpAwaitMove i) \<longleftrightarrow> i < length (ts_tasks s)"
| "op_names s (OpAwaiterDestroy a) \<longleftrightarrow> a < length (ts_awaiters s)"

inductive task_run :: "task_fault + ('a, 'e) task_state \<Rightarrow> bool" where
  init: "task_run (Ok task_start)"
| step: "task_run (Ok s) \<Longrightarrow> op_names s op \<Longrightarrow> task_run (perform op s)"

definition owned_handle :: "Awaiter \<Rightarrow> nat option" where
  "owned_handle a = (if owns_handle a then aw_handle a else None)"

definition owners :: "('a, 'e) task_state \<Rightarrow> nat option multiset" where
  "owners s = filter_mset (\<lambda>h. h \<noteq> None) (mset (ts_tasks s) + mset (map owned_handle (ts_awaiters s)))"

definition task_inv :: "('a, 'e) task_state \<Rightarrow> bool" where
  "task_inv s \<longleftrightarrow> owners s = image_mset Some (mset (map fst (fr_table (ts_frames s)))) \<and>
     distinct (map fst (fr_table (ts_frames s))) \<and> (\<forall>i \<in> fst ` set (fr_table (ts_frames s)). i < fr_next (ts_frames s))"

section \<open>Finishing against \<open>Get\<close>\<close>

text \<open>
  One coroutine thread and one thread that owns the task. The frame is \<open>None\<close> once destroyed.
  The coroutine stores its outcome, marks the promise done, notifies (the condition variable is
  a member of the promise) and reads the continuation; the owner gets the result and drops the
  task. With \<open>patient\<close>, the owner drops it only after the coroutine has come to its final rest.
\<close>

datatype ('a, 'e) coro_pc = InBody "'e + 'a" | AtMark | AtNotify | AtNext | AtRest "nat option"

datatype ('a, 'e) owner_pc = InGet | Got "'e + 'a option" | Dropped "'e + 'a option"

record ('a, 'e) race =
  rc_frame :: "('a, 'e) promise option"
  rc_coro :: "('a, 'e) coro_pc"
  rc_owner :: "('a, 'e) owner_pc"

definition store_outcome :: "'e + 'a \<Rightarrow> ('a, 'e) promise \<Rightarrow> ('a, 'e) promise" where
  "store_outcome r p = (case r of Ok v \<Rightarrow> return_value v p | Err e \<Rightarrow> unhandled_exception e p)"

definition coro_step :: "('a, 'e) race \<Rightarrow> task_fault + ('a, 'e) race" where
  "coro_step s =
     (case rc_frame s of
        None \<Rightarrow> Err DeadFrame
      | Some p \<Rightarrow>
          Ok (case rc_coro s of
                InBody r \<Rightarrow> s\<lparr>rc_frame := Some (store_outcome r p), rc_coro := AtMark\<rparr>
              | AtMark \<Rightarrow> s\<lparr>rc_frame := Some (final_mark p), rc_coro := AtNotify\<rparr>
              | AtNotify \<Rightarrow> s\<lparr>rc_coro := AtNext\<rparr>
              | AtNext \<Rightarrow> s\<lparr>rc_coro := AtRest (pr_continuation p)\<rparr>
              | AtRest _ \<Rightarrow> s))"

definition race_start :: "'e + 'a \<Rightarrow> ('a, 'e) race" where
  "race_start r = \<lparr>rc_frame = Some new_promise, rc_coro = InBody r, rc_owner = InGet\<rparr>"

inductive race_step :: "bool \<Rightarrow> ('a, 'e) race \<Rightarrow> task_fault + ('a, 'e) race \<Rightarrow> bool" for patient where
  coro: "\<nexists>c. rc_coro s = AtRest c \<Longrightarrow> race_step patient s (coro_step s)"
| get: "rc_owner s = InGet \<Longrightarrow> rc_frame s = Some p \<Longrightarrow> Task_Get p = Some (Ok (r, p')) \<Longrightarrow>
    race_step patient s (Ok (s\<lparr>rc_frame := Some p', rc_owner := Got r\<rparr>))"
| get_fault: "rc_owner s = InGet \<Longrightarrow> rc_frame s = Some p \<Longrightarrow> Task_Get p = Some (Err e) \<Longrightarrow> race_step patient s (Err e)"
| drop: "rc_owner s = Got r \<Longrightarrow> patient \<longrightarrow> (\<exists>c. rc_coro s = AtRest c) \<Longrightarrow>
    race_step patient s (Ok (s\<lparr>rc_frame := None, rc_owner := Dropped r\<rparr>))"

inductive race_reach :: "bool \<Rightarrow> 'e + 'a \<Rightarrow> task_fault + ('a, 'e) race \<Rightarrow> bool" for patient r where
  race_init: "race_reach patient r (Ok (race_start r))"
| race_next: "race_reach patient r (Ok s) \<Longrightarrow> race_step patient s x \<Longrightarrow> race_reach patient r x"

section \<open>Lemmas\<close>

text \<open>The handles of live frames, and the share of one object in the owners.\<close>

definition live :: "('a, 'e) task_state \<Rightarrow> nat option multiset" where
  "live s = image_mset Some (mset (map fst (fr_table (ts_frames s))))"

definition frames_ok :: "('a, 'e) task_state \<Rightarrow> bool" where
  "frames_ok s \<longleftrightarrow> distinct (map fst (fr_table (ts_frames s))) \<and>
     (\<forall>i \<in> fst ` set (fr_table (ts_frames s)). i < fr_next (ts_frames s))"

definition share :: "nat option \<Rightarrow> nat option multiset" where
  "share h = (if h = None then {#} else {#h#})"

lemma task_inv_live: "task_inv s \<longleftrightarrow> owners s = live s \<and> frames_ok s"
  by (simp add: task_inv_def live_def frames_ok_def)

lemma live_fields [simp]:
  "live (s\<lparr>ts_tasks := ts\<rparr>) = live s" "live (s\<lparr>ts_awaiters := as\<rparr>) = live s"
  "frames_ok (s\<lparr>ts_tasks := ts\<rparr>) = frames_ok s" "frames_ok (s\<lparr>ts_awaiters := as\<rparr>) = frames_ok s"
  by (simp_all add: live_def frames_ok_def)

lemma share_simps [simp]: "share None = {#}" "share (Some i) = {#Some i#}"
  by (simp_all add: share_def)

lemma owners_shares:
  "owners s = sum_list (map share (ts_tasks s)) + sum_list (map (share \<circ> owned_handle) (ts_awaiters s))"
proof -
  have "filter_mset (\<lambda>h. h \<noteq> None) (mset hs) = sum_list (map share hs)" for hs :: "nat option list"
    by (induction hs) (auto simp: share_def)
  from this [of "ts_tasks s"] this [of "map owned_handle (ts_awaiters s)"] show ?thesis
    by (simp add: owners_def del: mset_map)
qed

lemma sum_list_shares_update:
  "i < length xs \<Longrightarrow> f (xs ! i) + sum_list (map f (xs[i := y])) = f y + sum_list (map f xs)"
  for f :: "'b \<Rightarrow> 'c multiset"
  by (induction xs arbitrary: i) (auto split: nat.splits simp: ac_simps nth_Cons)

text \<open>Destroying the handle of an owner never faults and leaves the frames of the other owners.\<close>

lemma destroy_handle_owned:
  assumes inv: "task_inv s" and h: "share h \<subseteq># owners s"
  obtains s1 where "destroy_handle h s = Ok s1" "ts_tasks s1 = ts_tasks s" "ts_awaiters s1 = ts_awaiters s"
    "share h + live s1 = live s" "frames_ok s1"
proof (cases h)
  case None
  with inv show ?thesis by (intro that [of s]) (simp_all add: destroy_handle_def task_inv_live)
next
  case (Some i)
  let ?T = "fr_table (ts_frames s)"
  let ?s1 = "s\<lparr>ts_frames := (ts_frames s)\<lparr>fr_table := umap_erase i ?T\<rparr>\<rparr>"
  from inv have d: "distinct (map fst ?T)" and o: "owners s = live s" by (simp_all add: task_inv_live frames_ok_def)
  from Some h o have i: "i \<in> set (map fst ?T)" by (auto simp: live_def)
  then obtain p where p: "umap_find ?T i = Some p" by (metis map_of_eq_None_iff not_None_eq set_map)
  have "mset (map fst ?T) = add_mset i (mset (map fst (umap_erase i ?T)))"
    using d i by (simp add: delete_keys distinct_remove1_removeAll [symmetric] del: mset_map set_map)
  then have "live s = add_mset (Some i) (live ?s1)" by (simp add: live_def del: mset_map)
  moreover have "fst ` set (umap_erase i ?T) \<subseteq> fst ` set ?T"
    by (rule dom_delete_subset)
  ultimately show ?thesis
    using inv d p Some
    by (intro that [of ?s1]) (auto simp: destroy_handle_def task_inv_live frames_ok_def distinct_delete)
qed

section \<open>Every operation keeps the invariant and does not fault\<close>

lemma share_member: "i < length xs \<Longrightarrow> f (xs ! i) \<subseteq># sum_list (map f xs)"
  for f :: "'b \<Rightarrow> 'c multiset"
  by (induction xs arbitrary: i) (auto simp: nth_Cons subset_mset.add_increasing split: nat.splits)

lemma share_task: "i < length (ts_tasks s) \<Longrightarrow> share (ts_tasks s ! i) \<subseteq># owners s"
  unfolding owners_shares by (rule subset_mset.trans [OF share_member mset_subset_eq_add_left])

lemma share_awaiter: "a < length (ts_awaiters s) \<Longrightarrow> share (owned_handle (ts_awaiters s ! a)) \<subseteq># owners s"
  unfolding owners_shares
  by (rule subset_mset.trans [OF _ mset_subset_eq_add_right]) (use share_member [of a _ "share \<circ> owned_handle"] in simp)

lemma owners_put_task:
  "i < length (ts_tasks s) \<Longrightarrow> share (ts_tasks s ! i) + owners (s\<lparr>ts_tasks := (ts_tasks s)[i := h]\<rparr>) = share h + owners s"
  using sum_list_shares_update [of i "ts_tasks s" share h] by (simp add: owners_shares flip: union_assoc)

lemma owners_put_awaiter:
  "a < length (ts_awaiters s) \<Longrightarrow> share (owned_handle (ts_awaiters s ! a)) +
     owners (s\<lparr>ts_awaiters := (ts_awaiters s)[a := w]\<rparr>) = share (owned_handle w) + owners s"
  using sum_list_shares_update [of a "ts_awaiters s" "share \<circ> owned_handle" w]
  by (simp add: owners_shares ac_simps)

lemma task_inv_new: "task_inv s \<Longrightarrow> task_inv (Task_new s)"
  by (auto simp: task_inv_def Task_new_def get_return_object_def owners_def less_Suc_eq update_keys distinct_update
      dom_update image_iff simp del: mset_map)

lemma task_inv_move: "task_inv s \<Longrightarrow> j < length (ts_tasks s) \<Longrightarrow> task_inv (Task_move j s)"
  using sum_list_shares_update [of j "ts_tasks s" share None]
  by (auto simp: task_inv_live Task_move_def owners_shares ac_simps)

lemma task_inv_await_rvalue:
  assumes "task_inv s" and i: "i < length (ts_tasks s)"
  shows "task_inv (co_await_rvalue i s)"
proof -
  have "owners (co_await_rvalue i s) = share (ts_tasks s ! i) + owners (s\<lparr>ts_tasks := (ts_tasks s)[i := None]\<rparr>)"
    by (simp add: owners_shares co_await_rvalue_def owned_handle_def ac_simps)
  with assms owners_put_task [OF i, of None] show ?thesis
    by (simp add: task_inv_live) (simp add: co_await_rvalue_def)
qed

lemma task_inv_await_lvalue: "task_inv s \<Longrightarrow> task_inv (co_await_lvalue i s)"
  by (simp add: task_inv_live co_await_lvalue_def owners_shares owned_handle_def)

text \<open>Destroying an owned handle and giving its slot up restores the invariant.\<close>

lemma task_inv_give_up:
  assumes inv: "task_inv s" and h: "share h \<subseteq># owners s" and up: "share h + owners (f s) = owners s"
    and f: "\<And>t. ts_tasks t = ts_tasks s \<Longrightarrow> ts_awaiters t = ts_awaiters s \<Longrightarrow>
      owners (f t) = owners (f s) \<and> live (f t) = live t \<and> frames_ok (f t) = frames_ok t"
  obtains s1 where "destroy_handle h s = Ok s1" "ts_tasks s1 = ts_tasks s" "ts_awaiters s1 = ts_awaiters s" "task_inv (f s1)"
proof -
  obtain s1 where s1: "destroy_handle h s = Ok s1" "ts_tasks s1 = ts_tasks s" "ts_awaiters s1 = ts_awaiters s"
    "share h + live s1 = live s" "frames_ok s1"
    by (rule destroy_handle_owned [OF inv h])
  have "owners (f s) = live s1" using inv up s1(4) by (metis task_inv_live add_left_cancel)
  with s1 f [of s1] show ?thesis by (intro that [of s1]) (simp_all add: task_inv_live)
qed

lemma owners_cong: "ts_tasks t = ts_tasks s \<Longrightarrow> ts_awaiters t = ts_awaiters s \<Longrightarrow> owners t = owners s"
  by (simp add: owners_def)

lemma task_inv_destroy:
  assumes inv: "task_inv s" and i: "i < length (ts_tasks s)"
  shows "\<exists>s'. Task_destroy i s = Ok s' \<and> task_inv s'"
proof -
  have "share (ts_tasks s ! i) + owners (s\<lparr>ts_tasks := (ts_tasks s)[i := None]\<rparr>) = owners s"
    using owners_put_task [OF i, of None] by simp
  then obtain s1 where "destroy_handle (ts_tasks s ! i) s = Ok s1" "task_inv (s1\<lparr>ts_tasks := (ts_tasks s1)[i := None]\<rparr>)"
    by (rule task_inv_give_up [OF inv share_task [OF i], of "\<lambda>t. t\<lparr>ts_tasks := (ts_tasks t)[i := None]\<rparr>"])
      (simp_all add: owners_cong)
  then show ?thesis by (simp add: Task_destroy_def)
qed

lemma task_inv_assign:
  assumes inv: "task_inv s" and i: "i < length (ts_tasks s)" "j < length (ts_tasks s)"
  shows "\<exists>s'. Task_assign i j s = Ok s' \<and> task_inv s'"
proof (cases "i = j")
  case False
  let ?f = "\<lambda>t. t\<lparr>ts_tasks := (ts_tasks t)[i := ts_tasks t ! j, j := None]\<rparr>"
  let ?m = "s\<lparr>ts_tasks := (ts_tasks s)[i := ts_tasks s ! j]\<rparr>"
  have "share (ts_tasks s ! j) + owners (?f s) = owners ?m"
    using owners_put_task [of j ?m None] i False by simp
  moreover have "share (ts_tasks s ! i) + owners ?m = share (ts_tasks s ! j) + owners s"
    by (rule owners_put_task [OF i(1)])
  ultimately have "share (ts_tasks s ! j) + (share (ts_tasks s ! i) + owners (?f s)) = share (ts_tasks s ! j) + owners s"
    by (simp add: ac_simps)
  then have "share (ts_tasks s ! i) + owners (?f s) = owners s" by (simp only: add_left_cancel)
  then obtain s1 where "destroy_handle (ts_tasks s ! i) s = Ok s1" "task_inv (?f s1)"
    by (rule task_inv_give_up [OF inv share_task [OF i(1)], of ?f]) (simp_all add: owners_cong)
  with False show ?thesis by (simp add: Task_assign_def)
qed (use inv in \<open>simp add: Task_assign_def\<close>)

lemma task_inv_awaiter:
  assumes inv: "task_inv s" and a: "a < length (ts_awaiters s)"
  shows "\<exists>s'. Awaiter_destroy a s = Ok s' \<and> task_inv s'"
proof -
  let ?n = "\<lparr>aw_handle = None, owns_handle = False\<rparr>"
  have "share (owned_handle (ts_awaiters s ! a)) + owners (s\<lparr>ts_awaiters := (ts_awaiters s)[a := ?n]\<rparr>) = owners s"
    using owners_put_awaiter [OF a, of ?n] by (simp add: owned_handle_def [of ?n])
  then obtain s1 where "destroy_handle (owned_handle (ts_awaiters s ! a)) s = Ok s1"
    "task_inv (s1\<lparr>ts_awaiters := (ts_awaiters s1)[a := ?n]\<rparr>)"
    by (rule task_inv_give_up [OF inv share_awaiter [OF a], of "\<lambda>t. t\<lparr>ts_awaiters := (ts_awaiters t)[a := ?n]\<rparr>"])
      (simp_all add: owners_cong)
  then show ?thesis
    by (cases "owns_handle (ts_awaiters s ! a)")
      (auto simp: Awaiter_destroy_def owned_handle_def destroy_handle_def)
qed

lemma task_inv_perform: "task_inv s \<Longrightarrow> op_names s op \<Longrightarrow> \<exists>s'. perform op s = Ok s' \<and> task_inv s'"
  by (cases op) (simp_all add: task_inv_new task_inv_move task_inv_await_lvalue task_inv_await_rvalue
      task_inv_destroy task_inv_assign task_inv_awaiter)

lemma task_run_inv: "task_run x \<Longrightarrow> \<exists>s. x = Ok s \<and> task_inv s"
proof (induction rule: task_run.induct)
  case init
  show ?case by (simp add: task_inv_def task_start_def owners_def)
next
  case (step s op)
  then show ?case using task_inv_perform by blast
qed

section \<open>What tasks guarantee\<close>



text \<open>
  The race between finishing and dropping. Until the owner has read the promise it holds what
  the coroutine stored; it is done exactly from the mark on.
\<close>

definition holds :: "'e + 'a \<Rightarrow> ('a, 'e) promise \<Rightarrow> bool" where
  "holds r p \<longleftrightarrow>
     (case r of Ok v \<Rightarrow> pr_value p = Full v \<and> pr_exception p = None | Err e \<Rightarrow> pr_exception p = Some e)"

definition stored :: "('a, 'e) coro_pc \<Rightarrow> 'e + 'a \<Rightarrow> ('a, 'e) promise \<Rightarrow> bool" where
  "stored c r p \<longleftrightarrow>
     (case c of InBody _ \<Rightarrow> p = new_promise | AtMark \<Rightarrow> holds r p \<and> \<not> pr_done p | _ \<Rightarrow> holds r p \<and> pr_done p)"

definition race_inv :: "bool \<Rightarrow> 'e + 'a \<Rightarrow> ('a, 'e) race \<Rightarrow> bool" where
  "race_inv patient r s \<longleftrightarrow>
     (case rc_owner s of
        InGet \<Rightarrow> (\<exists>p. rc_frame s = Some p \<and> stored (rc_coro s) r p)
      | Got x \<Rightarrow> rc_frame s \<noteq> None \<and> x = map_sum id Some r
      | Dropped x \<Rightarrow> x = map_sum id Some r \<and> (patient \<longrightarrow> (\<exists>c. rc_coro s = AtRest c))) \<and>
     (\<forall>q. rc_coro s = InBody q \<longrightarrow> q = r)"

lemma holds_store: "holds r (store_outcome r new_promise)" "\<not> pr_done (store_outcome r new_promise)"
  by (cases r; simp add: holds_def store_outcome_def return_value_def unhandled_exception_def new_promise_def)+

lemma holds_mark [simp]: "holds r (final_mark p) = holds r p" "pr_done (final_mark p)"
  by (cases r; simp add: holds_def final_mark_def)+

lemma take_result_holds: "holds r p \<Longrightarrow> \<exists>p'. take_result p = Ok (map_sum id Some r, p')"
  by (cases r) (simp_all add: holds_def take_result_def)

lemma race_inv_start: "race_inv patient r (race_start r)"
  by (simp add: race_inv_def race_start_def stored_def)

lemma race_inv_coro:
  assumes "race_inv patient r s" and "coro_step s = Ok s'" and "\<nexists>c. rc_coro s = AtRest c"
  shows "race_inv patient r s'"
proof (cases "rc_owner s")
  case InGet
  with assms show ?thesis
    by (cases "rc_coro s") (auto simp: race_inv_def coro_step_def stored_def holds_store)
next
  case (Got x)
  with assms show ?thesis by (cases "rc_coro s") (auto simp: race_inv_def coro_step_def split: option.splits)
next
  case (Dropped x)
  with assms show ?thesis by (cases "rc_coro s") (auto simp: race_inv_def coro_step_def split: option.splits)
qed

lemma race_inv_get:
  assumes inv: "race_inv patient r s" and owner: "rc_owner s = InGet" and p: "rc_frame s = Some p"
    and get: "Task_Get p = Some y"
  shows "\<exists>p'. y = Ok (map_sum id Some r, p')"
proof -
  from get have fin: "pr_done p" and y: "y = take_result p" by (simp_all add: Task_Get_def split: if_splits)
  from inv owner p have "stored (rc_coro s) r p" by (simp add: race_inv_def)
  with fin have "holds r p" by (cases "rc_coro s") (simp_all add: stored_def new_promise_def)
  with y take_result_holds show ?thesis by blast
qed

lemma race_inv_step:
  assumes inv: "race_inv patient r s" and step: "race_step patient s x"
  shows "(\<forall>s'. x = Ok s' \<longrightarrow> race_inv patient r s') \<and> (\<forall>e. x = Err e \<longrightarrow> \<not> patient \<and> e = DeadFrame)"
  using step
proof cases
  case coro
  have "rc_frame s \<noteq> None \<or> \<not> patient"
    using inv coro(2) by (auto simp: race_inv_def split: owner_pc.splits)
  then show ?thesis
    using race_inv_coro [OF inv] coro by (auto simp: coro_step_def split: option.splits)
next
  case (get p q p')
  with race_inv_get [OF inv get(2,3,4)] inv show ?thesis by (auto simp: race_inv_def)
next
  case (get_fault p e)
  with race_inv_get [OF inv get_fault(2,3,4)] show ?thesis by auto
next
  case (drop q)
  with inv show ?thesis by (auto simp: race_inv_def)
qed

lemma race_reach_inv:
  "race_reach patient r x \<Longrightarrow> (\<forall>s. x = Ok s \<longrightarrow> race_inv patient r s) \<and> (\<forall>e. x = Err e \<longrightarrow> \<not> patient \<and> e = DeadFrame)"
proof (induction rule: race_reach.induct)
  case race_init
  show ?case by (simp add: race_inv_start)
next
  case (race_next s x)
  then show ?case using race_inv_step by blast
qed

text \<open>
  C18. \<open>Get\<close> delivers the outcome of the coroutine: in every interleaving, what \<open>Get\<close> returns or
  rethrows is exactly the value returned or the exception thrown by the body, never early and
  never an empty result; and as long as the task is dropped only after the coroutine has come
  to rest, no step touches a freed frame.
\<close>

theorem Task_Get_delivers:
  assumes "race_reach patient r x"
  shows "(case x of
      Ok s \<Rightarrow> (\<forall>y. rc_owner s = Got y \<longrightarrow> y = map_sum id Some r)
    | Err e \<Rightarrow> \<not> patient)"
  using race_reach_inv [OF assms] by (cases x) (auto simp: race_inv_def)

lemma race_reach_coro:
  "race_reach patient r (Ok s) \<Longrightarrow> \<nexists>c. rc_coro s = AtRest c \<Longrightarrow> race_reach patient r (coro_step s)"
  by (rule race_reach.race_next [OF _ race_step.coro])

text \<open>The schedule of the race: the owner gets its result between the mark and the notification.\<close>

definition race_marked :: "nat \<Rightarrow> (nat, nat) race" where
  "race_marked v = \<lparr>rc_frame = Some \<lparr>pr_value = Full v, pr_exception = None, pr_done = True, pr_continuation = None\<rparr>,
     rc_coro = AtNotify, rc_owner = InGet\<rparr>"

definition race_got :: "nat \<Rightarrow> (nat, nat) race" where
  "race_got v = \<lparr>rc_frame = Some \<lparr>pr_value = MovedFrom, pr_exception = None, pr_done = True, pr_continuation = None\<rparr>,
     rc_coro = AtNotify, rc_owner = Got (Ok (Some v))\<rparr>"

lemma race_marked_reach: "race_reach patient (Ok v) (Ok (race_marked v))"
proof -
  have "race_reach patient (Ok v) (coro_step (race_start (Ok v)))"
    by (rule race_reach_coro [OF race_reach.race_init]) (simp add: race_start_def)
  then have "race_reach patient (Ok v) (Ok \<lparr>rc_frame = Some (return_value v new_promise), rc_coro = AtMark, rc_owner = InGet\<rparr>)"
    by (simp add: coro_step_def race_start_def store_outcome_def)
  from race_reach_coro [OF this] show ?thesis
    by (simp add: coro_step_def final_mark_def return_value_def new_promise_def race_marked_def)
qed

lemma race_got_reach: "race_reach patient (Ok v) (Ok (race_got v))"
proof -
  have "race_step patient (race_marked v) (Ok (race_got v))"
    using race_step.get [of "race_marked v" "the (rc_frame (race_marked v))" "Ok (Some v)" "the (rc_frame (race_got v))" patient]
    by (simp add: race_marked_def race_got_def Task_Get_def take_result_def)
  from race_reach.race_next [OF race_marked_reach this] show ?thesis .
qed

theorem Task_Get_delivers_witness:
  "rc_owner (race_got 7) = Got (map_sum id Some (Ok 7))"
  using Task_Get_delivers [OF race_got_reach [of True 7]] by (simp add: race_got_def)

text \<open>
  C35. Dropping a task right after \<open>Get\<close> races with the end of its coroutine: once \<open>done\<close> is set and
  the mutex released, the owner may return from \<open>Get\<close> and destroy the frame before the final
  awaiter notifies the condition variable, which is a member of that frame.
\<close>

theorem Task_Get_then_drop_races:
  "\<exists>s. race_reach False (Ok (v :: nat)) (Ok (s :: (nat, nat) race)) \<and> rc_owner s = Dropped (Ok (Some v)) \<and>
     rc_coro s = AtNotify \<and> coro_step s = Err DeadFrame"
proof -
  let ?s = "(race_got v)\<lparr>rc_frame := None, rc_owner := Dropped (Ok (Some v))\<rparr>"
  have "race_step False (race_got v) (Ok ?s)"
    by (rule race_step.drop) (simp_all add: race_got_def)
  from race_reach.race_next [OF race_got_reach this] show ?thesis
    by (intro exI [of _ ?s]) (simp add: race_got_def coro_step_def)
qed

end
