(* ===== verification/RuntimeLoop.thy ===== *)
theory RuntimeLoop
  imports AsyncRuntime Task
begin

text \<open>
  The life of the coroutine runtime: awaiters, the functions of the reactor that make them, the
  constructor, the loop of its thread, the wake-up through an eventfd, and the destructor
  (\<open>src/src/async_runtime.cc\<close>, \<open>src/src/reactor.cc\<close>).

  The loop thread reads \<open>running_\<close> once per turn; \<open>Run\<close> takes, for every turn, what it reads and the
  clock at the check of the deadlines. The eventfd is its counter, here \<open>rl_wakes\<close>.
\<close>

section \<open>Awaiters\<close>

record FdAwaiter =
  fa_fd :: int
  fa_events :: u32
  fa_timeout :: int
  fa_state :: nat

definition FdAwaiter_new :: "int \<Rightarrow> u32 \<Rightarrow> int \<Rightarrow> 'w runtime \<Rightarrow> FdAwaiter \<times> 'w runtime" where
  "FdAwaiter_new fd events timeout s =
     (case WaitFor s of (i, s1) \<Rightarrow> (\<lparr>fa_fd = fd, fa_events = events, fa_timeout = timeout, fa_state = i\<rparr>, s1))"

definition FdAwaiter_await_ready :: "FdAwaiter \<Rightarrow> bool" where
  "FdAwaiter_await_ready a = False"

definition FdAwaiter_await_suspend :: "int \<Rightarrow> FdAwaiter \<Rightarrow> 'w runtime \<Rightarrow> 'w runtime" where
  "FdAwaiter_await_suspend now a s = await_suspend now (fa_fd a) (fa_events a) (fa_timeout a) (fa_state a) s"

definition WaitReadable :: "int \<Rightarrow> int \<Rightarrow> 'w runtime \<Rightarrow> FdAwaiter \<times> 'w runtime" where
  "WaitReadable fd timeout s = FdAwaiter_new fd EPOLLIN timeout s"

definition WaitWritable :: "int \<Rightarrow> int \<Rightarrow> 'w runtime \<Rightarrow> FdAwaiter \<times> 'w runtime" where
  "WaitWritable fd timeout s = FdAwaiter_new fd EPOLLOUT timeout s"

section \<open>The thread\<close>

record 'w loop_sys = "'w rt_sys" +
  ls_epoll_create1 :: "'w \<Rightarrow> (errno + int) \<times> 'w"
  ls_eventfd :: "'w \<Rightarrow> (errno + int) \<times> 'w"
  ls_add_wake :: "int \<Rightarrow> int \<Rightarrow> 'w \<Rightarrow> (errno + unit) \<times> 'w"
  ls_close :: "int \<Rightarrow> 'w \<Rightarrow> 'w"

record 'w rt_loop =
  rl_runtime :: "'w runtime"
  rl_epoll_fd :: int
  rl_wake_fd :: int
  rl_running :: bool
  rl_joinable :: bool
  rl_wakes :: nat

abbreviation on_runtime :: "('w runtime \<Rightarrow> 'w runtime) \<Rightarrow> 'w rt_loop \<Rightarrow> 'w rt_loop" where
  "on_runtime f l \<equiv> l\<lparr>rl_runtime := f (rl_runtime l)\<rparr>"

definition fd_or_neg :: "errno + int \<Rightarrow> int" where
  "fd_or_neg r = (case r of Ok fd \<Rightarrow> fd | Err _ \<Rightarrow> -1)"

definition AsyncRuntime_ctor :: "('w, 'x) loop_sys_scheme \<Rightarrow> 'w \<Rightarrow> 'w rt_loop" where
  "AsyncRuntime_ctor os w =
     (let (ep, w1) = ls_epoll_create1 os w; (wake, w2) = ls_eventfd os w1;
          l = \<lparr>rl_runtime = AsyncRuntime_new w2, rl_epoll_fd = fd_or_neg ep, rl_wake_fd = fd_or_neg wake, rl_running = True,
            rl_joinable = False, rl_wakes = 0\<rparr>
      in if rl_epoll_fd l < 0 \<or> rl_wake_fd l < 0 then l\<lparr>rl_running := False\<rparr>
         else
           let (added, w3) = ls_add_wake os (rl_epoll_fd l) (rl_wake_fd l) w2;
               l1 = on_runtime (\<lambda>s. s\<lparr>rt_world := w3\<rparr>) l
           in case added of
                Err _ \<Rightarrow> l1\<lparr>rl_running := False\<rparr>
              | Ok _ \<Rightarrow> l1\<lparr>rl_joinable := True\<rparr>)"

definition WakeLoop :: "'w rt_loop \<Rightarrow> 'w rt_loop" where
  "WakeLoop l = (if rl_wake_fd l < 0 then l else l\<lparr>rl_wakes := rl_wakes l + 1\<rparr>)"

definition Enqueue_wakes :: "WaitRegistration \<Rightarrow> 'w rt_loop \<Rightarrow> 'w rt_loop" where
  "Enqueue_wakes r l = WakeLoop (on_runtime (Enqueue r) l)"

text \<open>The loop: \<open>turns\<close> lists, for each turn, the value of \<open>running_\<close> and the time.\<close>

fun Run_loop :: "'w rt_sys \<Rightarrow> (bool \<times> int) list \<Rightarrow> 'w runtime \<Rightarrow> 'w runtime" where
  "Run_loop os [] s = s"
| "Run_loop os ((running, now) # turns) s = (if \<not> running then s else Run_loop os turns (Run_turn os now s))"

text \<open>The destructor stops the loop, wakes it, joins the thread and closes both descriptors.\<close>

definition AsyncRuntime_destroy :: "('w, 'x) loop_sys_scheme \<Rightarrow> (bool \<times> int) list \<Rightarrow> 'w rt_loop \<Rightarrow> 'w rt_loop" where
  "AsyncRuntime_destroy os turns l =
     (let l1 = WakeLoop (l\<lparr>rl_running := False\<rparr>);
          l2 = (if rl_joinable l1 then on_runtime (Run_loop (rt_sys.truncate os) turns) l1 else l1);
          close = (\<lambda>fd l. if 0 \<le> fd then on_runtime (\<lambda>s. s\<lparr>rt_world := ls_close os fd (rt_world s)\<rparr>) l else l)
      in close (rl_epoll_fd l2) (close (rl_wake_fd l2) l2))"

section \<open>Deadlines\<close>

text \<open>The waits that are not over, and that each is known by its state.\<close>

definition open_waits :: "'w runtime \<Rightarrow> WaitRegistration set" where
  "open_waits s = set (waiting [] s) \<union> snd ` set (rt_registrations s)"

lemma open_waits_ok: "rt_inv [] s \<Longrightarrow> r \<in> open_waits s \<Longrightarrow> wait_ok s r"
  by (auto simp: rt_inv_def open_waits_def)

lemma open_waits_token:
  assumes inv: "rt_inv [] s" and r: "r \<in> open_waits s" and q: "q \<in> open_waits s" and token: "wr_token r = wr_token q"
  shows "r = q"
proof -
  have d: "distinct (map wr_token (waiting [] s))" and u: "umap_ok (rt_registrations s)"
    using inv by (simp_all add: rt_inv_def)
  have k: "t = wr_token x" "wr_token x \<notin> wr_token ` set (waiting [] s)" if "(t, x) \<in> set (rt_registrations s)" for t x
    using inv that by (auto simp: rt_inv_def)
  show ?thesis
  proof (cases "r \<in> set (waiting [] s)")
    case True
    have "q \<in> set (waiting [] s)"
    proof (rule ccontr)
      assume "q \<notin> set (waiting [] s)"
      then obtain t where "(t, q) \<in> set (rt_registrations s)" using q by (auto simp: open_waits_def)
      from k(2) [OF this] True token show False by (metis imageI)
    qed
    with True d token show ?thesis by (metis (no_types) distinct_map inj_onD)
  next
    case False
    then obtain t where t: "(t, r) \<in> set (rt_registrations s)" using r by (auto simp: open_waits_def)
    have "q \<notin> set (waiting [] s)" using k(2) [OF t] token by (metis imageI)
    then obtain t' where t': "(t', q) \<in> set (rt_registrations s)" using q by (auto simp: open_waits_def)
    from k(1) [OF t] k(1) [OF t'] token have "t = t'" by simp
    with t t' u show ?thesis by (metis umap_ok_def map_of_is_SomeI option.inject)
  qed
qed

lemma open_waits_unique:
  assumes inv: "rt_inv [] s" and r: "r \<in> open_waits s" and q: "q \<in> open_waits s" and same: "wr_state r = wr_state q"
  shows "r = q"
  using open_waits_ok [OF inv r] open_waits_ok [OF inv q] same
  by (intro open_waits_token [OF inv r q]) (simp add: wait_ok_def)

lemma ResumeReady_waits [simp]:
  "rt_pending (ResumeReady r to s) = rt_pending s" "rt_grabbed (ResumeReady r to s) = rt_grabbed s"
  "rt_registrations (ResumeReady r to s) = rt_registrations s"
  by (simp_all add: ResumeReady_def finish_state_def Let_def)

lemma register_one_waits:
  "rt_pending (register_one os r s) = rt_pending s" "rt_grabbed (register_one os r s) = rt_grabbed s"
  "snd ` set (rt_registrations (register_one os r s)) \<subseteq> insert r (snd ` set (rt_registrations s))"
proof -
  have put: "snd ` set (umap_put k v m) \<subseteq> insert v (snd ` set m)" for k v and m :: "(u64, WaitRegistration) umap"
    by (induction m) auto
  show "rt_pending (register_one os r s) = rt_pending s" "rt_grabbed (register_one os r s) = rt_grabbed s"
    "snd ` set (rt_registrations (register_one os r s)) \<subseteq> insert r (snd ` set (rt_registrations s))"
    using put by (auto simp: register_one_def Let_def split: prod.splits sum.splits)
qed

lemma register_next_queues [simp]:
  "rt_pending (register_next os s) = rt_pending s" "rt_grabbed (register_next os s) = tl (rt_grabbed s)"
  by (cases "rt_grabbed s"; simp add: register_next_def register_one_waits)+

lemma open_waits_register_next: "open_waits (register_next os s) \<subseteq> open_waits s"
proof (cases "rt_grabbed s")
  case (Cons r rs)
  then show ?thesis
    using register_one_waits(3) [of os r "s\<lparr>rt_grabbed := rs\<rparr>"]
    by (auto simp: register_next_def open_waits_def waiting_def register_one_waits)
qed (simp add: register_next_def)

lemma RegisterPending_waits:
  assumes "rt_inv [] s" and "kept [] s"
  shows "rt_pending (RegisterPending os s) = []" "rt_grabbed (RegisterPending os s) = []"
    "open_waits (RegisterPending os s) \<subseteq> open_waits s" "kept [] (RegisterPending os s)"
proof -
  let ?g = "grab_pending s"
  have step: "rt_pending ((register_next os ^^ n) t) = [] \<and> rt_grabbed ((register_next os ^^ n) t) = drop n (rt_grabbed t) \<and>
      open_waits ((register_next os ^^ n) t) \<subseteq> open_waits t \<and> rt_inv [] ((register_next os ^^ n) t) \<and> kept [] ((register_next os ^^ n) t)"
    if "rt_pending t = []" "rt_inv [] t" "kept [] t" for n and t :: "'a runtime"
  proof (induction n)
    case (Suc n)
    let ?t = "(register_next os ^^ n) t"
    have "rt_pending (register_next os ?t) = []" "rt_grabbed (register_next os ?t) = drop (Suc n) (rt_grabbed t)"
      using Suc by (simp_all add: drop_Suc tl_drop)
    moreover have "open_waits (register_next os ?t) \<subseteq> open_waits t"
      using Suc open_waits_register_next [of os ?t] by (meson subset_trans)
    ultimately show ?case
      using Suc rt_inv_register_next [of ?t os] kept_register_next [of ?t os] by simp
  qed (use that in simp)
  have "open_waits ?g = open_waits s" by (auto simp: open_waits_def waiting_def grab_pending_def)
  moreover have "kept [] ?g"
    by (rule kept_mono [OF assms(2)]) (auto simp: grab_pending_def held_waits_def waiting_def)
  moreover have "rt_pending ?g = []" by (simp add: grab_pending_def)
  ultimately show "rt_pending (RegisterPending os s) = []" "rt_grabbed (RegisterPending os s) = []"
    "open_waits (RegisterPending os s) \<subseteq> open_waits s" "kept [] (RegisterPending os s)"
    using step [of ?g "length (rt_grabbed ?g)"] rt_inv_grab [OF assms(1)] by (simp_all add: RegisterPending_def Let_def)
qed

text \<open>What holds of the loop thread between the steps of a turn.\<close>

definition turn_inv :: "WaitRegistration set \<Rightarrow> 'w runtime \<Rightarrow> bool" where
  "turn_inv W s \<longleftrightarrow> rt_inv [] s \<and> kept [] s \<and> rt_pending s = [] \<and> rt_grabbed s = [] \<and> open_waits s \<subseteq> W"

lemma turn_inv_world: "turn_inv W (s\<lparr>rt_world := w\<rparr>) = turn_inv W s"
  by (simp add: turn_inv_def rt_inv_def kept_def held_waits_def open_waits_def waiting_def wait_ok_def resumed_ok_def)

lemma turn_inv_handle_token:
  assumes "turn_inv W s"
  shows "turn_inv W (handle_token os token s)"
proof (cases "token = 0")
  case True
  with assms RegisterPending_waits [of s os] rt_inv_RegisterPending [of s os] show ?thesis
    by (auto simp: turn_inv_def handle_token_def)
next
  case False
  have "set (umap_erase token m) \<subseteq> set m" for m :: "(u64, WaitRegistration) umap" by (induction m) auto
  then have "open_waits (handle_token os token s) \<subseteq> open_waits s"
    using False by (fastforce simp: handle_token_def open_waits_def waiting_def split: option.splits)
  moreover have "rt_pending (handle_token os token s) = rt_pending s" "rt_grabbed (handle_token os token s) = rt_grabbed s"
    using False by (simp_all add: handle_token_def split: option.splits)
  ultimately show ?thesis
    using assms False rt_inv_handle_token [of s os token] kept_handle_token [of s token os] by (auto simp: turn_inv_def)
qed

lemma turn_inv_fold: "turn_inv W s \<Longrightarrow> turn_inv W (fold (handle_token os) tokens s)"
  by (induction tokens arbitrary: s) (simp_all add: turn_inv_handle_token)

lemma fold_resume_queues:
  "rt_pending (fold (\<lambda>(_, r). ResumeReady r to) exs s) = rt_pending s"
  "rt_grabbed (fold (\<lambda>(_, r). ResumeReady r to) exs s) = rt_grabbed s"
  by (induction exs arbitrary: s) (simp_all add: case_prod_beta)

lemma ExpireTimedOut_waits:
  "rt_pending (ExpireTimedOut os now s) = rt_pending s" "rt_grabbed (ExpireTimedOut os now s) = rt_grabbed s"
  "rt_registrations (ExpireTimedOut os now s) = filter (\<lambda>(_, r). now < wr_deadline r) (rt_registrations s)"
  by (simp_all add: ExpireTimedOut_def Let_def fold_resume_queues fold_ResumeReady not_le)

text \<open>
  Deadlines are kept within a turn: after a turn of the loop that checked the clock at
  \<open>now\<close>, every wait that is not over was among the open waits before the turn, is registered
  and has a deadline later than \<open>now\<close>; each of the others was ended, by its event, by its
  deadline, by cancellation or because it could not be registered.
\<close>

lemma Run_turn_deadlines:
  assumes reach: "rt_reachable os w0 s" and ready: "rts_epoll_wait os (rt_world (RegisterPending os s)) = (Ok tokens, w)"
    and i: "i < length (rt_states (Run_turn os now s))" and busy: "\<not> ws_completed (rt_states (Run_turn os now s) ! i)"
  shows "\<exists>r. r \<in> open_waits s \<and> wr_state r = i \<and> now < wr_deadline r \<and>
    umap_find (rt_registrations (Run_turn os now s)) (wr_token r) = Some r"
proof -
  let ?s1 = "fold (handle_token os) tokens ((RegisterPending os s)\<lparr>rt_world := w\<rparr>)"
  have turn: "Run_turn os now s = ExpireTimedOut os now ?s1" using ready by (simp add: Run_turn_def Let_def)
  have inv: "rt_inv [] s" "kept [] s" using rt_inv_reachable [OF reach] kept_reachable [OF reach] by simp_all
  have "turn_inv (open_waits s) (RegisterPending os s)"
    using RegisterPending_waits [OF inv, of os] rt_inv_RegisterPending [OF inv(1), of os] by (simp add: turn_inv_def)
  then have s1: "turn_inv (open_waits s) ?s1" by (intro turn_inv_fold) (simp add: turn_inv_world)
  let ?s2 = "ExpireTimedOut os now ?s1"
  have s2: "rt_inv [] ?s2" "kept [] ?s2" "rt_pending ?s2 = []" "rt_grabbed ?s2 = []"
    using s1 rt_inv_ExpireTimedOut [of ?s1 os now] kept_ExpireTimedOut [of ?s1 os now]
    by (simp_all add: turn_inv_def ExpireTimedOut_waits)
  then obtain t r where r: "(t, r) \<in> set (rt_registrations ?s2)" "wr_state r = i"
    using i busy unfolding turn by (fastforce simp: kept_def held_waits_def waiting_def)
  have "t = wr_token r" "umap_ok (rt_registrations ?s2)" using s2(1) r(1) by (auto simp: rt_inv_def)
  then have find: "umap_find (rt_registrations ?s2) (wr_token r) = Some r" using r(1) by (simp add: umap_ok_def)
  from r(1) have "now < wr_deadline r" "r \<in> open_waits ?s1" by (force simp: ExpireTimedOut_waits open_waits_def)+
  with s1 find r(2) show ?thesis unfolding turn by (auto simp: turn_inv_def)
qed

section \<open>Awaiting a suspended task\<close>

text \<open>A wait is marked as timed out only together with its completion.\<close>

definition untimed :: "'w runtime \<Rightarrow> bool" where
  "untimed s \<longleftrightarrow> (\<forall>ws \<in> set (rt_states s). ws_timed_out ws \<longrightarrow> ws_completed ws)"

lemma untimed_fields [simp]:
  "untimed (s\<lparr>rt_world := w\<rparr>) = untimed s" "untimed (s\<lparr>rt_pending := q\<rparr>) = untimed s"
  "untimed (s\<lparr>rt_grabbed := q\<rparr>) = untimed s" "untimed (s\<lparr>rt_registrations := m\<rparr>) = untimed s"
  "untimed (s\<lparr>rt_next_token := t\<rparr>) = untimed s" "untimed (s\<lparr>rt_resumed := l\<rparr>) = untimed s"
  by (simp_all add: untimed_def)

lemma untimed_set:
  assumes "untimed s" and "i < length (rt_states s) \<Longrightarrow> ws_timed_out ws \<Longrightarrow> ws_completed ws"
  shows "untimed (set_state i ws s)"
proof (cases "i < length (rt_states s)")
  case True
  with assms show ?thesis using set_update_subset_insert [of "rt_states s" i ws] by (auto simp: untimed_def)
qed (use assms in \<open>simp add: untimed_def list_update_beyond\<close>)

lemma untimed_nth: "untimed s \<Longrightarrow> i < length (rt_states s) \<Longrightarrow> ws_timed_out (rt_states s ! i) \<Longrightarrow> ws_completed (rt_states s ! i)"
  by (auto simp: untimed_def)

lemma untimed_finish: "untimed s \<Longrightarrow> untimed (finish_state i s)"
  unfolding finish_state_def by (rule untimed_set) simp_all

lemma untimed_ResumeReady: "untimed s \<Longrightarrow> untimed (ResumeReady r to s)"
proof (cases "ws_cancelled (rt_states s ! wr_state r)")
  case False
  assume "untimed s"
  then have "untimed (set_state (wr_state r) ((rt_states s ! wr_state r)\<lparr>ws_timed_out := to, ws_completed := True, ws_token := 0\<rparr>) s)"
    by (rule untimed_set) simp
  then show ?thesis using False by (simp add: ResumeReady_def Let_def)
qed (simp add: ResumeReady_def untimed_finish)

lemma untimed_fold: "untimed s \<Longrightarrow> (\<And>x s. untimed s \<Longrightarrow> untimed (f x s)) \<Longrightarrow> untimed (fold f xs s)"
  by (induction xs arbitrary: s) simp_all

lemma untimed_register_one: "untimed s \<Longrightarrow> untimed (register_one os r s)"
  by (auto simp: register_one_def Let_def untimed_ResumeReady split: prod.splits sum.splits)

lemma untimed_register_next: "untimed s \<Longrightarrow> untimed (register_next os s)"
  by (auto simp: register_next_def untimed_register_one split: list.splits)

lemma untimed_Cancel: "untimed s \<Longrightarrow> untimed (Cancel os token s)"
  by (auto simp: Cancel_def Let_def untimed_finish untimed_fold split: option.splits)

lemma untimed_drop: "untimed s \<Longrightarrow> untimed (FdAwaiter_destroy os i s)"
proof -
  assume "untimed s"
  then have "untimed (set_state i ((rt_states s ! i)\<lparr>ws_cancelled := True\<rparr>) s)"
    by (rule untimed_set) (simp add: untimed_nth [OF \<open>untimed s\<close>])
  then show ?thesis by (simp add: FdAwaiter_destroy_def Let_def untimed_Cancel)
qed

lemma untimed_wait:
  assumes "WaitFor s = (i, s1)" and "untimed s"
  shows "untimed (await_suspend now fd events timeout i s1)"
proof -
  from assms have s1: "untimed s1" by (auto simp: WaitFor_def untimed_def new_wait_state_def)
  have "untimed (set_state i ((rt_states s1 ! i)\<lparr>ws_token := rt_next_token s1\<rparr>) s1)"
    by (rule untimed_set [OF s1]) (simp add: untimed_nth [OF s1])
  then show ?thesis by (simp add: await_suspend_def Enqueue_def Let_def untimed_def)
qed

lemma untimed_step: "rt_step os s s' \<Longrightarrow> untimed s \<Longrightarrow> untimed s'"
proof (induction rule: rt_step.induct)
  case (wait s i s1 now fd events timeout)
  then show ?case by (intro untimed_wait)
next
  case (event token s)
  then show ?case by (auto simp: handle_token_def untimed_ResumeReady split: option.splits)
next
  case (expire s now)
  then show ?case by (auto simp: ExpireTimedOut_def Let_def untimed_ResumeReady intro!: untimed_fold)
qed (simp_all add: untimed_drop untimed_register_next grab_pending_def)

lemma untimed_reachable: "rt_reachable os w0 s \<Longrightarrow> untimed s"
proof (induction rule: rt_reachable.induct)
  case init
  show ?case by (simp add: untimed_def AsyncRuntime_new_def)
next
  case (step s s')
  then show ?case by (intro untimed_step [OF step.hyps(2)])
qed



section \<open>A runtime without its thread\<close>

text \<open>
  All interleavings of the callers with the loop thread, which exists only if the constructor
  started it. A wait is started by \<open>FdAwaiter::await_suspend\<close>, which queues it and wakes the loop.
\<close>

definition wait_on :: "int \<Rightarrow> FdAwaiter \<Rightarrow> 'w rt_loop \<Rightarrow> 'w rt_loop" where
  "wait_on now a l =
     Enqueue_wakes \<lparr>wr_fd = fa_fd a, wr_events = fa_events a, wr_deadline = now + fa_timeout a, wr_state = fa_state a, wr_token = 0\<rparr> l"

lemma wait_on_runtime: "rl_runtime (wait_on now a l) = FdAwaiter_await_suspend now a (rl_runtime l)"
  by (simp add: wait_on_def Enqueue_wakes_def WakeLoop_def FdAwaiter_await_suspend_def await_suspend_def)

lemma wait_on_thread: "rl_joinable (wait_on now a l) = rl_joinable l"
  by (simp add: wait_on_def Enqueue_wakes_def WakeLoop_def)

inductive life_step :: "('w, 'x) loop_sys_scheme \<Rightarrow> 'w rt_loop \<Rightarrow> 'w rt_loop \<Rightarrow> bool" for os where
  caller_waits: "rt_next_token (rl_runtime l) \<noteq> 0 \<Longrightarrow> FdAwaiter_new fd events timeout (rl_runtime l) = (a, s) \<Longrightarrow>
    life_step os l (wait_on now a (l\<lparr>rl_runtime := s\<rparr>))"
| caller_drops: "i < length (rt_states (rl_runtime l)) \<Longrightarrow>
    life_step os l (on_runtime (FdAwaiter_destroy (rt_sys.truncate os) i) l)"
| thread_turns: "rl_joinable l \<Longrightarrow> life_step os l (on_runtime (Run_turn (rt_sys.truncate os) now) l)"

text \<open>
  A turn of the loop is a sequence of steps of the machine of \<open>AsyncRuntime\<close>, so that its guarantees
  hold of the runtime throughout its life.
\<close>

lemma register_next_steps: "(rt_step os)\<^sup>*\<^sup>* s ((register_next os ^^ n) s)"
  by (induction n) (auto intro: rtranclp.rtrancl_into_rtrancl rt_step.register)

lemma RegisterPending_steps: "(rt_step os)\<^sup>*\<^sup>* s (RegisterPending os s)"
  unfolding RegisterPending_def Let_def
  by (rule converse_rtranclp_into_rtranclp [OF rt_step.grab register_next_steps])

lemma handle_token_steps: "(rt_step os)\<^sup>*\<^sup>* s (handle_token os token s)"
proof (cases "token = 0")
  case True
  then show ?thesis by (simp add: handle_token_def RegisterPending_steps)
qed (blast intro: rt_step.event)

lemma handle_tokens_steps: "(rt_step os)\<^sup>*\<^sup>* s (fold (handle_token os) tokens s)"
proof (induction tokens arbitrary: s)
  case (Cons t ts)
  show ?case using rtranclp_trans [OF handle_token_steps Cons.IH] by simp
qed simp

lemma Run_turn_steps: "(rt_step os)\<^sup>*\<^sup>* s (Run_turn os now s)"
proof -
  let ?s1 = "RegisterPending os s"
  obtain r w where w: "rts_epoll_wait os (rt_world ?s1) = (r, w)" by fastforce
  have polled: "(rt_step os)\<^sup>*\<^sup>* s (?s1\<lparr>rt_world := w\<rparr>)"
    by (rule rtranclp.rtrancl_into_rtrancl [OF RegisterPending_steps rt_step.poll])
  show ?thesis
  proof (cases r)
    case (Inl e)
    with w polled show ?thesis by (simp add: Run_turn_def Let_def)
  next
    case (Inr tokens)
    have "(rt_step os)\<^sup>*\<^sup>* s (ExpireTimedOut os now (fold (handle_token os) tokens (?s1\<lparr>rt_world := w\<rparr>)))"
      by (rule rtranclp.rtrancl_into_rtrancl [OF rtranclp_trans [OF polled handle_tokens_steps] rt_step.expire])
    with w Inr show ?thesis by (simp add: Run_turn_def Let_def)
  qed
qed

lemma Run_loop_steps: "(rt_step os)\<^sup>*\<^sup>* s (Run_loop os turns s)"
proof (induction os turns s rule: Run_loop.induct)
  case (2 os running now turns s)
  then show ?case using rtranclp_trans [OF Run_turn_steps] by (cases running) auto
qed simp

lemma rt_reachable_steps: "rt_reachable os w0 s \<Longrightarrow> (rt_step os)\<^sup>*\<^sup>* s s' \<Longrightarrow> rt_reachable os w0 s'"
  by (rotate_tac, induction rule: rtranclp_induct) (auto intro: rt_reachable.step)

lemma life_step_steps: "life_step os l l' \<Longrightarrow> (rt_step (rt_sys.truncate os))\<^sup>*\<^sup>* (rl_runtime l) (rl_runtime l')"
proof (induction rule: life_step.induct)
  case (caller_waits l fd events timeout a s now)
  from caller_waits(2) have "WaitFor (rl_runtime l) = (fa_state a, s)"
    by (auto simp: FdAwaiter_new_def split: prod.splits)
  from rt_step.wait [OF caller_waits(1) this] show ?case
    by (auto simp: wait_on_runtime FdAwaiter_await_suspend_def)
next
  case (caller_drops i l)
  then show ?case by (auto intro: rt_step.drop)
next
  case (thread_turns l now)
  show ?case by (simp add: Run_turn_steps)
qed

lemma life_reachable:
  assumes "(life_step os)\<^sup>*\<^sup>* (AsyncRuntime_ctor os w) l"
  shows "\<exists>w0. rt_reachable (rt_sys.truncate os) w0 (rl_runtime l)"
proof -
  obtain w0 w1 where start: "rl_runtime (AsyncRuntime_ctor os w) = (AsyncRuntime_new w0)\<lparr>rt_world := w1\<rparr>"
  proof
    let ?l = "AsyncRuntime_ctor os w"
    show "rl_runtime ?l = (AsyncRuntime_new w)\<lparr>rt_world := rt_world (rl_runtime ?l)\<rparr>"
      by (auto simp: AsyncRuntime_ctor_def AsyncRuntime_new_def Let_def split: prod.splits sum.splits)
  qed
  have "(rt_step (rt_sys.truncate os))\<^sup>*\<^sup>* (rl_runtime (AsyncRuntime_ctor os w)) (rl_runtime l)"
    using assms by (induction rule: rtranclp_induct) (auto dest: life_step_steps intro: rtranclp_trans)
  with start show ?thesis
    using rt_reachable_steps [OF rt_reachable.step [OF rt_reachable.init rt_step.poll]] by metis
qed

lemma AsyncRuntime_destroy_steps:
  "(rt_step (rt_sys.truncate os))\<^sup>*\<^sup>* (rl_runtime l) (rl_runtime (AsyncRuntime_destroy os turns l))"
proof -
  let ?run = "if rl_joinable l then Run_loop (rt_sys.truncate os) turns (rl_runtime l) else rl_runtime l"
  have "(rt_step (rt_sys.truncate os))\<^sup>*\<^sup>* (rl_runtime l) ?run" by (simp add: Run_loop_steps)
  moreover have "rl_runtime (AsyncRuntime_destroy os turns l) =
      ?run\<lparr>rt_world := rt_world (rl_runtime (AsyncRuntime_destroy os turns l))\<rparr>"
    by (simp add: AsyncRuntime_destroy_def WakeLoop_def Let_def)
  ultimately show ?thesis by (metis rt_step.poll rtranclp.rtrancl_into_rtrancl)
qed

lemma destroyed_reachable:
  assumes "(life_step os)\<^sup>*\<^sup>* (AsyncRuntime_ctor os w) l"
  shows "\<exists>w0. rt_reachable (rt_sys.truncate os) w0 (rl_runtime (AsyncRuntime_destroy os turns l))"
proof -
  obtain w0 where "rt_reachable (rt_sys.truncate os) w0 (rl_runtime l)" using life_reachable [OF assms] ..
  then have "rt_reachable (rt_sys.truncate os) w0 (rl_runtime (AsyncRuntime_destroy os turns l))"
    by (rule rt_reachable_steps [OF _ AsyncRuntime_destroy_steps])
  then show ?thesis ..
qed

lemma life_step_no_thread:
  "life_step os l l' \<Longrightarrow> \<not> rl_joinable l \<Longrightarrow> rt_resumed (rl_runtime l') = rt_resumed (rl_runtime l) \<and> \<not> rl_joinable l'"
  by (induction rule: life_step.induct)
    (auto simp: wait_on_runtime wait_on_thread drop_resumed FdAwaiter_await_suspend_def await_suspend_def Enqueue_def
      FdAwaiter_new_def WaitFor_def Let_def)

text \<open>
  C39. If a system call of the constructor fails, no coroutine that waits is ever resumed, neither
  by its event nor by its deadline: the runtime has no thread, takes waits as before, and only
  the log says so.
\<close>

theorem failed_runtime_hangs:
  assumes failed: "(\<exists>e w1. ls_epoll_create1 os w = (Err e, w1)) \<or>
      (\<exists>e w1. ls_eventfd os (snd (ls_epoll_create1 os w)) = (Err e, w1)) \<or>
      (\<exists>ep wake w1 w2 e w3. ls_epoll_create1 os w = (Ok ep, w1) \<and> ls_eventfd os w1 = (Ok wake, w2) \<and> ls_add_wake os ep wake w2 = (Err e, w3))"
    and run: "(life_step os)\<^sup>*\<^sup>* (AsyncRuntime_ctor os w) l"
  shows "rt_resumed (rl_runtime l) = []"
proof -
  let ?l = "AsyncRuntime_ctor os w"
  have start: "rt_resumed (rl_runtime ?l) = [] \<and> \<not> rl_joinable ?l"
    using failed by (auto simp: AsyncRuntime_ctor_def fd_or_neg_def AsyncRuntime_new_def Let_def split: prod.splits sum.splits)
  from run have "rt_resumed (rl_runtime l) = [] \<and> \<not> rl_joinable l"
  proof (induction rule: rtranclp_induct)
    case (step l1 l2)
    then show ?case using life_step_no_thread [of os l1 l2] by simp
  qed (rule start)
  then show ?thesis ..
qed

definition full_table :: "unit loop_sys" where
  "full_table = rt_sys.extend demo_epoll
     \<lparr>ls_epoll_create1 = \<lambda>w. (Err (EOTHER 24), w), ls_eventfd = \<lambda>w. (Err (EOTHER 24), w), ls_add_wake = \<lambda>ep fd w. (Ok (), w), ls_close = \<lambda>fd w. w\<rparr>"

theorem failed_runtime_hangs_witness:
  "rt_resumed (rl_runtime (wait_on 0 \<lparr>fa_fd = 5, fa_events = EPOLLIN, fa_timeout = 1000, fa_state = 0\<rparr>
     ((AsyncRuntime_ctor full_table ())\<lparr>rl_runtime := snd (WaitReadable 5 1000 (rl_runtime (AsyncRuntime_ctor full_table ())))\<rparr>))) = []"
proof -
  let ?l = "AsyncRuntime_ctor full_table ()" and ?a = "\<lparr>fa_fd = 5, fa_events = EPOLLIN, fa_timeout = 1000, fa_state = 0\<rparr>"
  have "life_step full_table ?l (wait_on 0 ?a (?l\<lparr>rl_runtime := snd (WaitReadable 5 1000 (rl_runtime ?l))\<rparr>))"
    by (rule life_step.caller_waits [where fd = 5 and events = EPOLLIN and timeout = 1000])
      (simp_all add: WaitReadable_def FdAwaiter_new_def WaitFor_def AsyncRuntime_ctor_def full_table_def rt_sys.defs fd_or_neg_def
        AsyncRuntime_new_def)
  then have "(life_step full_table)\<^sup>*\<^sup>* ?l (wait_on 0 ?a (?l\<lparr>rl_runtime := snd (WaitReadable 5 1000 (rl_runtime ?l))\<rparr>))"
    by (rule r_into_rtranclp)
  from failed_runtime_hangs [OF _ this] show ?thesis by (simp add: full_table_def rt_sys.defs)
qed

end
