(* ===== verification/AsyncIO.thy ===== *)
theory AsyncIO
  imports ClientGuarantees
begin

text \<open>
  The coroutine versions of the client's socket operations (\<open>ConnectToAsync\<close>, \<open>SendAllAsync\<close>,
  \<open>RecvAllAsync\<close>, \<open>ReceiveFrameAsync\<close> and \<open>BorrowConnectionAsync\<close> of \<open>src/src/client_transport.cc\<close>) against the
  blocking ones.

  A coroutine that would block waits and tries again. So it does what the blocking version does
  over the kernel \<open>retry_sys\<close>, in which a call that would block waits instead: if the wait ends with
  its event the call reports an interruption, and otherwise an error. The two differ only in
  the text of the error after a time-out, which \<open>same_result\<close> forgets. Since \<open>retry_sys\<close> keeps the laws of
  the kernel below it, what is known of the blocking operations holds of the coroutines.

  A wait that ends early, as with a task that awaits a suspended task, is a wait that returns
  \<open>True\<close>; the laws do not say that a descriptor is ready then.
\<close>

section \<open>A kernel that waits\<close>

abbreviation ETIMEDOUT :: errno where
  "ETIMEDOUT \<equiv> EOTHER 110"

definition waited ::
  "(int \<Rightarrow> u32 \<Rightarrow> int \<Rightarrow> 'w \<Rightarrow> bool \<times> 'w) \<Rightarrow> int \<Rightarrow> u32 \<Rightarrow> int \<Rightarrow> (errno + 'a) \<times> 'w \<Rightarrow> (errno + 'a) \<times> 'w" where
  "waited await fd events timeout x =
     (case x of
        (Ok y, w) \<Rightarrow> (Ok y, w)
      | (Err e, w) \<Rightarrow>
          if e = EAGAIN
          then (case await fd events timeout w of (ready, w1) \<Rightarrow> (Err (if ready then EINTR else ETIMEDOUT), w1))
          else (Err e, w))"

definition retry_sys :: "'w sys \<Rightarrow> (int \<Rightarrow> u32 \<Rightarrow> int \<Rightarrow> 'w \<Rightarrow> bool \<times> 'w) \<Rightarrow> int \<Rightarrow> 'w sys" where
  "retry_sys os await timeout =
     os\<lparr>sys_recv := \<lambda>fd n w. waited await fd EPOLLIN timeout (sys_recv os fd n w),
        sys_send := \<lambda>fd d w. waited await fd EPOLLOUT timeout (sys_send os fd d w)\<rparr>"

lemma retry_sys_sel [simp]:
  "sys_recv (retry_sys os await timeout) fd n w = waited await fd EPOLLIN timeout (sys_recv os fd n w)"
  "sys_send (retry_sys os await timeout) fd d w = waited await fd EPOLLOUT timeout (sys_send os fd d w)"
  "BuildSystemError (retry_sys os await timeout) = BuildSystemError os"
  by (simp_all add: retry_sys_def BuildSystemError_def fun_eq_iff)

lemma waited_simps [simp]:
  "waited await fd events timeout (Ok y, w) = (Ok y, w)"
  "e \<noteq> EAGAIN \<Longrightarrow> waited await fd events timeout (Err e, w) = (Err e, w)"
  "waited await fd events timeout (Err EAGAIN, w) =
     (case await fd events timeout w of (ready, w1) \<Rightarrow> (Err (if ready then EINTR else ETIMEDOUT), w1))"
  by (simp_all add: waited_def)

section \<open>Waiting and trying again\<close>

fun codes :: "((RpcError + 'a) \<times> 'w) option \<Rightarrow> ((RpcStatusCode + 'a) \<times> 'w) option" where
  "codes None = None"
| "codes (Some (Ok x, w)) = Some (Ok x, w)"
| "codes (Some (Err e, w)) = Some (Err (err_code e), w)"

abbreviation same_answer :: "((RpcError + 'a) \<times> 'w) option \<Rightarrow> ((RpcError + 'a) \<times> 'w) option \<Rightarrow> bool" where
  "same_answer x y \<equiv> codes x = codes y"

lemma codes_eq_None [simp]: "codes x = None \<longleftrightarrow> x = None" "None = codes x \<longleftrightarrow> x = None"
  by (cases x rule: codes.cases; simp)+

lemma recv_async_below:
  assumes "recv_until_async os await timeout fd n got w = Some x"
  shows "same_answer (Some x) (recv_until (retry_sys os await timeout) fd n got w)"
proof -
  define P where "P os' await' timeout' fd' n' got w x \<longleftrightarrow>
      same_answer (Some x) (recv_until (retry_sys os' await' timeout') fd' n' got w)"
    for os' :: "'a sys" and await' timeout' fd' n' got w and x :: "(RpcError + string) \<times> 'a"
  have "P os await timeout fd n got w x"
  proof (rule recv_until_async.raw_induct [where P = P, OF _ assms], goal_cases)
    case (1 f os await timeout fd n got w x)
    note IH = 1(1) [unfolded P_def] and eq = 1(2)
    note unfold = recv_until.simps [of "retry_sys os await timeout" fd n got w]
    show ?case
    proof (cases "length got < n")
      case True
      obtain y w1 where call: "sys_recv os fd (n - length got) w = (y, w1)" by fastforce
      obtain ready w2 where wait: "await fd EPOLLIN timeout w1 = (ready, w2)" by fastforce
      from True eq show ?thesis
        by (cases y) (auto simp: P_def unfold call wait split: if_splits intro: IH)
    qed (use eq in \<open>simp add: P_def unfold\<close>)
  qed
  then show ?thesis by (simp add: P_def)
qed

lemma recv_async_above:
  assumes "recv_until (retry_sys os await timeout) fd n got w = Some x"
  shows "same_answer (recv_until_async os await timeout fd n got w) (Some x)"
proof -
  define P where "P os' fd' n' got w x \<longleftrightarrow>
      (os' = retry_sys os await timeout \<longrightarrow> same_answer (recv_until_async os await timeout fd' n' got w) (Some x))"
    for os' fd' n' got w and x :: "(RpcError + string) \<times> 'a"
  have "P (retry_sys os await timeout) fd n got w x"
  proof (rule recv_until.raw_induct [where P = P, OF _ assms], goal_cases)
    case (1 f os' fd n got w x)
    note IH = 1(1) [unfolded P_def, rule_format, OF _ refl] and eq = 1(2)
    note unfold = recv_until_async.simps [of os await timeout fd n got w]
    show ?case unfolding P_def
    proof
      assume os': "os' = retry_sys os await timeout"
      show "same_answer (recv_until_async os await timeout fd n got w) (Some x)"
      proof (cases "length got < n")
        case True
        obtain y w1 where call: "sys_recv os fd (n - length got) w = (y, w1)" by fastforce
        obtain ready w2 where wait: "await fd EPOLLIN timeout w1 = (ready, w2)" by fastforce
        from True eq os' show ?thesis
          by (cases y) (auto simp: unfold call wait waited_def split: if_splits intro: IH)
      qed (use eq os' in \<open>simp add: unfold\<close>)
    qed
  qed
  then show ?thesis by (simp add: P_def)
qed

lemma send_async_below:
  assumes "send_from_async os await timeout fd data offset w = Some x"
  shows "same_answer (Some x) (send_from (retry_sys os await timeout) fd data offset w)"
proof -
  define P where "P os' await' timeout' fd' data' offset w x \<longleftrightarrow>
      same_answer (Some x) (send_from (retry_sys os' await' timeout') fd' data' offset w)"
    for os' :: "'a sys" and await' timeout' fd' data' offset w and x :: "(RpcError + unit) \<times> 'a"
  have "P os await timeout fd data offset w x"
  proof (rule send_from_async.raw_induct [where P = P, OF _ assms], goal_cases)
    case (1 f os await timeout fd data offset w x)
    note IH = 1(1) [unfolded P_def] and eq = 1(2)
    note unfold = send_from.simps [of "retry_sys os await timeout" fd data offset w]
    show ?case
    proof (cases "offset < length data")
      case True
      obtain y w1 where call: "sys_send os fd (drop offset data) w = (y, w1)" by fastforce
      obtain ready w2 where wait: "await fd EPOLLOUT timeout w1 = (ready, w2)" by fastforce
      from True eq show ?thesis
        by (cases y) (auto simp: P_def unfold call wait split: if_splits intro: IH)
    qed (use eq in \<open>simp add: P_def unfold\<close>)
  qed
  then show ?thesis by (simp add: P_def)
qed

lemma send_async_above:
  assumes "send_from (retry_sys os await timeout) fd data offset w = Some x"
  shows "same_answer (send_from_async os await timeout fd data offset w) (Some x)"
proof -
  define P where "P os' fd' data' offset w x \<longleftrightarrow>
      (os' = retry_sys os await timeout \<longrightarrow> same_answer (send_from_async os await timeout fd' data' offset w) (Some x))"
    for os' fd' data' offset w and x :: "(RpcError + unit) \<times> 'a"
  have "P (retry_sys os await timeout) fd data offset w x"
  proof (rule send_from.raw_induct [where P = P, OF _ assms], goal_cases)
    case (1 f os' fd data offset w x)
    note IH = 1(1) [unfolded P_def, rule_format, OF _ refl] and eq = 1(2)
    note unfold = send_from_async.simps [of os await timeout fd data offset w]
    show ?case unfolding P_def
    proof
      assume os': "os' = retry_sys os await timeout"
      show "same_answer (send_from_async os await timeout fd data offset w) (Some x)"
      proof (cases "offset < length data")
        case True
        obtain y w1 where call: "sys_send os fd (drop offset data) w = (y, w1)" by fastforce
        obtain ready w2 where wait: "await fd EPOLLOUT timeout w1 = (ready, w2)" by fastforce
        from True eq os' show ?thesis
          by (cases y) (auto simp: unfold call wait waited_def split: if_splits intro: IH)
      qed (use eq os' in \<open>simp add: unfold\<close>)
    qed
  qed
  then show ?thesis by (simp add: P_def)
qed

text \<open>Sending and receiving: the coroutine over a kernel is the loop over the kernel that waits.\<close>

lemma same_answerI:
  assumes "\<And>z. x = Some z \<Longrightarrow> same_answer x y" and "\<And>z. y = Some z \<Longrightarrow> same_answer x y"
  shows "same_answer x y"
  using assms by (cases x; cases y) auto

lemma RecvAllAsync_retry: "same_answer (RecvAllAsync os await fd n timeout w) (RecvAll (retry_sys os await timeout) fd n w)"
  unfolding RecvAllAsync_def RecvAll_def
  by (rule same_answerI) (auto dest: recv_async_below recv_async_above)

lemma SendAllAsync_retry: "same_answer (SendAllAsync os await fd data timeout w) (SendAll (retry_sys os await timeout) fd data w)"
  unfolding SendAllAsync_def SendAll_def
  by (rule same_answerI) (auto dest: send_async_below send_async_above)

text \<open>The status codes of a frame received with some operation follow from those of the operation.\<close>

definition receive_frame_codes ::
  "(nat \<Rightarrow> 'w \<Rightarrow> ((RpcStatusCode + string) \<times> 'w) option) \<Rightarrow> 'w \<Rightarrow> ((RpcStatusCode + string) \<times> 'w) option" where
  "receive_frame_codes recv_all w =
     (case recv_all 4 w of
        None \<Rightarrow> None
      | Some (Err e, w1) \<Rightarrow> Some (Err e, w1)
      | Some (Ok pre, w1) \<Rightarrow>
          if unat (un_be32 pre) < 4 \<or> kMaxFrameBodySize < un_be32 pre then Some (Err kInvalidPacket, w1)
          else (case recv_all (unat (un_be32 pre)) w1 of
                  None \<Rightarrow> None
                | Some (Err e, w2) \<Rightarrow> Some (Err e, w2)
                | Some (Ok body, w2) \<Rightarrow> Some (Ok (pre @ body), w2)))"

lemma codes_receive_frame: "codes (receive_frame_with f w) = receive_frame_codes (\<lambda>n w. codes (f n w)) w"
proof (cases "f 4 w" rule: codes.cases)
  case (2 pre w1)
  then show ?thesis
    by (cases "f (unat (un_be32 pre)) w1" rule: codes.cases) (simp_all add: receive_frame_with_def receive_frame_codes_def Let_def)
qed (simp_all add: receive_frame_with_def receive_frame_codes_def)

lemma ReceiveFrameAsync_retry:
  "same_answer (ReceiveFrameAsync os await fd timeout w) (ReceiveFrame (retry_sys os await timeout) fd w)"
  unfolding ReceiveFrameAsync_def ReceiveFrame_def codes_receive_frame
  by (simp only: RecvAllAsync_retry)

section \<open>The laws of the kernel that waits\<close>

text \<open>Waiting changes neither the open descriptors nor the bytes on the connections.\<close>

definition wait_keeps :: "(int \<Rightarrow> u32 \<Rightarrow> int \<Rightarrow> 'w \<Rightarrow> bool \<times> 'w) \<Rightarrow> ('w \<Rightarrow> 'v) \<Rightarrow> bool" where
  "wait_keeps await view \<longleftrightarrow> (\<forall>fd events timeout w. view (snd (await fd events timeout w)) = view w)"

lemma wait_keeps_result: "wait_keeps await view \<Longrightarrow> await fd events timeout w = (b, w') \<Longrightarrow> view w' = view w"
  unfolding wait_keeps_def by (metis snd_conv)

lemma waited_cases:
  obtains (same) "waited await fd events timeout (y, w1) = (y, w1)"
  | (wait) e w2 where "y = Err EAGAIN" "waited await fd events timeout (y, w1) = (Err e, w2)"
      "w2 = snd (await fd events timeout w1)"
proof (cases "y = Err EAGAIN")
  case True
  then show ?thesis using wait by (simp add: case_prod_beta)
next
  case False
  then have "waited await fd events timeout (y, w1) = (y, w1)" by (cases y) simp_all
  then show ?thesis by (rule same)
qed

lemma waited_view:
  assumes "wait_keeps await view"
  shows "view (snd (waited await fd events timeout x)) = view (snd x)"
proof (cases x)
  case (Pair y w1)
  show ?thesis unfolding Pair
  proof (cases rule: waited_cases [of await fd events timeout y w1])
    case (wait e w2)
    then show "view (snd (waited await fd events timeout (y, w1))) = view (snd (y, w1))"
      using assms by (simp only: wait_keeps_def snd_conv)
  qed simp
qed

lemma retry_recv_laws:
  assumes laws: "recv_laws os inbox" and keeps: "wait_keeps await inbox"
  shows "recv_laws (retry_sys os await timeout) inbox"
  unfolding recv_laws_def retry_sys_sel
proof (intro allI)
  fix fd n w
  obtain y w1 where call: "sys_recv os fd n w = (y, w1)" by fastforce
  have reads: "reads_front inbox fd n w (y, w1)" using recv_laws_recv [OF laws, of fd n w] call by simp
  show "reads_front inbox fd n w (waited await fd EPOLLIN timeout (sys_recv os fd n w))"
    unfolding call
  proof (cases rule: waited_cases [of await fd EPOLLIN timeout y w1])
    case same
    with reads show "reads_front inbox fd n w (waited await fd EPOLLIN timeout (y, w1))" by (simp only:)
  next
    case (wait e w2)
    with reads keeps show "reads_front inbox fd n w (waited await fd EPOLLIN timeout (y, w1))"
      by (simp only: wait_keeps_def reads_front.simps)
  qed
qed

lemma retry_send_laws:
  assumes laws: "send_laws os wire" and keeps: "wait_keeps await wire"
  shows "send_laws (retry_sys os await timeout) wire"
proof -
  have "takes_prefix wire fd d w (waited await fd EPOLLOUT timeout (sys_send os fd d w))" for fd d w
  proof -
    obtain y w1 where call: "sys_send os fd d w = (y, w1)" by fastforce
    have takes: "takes_prefix wire fd d w (y, w1)" using send_laws_send [OF laws, of fd d w] call by simp
    show ?thesis unfolding call
    proof (cases rule: waited_cases [of await fd EPOLLOUT timeout y w1])
      case same
      with takes show "takes_prefix wire fd d w (waited await fd EPOLLOUT timeout (y, w1))" by (simp only:)
    next
      case (wait e w2)
      with takes keeps show "takes_prefix wire fd d w (waited await fd EPOLLOUT timeout (y, w1))"
        by (simp only: wait_keeps_def takes_prefix.simps)
    qed
  qed
  moreover have "wire (snd (waited await fd EPOLLIN timeout (sys_recv os fd n w))) = wire w" for fd n w
    by (rule trans [OF waited_view [OF keeps] send_laws_keep(3) [OF laws]])
  ultimately show ?thesis
    using send_laws_keep(1,2) [OF laws] unfolding send_laws_def retry_sys_def by simp
qed

lemma retry_fd_laws:
  assumes laws: "fd_laws os opened" and keeps: "wait_keeps await opened"
  shows "fd_laws (retry_sys os await timeout) opened"
proof -
  have "opened (snd (waited await fd EPOLLIN timeout (sys_recv os fd n w))) = opened w" for fd n w
    by (rule trans [OF waited_view [OF keeps] fd_laws_keep(9) [OF laws]])
  moreover have "opened (snd (waited await fd EPOLLOUT timeout (sys_send os fd d w))) = opened w" for fd d w
    by (rule trans [OF waited_view [OF keeps] fd_laws_keep(10) [OF laws]])
  ultimately show ?thesis using laws unfolding fd_laws_def retry_sys_def by simp
qed

section \<open>Connecting\<close>

text \<open>
  What an attempt may end in, once the socket \<open>fd\<close> was made in world \<open>w\<close>: after each call the open
  descriptors are those of \<open>w\<close> and \<open>fd\<close>, and each way out closes \<open>fd\<close> or hands it over.
\<close>

definition attempt :: "('w \<Rightarrow> int set) \<Rightarrow> 'w \<Rightarrow> (RpcError + int) \<times> 'w \<Rightarrow> bool" where
  "attempt opened w x \<longleftrightarrow>
     creates_fd opened w (map_sum (\<lambda>_. EAGAIN) id (fst x), snd x) \<and>
     (\<forall>err. fst x = Err err \<longrightarrow> err_code err = kNetworkError)"

lemma attempt_shut:
  "fd_laws os opened \<Longrightarrow> fd \<notin> opened w \<Longrightarrow> opened v = insert fd (opened w) \<Longrightarrow> err_code err = kNetworkError \<Longrightarrow>
     attempt opened w (Err err, sys_close os fd v)"
  by (simp add: attempt_def fd_laws_keep)

lemma attempt_won:
  "0 \<le> fd \<Longrightarrow> fd \<notin> opened w \<Longrightarrow> opened v = insert fd (opened w) \<Longrightarrow> attempt opened w (Ok fd, v)"
  by (simp add: attempt_def)

lemma ConfigureSocket_net: "ConfigureSocket os fd opts v = (Err err, v') \<Longrightarrow> err_code err = kNetworkError"
  by (auto simp: ConfigureSocket_def split: prod.splits sum.splits)

lemma ConnectToAsync_attempt:
  assumes laws: "fd_laws os opened" and keeps: "wait_keeps await opened"
  shows "attempt opened w (ConnectToAsync os await endpoint opts w)"
proof -
  obtain x w1 where sock: "sys_socket os w = (x, w1)" by fastforce
  note creates = fd_laws_socket [OF laws, of w, unfolded sock]
  show ?thesis
  proof (cases x)
    case (Inl e)
    with sock creates show ?thesis by (simp add: ConnectToAsync_def attempt_def)
  next
    case made: (Inr fd)
    with creates have fd: "0 \<le> fd" "fd \<notin> opened w" and w1: "opened w1 = insert fd (opened w)" by simp_all
    note shut = attempt_shut [OF laws fd(2)] and won = attempt_won [of fd opened w, OF fd]
    obtain a w2 where getfl: "sys_getfl os fd w1 = (a, w2)" by fastforce
    note w2 = trans [OF fd_laws_results(2) [OF laws getfl] w1]
    show ?thesis
    proof (cases a)
      case (Inl e)
      then show ?thesis by (simp add: ConnectToAsync_def sock made getfl shut w2)
    next
      case flags: (Inr flags)
      obtain b w3 where setfl: "sys_setfl os fd (flags OR O_NONBLOCK) w2 = (b, w3)" by fastforce
      note w3 = trans [OF fd_laws_results(3) [OF laws setfl] w2]
      obtain c w4 where conf: "ConfigureSocket os fd opts w3 = (c, w4)" by fastforce
      note w4 = trans [OF ConfigureSocket_opened [OF laws conf] w3]
      note begun = ConnectToAsync_def Let_def sock made getfl flags setfl conf
      show ?thesis
      proof (cases "\<exists>addr. b = Ok () \<and> c = Ok () \<and> sys_inet_pton os (ep_host endpoint) = Some addr")
        case False
        have net: "err_code err = kNetworkError" if "c = Err err" for err
          by (rule ConfigureSocket_net [OF conf [unfolded that]])
        from False show ?thesis
          by (cases b; cases c; cases "sys_inet_pton os (ep_host endpoint)") (simp_all add: begun shut w3 w4 net)
      next
        case True
        then obtain addr where addr: "sys_inet_pton os (ep_host endpoint) = Some addr" and ok: "b = Ok ()" "c = Ok ()" by auto
        obtain d w5 where con: "sys_connect os fd addr (ep_port endpoint) w4 = (d, w5)" by fastforce
        note w5 = trans [OF fd_laws_results(6) [OF laws con] w4]
        obtain ready w6 where wait: "await fd EPOLLOUT (timeout_ms opts) w5 = (ready, w6)" by fastforce
        note w6 = trans [OF wait_keeps_result [OF keeps wait] w5]
        obtain e w7 where err: "sys_so_error os fd w6 = (e, w7)" by fastforce
        note w7 = trans [OF fd_laws_results(7) [OF laws err] w6]
        consider u where "d = Ok u" | er where "d = Err er" "er \<noteq> EINPROGRESS" | "d = Err EINPROGRESS" "\<not> ready"
          | e' where "d = Err EINPROGRESS" "ready" "e = Err e'" | e' where "d = Err EINPROGRESS" "ready" "e = Ok (Some e')"
          | "d = Err EINPROGRESS" "ready" "e = Ok None"
          by (metis sum.exhaust option.exhaust)
        then show ?thesis
          by cases (simp_all add: begun ok addr con wait err shut won w5 w6 w7)
      qed
    qed
  qed
qed

lemma ConnectToAsync_connects:
  "fd_laws os opened \<Longrightarrow> wait_keeps await opened \<Longrightarrow> connects opened (ConnectToAsync os await endpoint opts)"
  unfolding connects_def using ConnectToAsync_attempt by (metis attempt_def fst_conv snd_conv)

section \<open>A simulated wait\<close>

text \<open>
  On the simulated kernel a wait for bytes to read ends with its event if there is something to
  read, and with a time-out otherwise.
\<close>

definition sim_await :: "int \<Rightarrow> u32 \<Rightarrow> int \<Rightarrow> sim \<Rightarrow> bool \<times> sim" where
  "sim_await fd events timeout w = (events \<noteq> EPOLLIN \<or> sim_recvs w \<noteq> [] \<or> sim_inbox w fd \<noteq> [], w)"

lemma sim_await_keeps: "wait_keeps sim_await view"
  by (simp add: wait_keeps_def sim_await_def)

lemma sim_retry_signals: "signal_laws (retry_sys sim_os sim_await timeout) sim_patience"
  by (auto simp: signal_laws_def sim_os_def sim_send_def sim_put_def sim_recv_def sim_get_def sim_patience_def waited_def
      sim_await_def split: list.split sum.split)

section \<open>What the coroutines guarantee\<close>

text \<open>
  C29. The coroutine versions of sending, receiving and receiving a frame do what the blocking
  versions do over a kernel that waits where a call would block: they return in the same
  cases, with the same value or the same status code, and leave the same world. Only the text
  of the error after a time-out differs.
\<close>

theorem coroutine_io_matches:
  "codes (SendAllAsync os await fd data timeout w) = codes (SendAll (retry_sys os await timeout) fd data w) \<and>
   codes (RecvAllAsync os await fd n timeout w) = codes (RecvAll (retry_sys os await timeout) fd n w) \<and>
   codes (ReceiveFrameAsync os await fd timeout w) = codes (ReceiveFrame (retry_sys os await timeout) fd w)"
  by (simp add: SendAllAsync_retry RecvAllAsync_retry ReceiveFrameAsync_retry)

lemma codes_Some:
  assumes "codes x = codes (Some (r, w))"
  obtains q where "x = Some (q, w)" "map_sum err_code id q = map_sum err_code id r"
proof (cases x rule: codes.cases)
  case 1
  with assms show ?thesis by (cases r) simp_all
next
  case (2 y w1)
  with assms that show ?thesis by (cases r) simp_all
next
  case (3 e w1)
  with assms that show ?thesis by (cases r) simp_all
qed

text \<open>
  C30. \<open>ReceiveFrameAsync\<close> returns if interruptions and waits that end with their event are finitely
  many, on whatever descriptor and however long the waits, leaving the open descriptors as they
  were; it then has taken exactly the first frame off the stream, as the framing of the server
  cuts it, or reports a network error, or an invalid packet if the framing rejects the stream.
\<close>

theorem ReceiveFrameAsync_first_frame:
  assumes laws: "fd_laws os opened" "recv_laws os inbox" and keeps: "wait_keeps await opened" "wait_keeps await inbox"
    and signals: "signal_laws (retry_sys os await timeout) patience"
  shows "\<exists>r w'. ReceiveFrameAsync os await fd timeout w = Some (r, w') \<and> opened w' = opened w \<and>
    (case r of
       Ok f \<Rightarrow> inbox w fd = f @ inbox w' fd \<and> acceptable_frame f \<and>
         cut_frames (inbox w fd) = (let (fs, rest, good) = cut_frames (inbox w' fd) in (f # fs, rest, good))
     | Err err \<Rightarrow> err_code err = kNetworkError \<or>
         err_code err = kInvalidPacket \<and> cut_frames (inbox w fd) = ([], inbox w fd, False))"
proof -
  let ?os = "retry_sys os await timeout"
  note recv = retry_recv_laws [OF laws(2) keeps(2), of timeout]
  obtain q w' where ret: "ReceiveFrame ?os fd w = Some (q, w')" using ReceiveFrame_returns [OF signals] by blast
  from ReceiveFrameAsync_retry [of os await fd timeout w, unfolded ret]
  obtain r where r: "ReceiveFrameAsync os await fd timeout w = Some (r, w')" "map_sum err_code id r = map_sum err_code id q"
    by (rule codes_Some)
  have "opened w' = opened w" by (rule ReceiveFrame_opened [OF retry_fd_laws [OF laws(1) keeps(1)] ret])
  moreover have "case q of
       Ok f \<Rightarrow> inbox w fd = f @ inbox w' fd \<and> acceptable_frame f \<and>
         cut_frames (inbox w fd) = (let (fs, rest, good) = cut_frames (inbox w' fd) in (f # fs, rest, good))
     | Err err \<Rightarrow> err_code err = kNetworkError \<or>
         err_code err = kInvalidPacket \<and> cut_frames (inbox w fd) = ([], inbox w fd, False)"
  proof (cases q)
    case (Inl err)
    then show ?thesis using ReceiveFrame_Err [OF recv] ret by simp
  next
    case (Inr f)
    note ok = ReceiveFrame_Ok [OF recv ret [unfolded Inr]]
    have "inbox w fd = f @ inbox w' fd" by (subst ok(2)) simp
    with ok(1,3) Inr show ?thesis by simp
  qed
  ultimately show ?thesis using r by (cases r; cases q) auto
qed

theorem ReceiveFrameAsync_first_frame_witness:
  "\<exists>r w'. ReceiveFrameAsync sim_os sim_await 3 1000
       ((answered_world waiting_frame)\<lparr>sim_recvs := [Err EAGAIN, Ok 3, Err EINTR, Err EAGAIN]\<rparr>) = Some (r, w') \<and>
     sim_opened w' = {0, 1, 2} \<and>
     (case r of Ok f \<Rightarrow> waiting_frame = f @ sim_inbox w' 3 \<and> acceptable_frame f
      | Err err \<Rightarrow> err_code err = kNetworkError \<or> err_code err = kInvalidPacket)"
proof -
  let ?w = "(answered_world waiting_frame)\<lparr>sim_recvs := [Err EAGAIN, Ok 3, Err EINTR, Err EAGAIN]\<rparr>"
  have "sim_opened ?w = {0, 1, 2}" "sim_inbox ?w 3 = waiting_frame" by (auto simp: answered_world_def sim_boot_def)
  with ReceiveFrameAsync_first_frame [OF sim_fd_laws sim_recv_laws sim_await_keeps sim_await_keeps sim_retry_signals, of 3 1000 ?w]
  show ?thesis by (fastforce split: sum.splits)
qed

text \<open>
  \<open>SendAllAsync\<close> returns under the same conditions, having handed the kernel the whole buffer in
  order on this connection alone, or a proper part of it with a network error.
\<close>

lemma SendAllAsync_delivers:
  assumes laws: "send_laws os wire" and keeps: "wait_keeps await wire"
    and signals: "signal_laws (retry_sys os await timeout) patience"
  shows "\<exists>r w'. SendAllAsync os await fd data timeout w = Some (r, w') \<and>
    (case r of
       Ok _ \<Rightarrow> wire w' = (wire w)(fd := wire w fd @ data)
     | Err err \<Rightarrow> err_code err = kNetworkError \<and>
         (\<exists>n < length data. wire w' = (wire w)(fd := wire w fd @ take n data)))"
proof -
  let ?os = "retry_sys os await timeout"
  obtain q w' where ret: "SendAll ?os fd data w = Some (q, w')"
    using send_from_returns [OF signals] unfolding SendAll_def by blast
  from SendAllAsync_retry [of os await fd data timeout w, unfolded ret]
  obtain r where r: "SendAllAsync os await fd data timeout w = Some (r, w')" "map_sum err_code id r = map_sum err_code id q"
    by (rule codes_Some)
  from SendAll_wire [OF retry_send_laws [OF laws keeps] ret] r show ?thesis by (cases r; cases q) auto
qed

text \<open>
  C31. \<open>BorrowConnectionAsync\<close> keeps the pool of idle connections sound, however its wait for the
  connection ends: it hands out an open descriptor that is in no bucket of the pool, or reports a
  network error and leaves no descriptor behind.
\<close>

theorem BorrowConnectionAsync_sound:
  assumes laws: "fd_laws os opened" and keeps: "wait_keeps await opened" and inv: "client_inv opened c"
    and ret: "BorrowConnectionAsync os await endpoint options c = (r, c')"
  shows "client_inv opened c' \<and>
    (case r of
       Ok fd \<Rightarrow> fd \<in> opened (cworld c') \<and> fd \<notin> pooled (idle_pool c') \<and> fd \<notin> outside_pool opened c \<and>
         outside_pool opened c' = insert fd (outside_pool opened c)
     | Err err \<Rightarrow> err_code err = kNetworkError \<and> outside_pool opened c' = outside_pool opened c)"
proof -
  have "borrow_result opened c (r, c')"
    using borrow_with_borrowed [OF laws ConnectToAsync_connects [OF laws keeps] inv] ret
    unfolding BorrowConnectionAsync_with by metis
  then show ?thesis by (cases r) (auto simp: borrowed_def outside_pool_def)
qed

theorem BorrowConnectionAsync_sound_witness:
  "\<exists>c'. BorrowConnectionAsync sim_os sim_await \<lparr>ep_host = ''h'', ep_port = 1\<rparr> default_call_options (demo_client sim_boot) = (Ok 3, c') \<and>
     client_inv sim_opened c' \<and> outside_pool sim_opened c' = {0, 1, 2, 3}"
proof -
  let ?c = "demo_client (sim_boot\<lparr>sim_open := [3, 0, 1, 2]\<rparr>)"
  have ret: "BorrowConnectionAsync sim_os sim_await \<lparr>ep_host = ''h'', ep_port = 1\<rparr> default_call_options (demo_client sim_boot) = (Ok 3, ?c)"
    by (simp add: BorrowConnectionAsync_def ConnectToAsync_def ConfigureSocket_def pop_idle_def demo_client_def Let_def
        sim_os_def sim_new_fd_def sim_fresh_def sim_boot_def)
  have "outside_pool sim_opened (demo_client sim_boot) = {0, 1, 2}"
    by (auto simp: outside_pool_def pooled_def idle_of_def demo_client_def sim_boot_def)
  with BorrowConnectionAsync_sound [OF sim_fd_laws sim_await_keeps demo_client_inv ret] ret show ?thesis by auto
qed

end
