(* ===== verification/RuntimeWait.thy ===== *)
theory RuntimeWait
  imports RuntimeLoop AsyncIO
begin

text \<open>
  Every wait ends, and what that gives the socket operations of the client: the coroutine runtime
  (\<open>src/src/async_runtime.cc\<close>) as the provider of the wait that the coroutines of \<open>AsyncIO\<close> take
  as an argument.
\<close>

section \<open>A wait keeps its deadline\<close>

lemma length_states [simp]:
  "length (rt_states (finish_state i s)) = length (rt_states s)"
  "length (rt_states (ResumeReady r to s)) = length (rt_states s)"
  by (simp_all add: finish_state_def ResumeReady_def Let_def)

lemma finish_queues [simp]:
  "rt_pending (finish_state i s) = rt_pending s" "rt_grabbed (finish_state i s) = rt_grabbed s"
  "rt_registrations (finish_state i s) = rt_registrations s"
  by (simp_all add: finish_state_def)

lemma fold_finish_queues:
  "rt_pending (fold (\<lambda>r. finish_state (wr_state r)) rs s) = rt_pending s"
  "rt_grabbed (fold (\<lambda>r. finish_state (wr_state r)) rs s) = rt_grabbed s"
  "rt_registrations (fold (\<lambda>r. finish_state (wr_state r)) rs s) = rt_registrations s"
  "length (rt_states (fold (\<lambda>r. finish_state (wr_state r)) rs s)) = length (rt_states s)"
  by (induction rs arbitrary: s) simp_all

lemma umap_erase_subset: "set (umap_erase k m) \<subseteq> set m"
  by (induction m) auto

lemma Cancel_open:
  "open_waits (Cancel os token s) \<subseteq> open_waits s" "length (rt_states (Cancel os token s)) = length (rt_states s)"
  using umap_erase_subset [of token "rt_registrations s"]
  by (auto simp: Cancel_def Let_def open_waits_def waiting_def fold_finish_queues split: option.splits)

lemma FdAwaiter_destroy_open:
  "open_waits (FdAwaiter_destroy os i s) \<subseteq> open_waits s"
  "length (rt_states (FdAwaiter_destroy os i s)) = length (rt_states s)"
proof -
  have "open_waits (set_state i ws s) = open_waits s" for ws by (simp add: open_waits_def waiting_def)
  then show "open_waits (FdAwaiter_destroy os i s) \<subseteq> open_waits s"
    "length (rt_states (FdAwaiter_destroy os i s)) = length (rt_states s)"
    using Cancel_open [of os _ "set_state i _ s"] by (simp_all add: FdAwaiter_destroy_def Let_def Cancel_open)
qed

lemma register_next_length: "length (rt_states (register_next os s)) = length (rt_states s)"
  by (auto simp: register_next_def register_one_def Let_def split: list.splits prod.splits sum.splits)

lemma fold_resume_length: "length (rt_states (fold (\<lambda>(_, r). ResumeReady r to) exs s)) = length (rt_states s)"
  by (induction exs arbitrary: s) (simp_all add: case_prod_beta)

lemma handle_token_open:
  assumes "token \<noteq> 0"
  shows "open_waits (handle_token os token s) \<subseteq> open_waits s" "length (rt_states (handle_token os token s)) = length (rt_states s)"
  using assms umap_erase_subset [of token "rt_registrations s"]
  by (auto simp: handle_token_def open_waits_def waiting_def split: option.splits)

lemma ExpireTimedOut_open:
  "open_waits (ExpireTimedOut os now s) \<subseteq> open_waits s" "length (rt_states (ExpireTimedOut os now s)) = length (rt_states s)"
  by (auto simp: open_waits_def waiting_def ExpireTimedOut_waits) (simp add: ExpireTimedOut_def Let_def fold_resume_length)

text \<open>A step makes no new wait for an old state.\<close>

lemma open_waits_step:
  assumes "rt_step os s s'"
  shows "length (rt_states s) \<le> length (rt_states s')"
    and "r \<in> open_waits s' \<Longrightarrow> wr_state r < length (rt_states s) \<Longrightarrow> r \<in> open_waits s"
proof -
  have "length (rt_states s) \<le> length (rt_states s') \<and>
      (\<forall>r \<in> open_waits s'. wr_state r < length (rt_states s) \<longrightarrow> r \<in> open_waits s)"
    using assms
  proof cases
    case (wait i s1 now fd events timeout)
    then show ?thesis
      by (auto simp: WaitFor_def await_suspend_def Enqueue_def Let_def open_waits_def waiting_def)
  next
    case (drop i)
    then show ?thesis using FdAwaiter_destroy_open [of os i s] by auto
  next
    case grab
    then show ?thesis by (auto simp: grab_pending_def open_waits_def waiting_def)
  next
    case register
    then show ?thesis using open_waits_register_next [of os s] by (auto simp: register_next_length)
  next
    case (event token)
    then show ?thesis using handle_token_open [of token os s] by auto
  next
    case (expire now)
    then show ?thesis using ExpireTimedOut_open [of os now s] by auto
  next
    case (poll w)
    then show ?thesis by (simp add: open_waits_def waiting_def)
  qed
  then show "length (rt_states s) \<le> length (rt_states s')"
    "r \<in> open_waits s' \<Longrightarrow> wr_state r < length (rt_states s) \<Longrightarrow> r \<in> open_waits s" by blast+
qed

lemma open_waits_steps:
  assumes "(rt_step os)\<^sup>*\<^sup>* s s'"
  shows "length (rt_states s) \<le> length (rt_states s') \<and>
    (\<forall>r. r \<in> open_waits s' \<longrightarrow> wr_state r < length (rt_states s) \<longrightarrow> r \<in> open_waits s)"
  using assms
proof (induction rule: rtranclp_induct)
  case (step s1 s2)
  then show ?case using open_waits_step [OF step.hyps(2)] by (meson le_trans order.strict_trans2)
qed simp

section \<open>A wait that is over was resumed\<close>

text \<open>unless its awaiter is gone.\<close>

definition answered :: "'w runtime \<Rightarrow> bool" where
  "answered s \<longleftrightarrow> (\<forall>i < length (rt_states s). ws_completed (rt_states s ! i) \<longrightarrow>
     ws_cancelled (rt_states s ! i) \<or> i \<in> fst ` set (rt_resumed s))"

lemma answered_fields [simp]:
  "answered (s\<lparr>rt_world := w\<rparr>) = answered s" "answered (s\<lparr>rt_pending := q\<rparr>) = answered s"
  "answered (s\<lparr>rt_grabbed := q\<rparr>) = answered s" "answered (s\<lparr>rt_registrations := m\<rparr>) = answered s"
  by (simp_all add: answered_def)

lemma answered_finish: "answered s \<Longrightarrow> ws_cancelled (rt_states s ! i) \<Longrightarrow> answered (finish_state i s)"
  by (auto simp: answered_def finish_state_def nth_upd)

lemma finish_cancelled [simp]: "ws_cancelled (rt_states (finish_state i s) ! j) = ws_cancelled (rt_states s ! j)"
  by (simp add: finish_state_def nth_upd)

lemma answered_ResumeReady: "answered s \<Longrightarrow> answered (ResumeReady r to s)"
  by (auto simp: answered_def ResumeReady_def finish_state_def Let_def nth_upd)

lemma answered_fold_resume: "answered s \<Longrightarrow> answered (fold (\<lambda>(_, r). ResumeReady r to) exs s)"
  by (induction exs arbitrary: s) (auto simp: answered_ResumeReady)

lemma answered_fold_finish:
  "answered s \<Longrightarrow> \<forall>r \<in> set rs. ws_cancelled (rt_states s ! wr_state r) \<Longrightarrow> answered (fold (\<lambda>r. finish_state (wr_state r)) rs s)"
  "ws_cancelled (rt_states (fold (\<lambda>r. finish_state (wr_state r)) rs s) ! j) = ws_cancelled (rt_states s ! j)"
  by (induction rs arbitrary: s) (simp_all add: answered_finish)

lemma answered_Cancel:
  assumes "answered s" and gone: "\<And>r. r \<in> open_waits s \<Longrightarrow> wr_token r = token \<Longrightarrow> ws_cancelled (rt_states s ! wr_state r)"
    and keys: "\<And>r. umap_find (rt_registrations s) token = Some r \<Longrightarrow> wr_token r = token"
  shows "answered (Cancel os token s)"
proof -
  have reg: "ws_cancelled (rt_states s ! wr_state r)" if "umap_find (rt_registrations s) token = Some r" for r
    using that keys [OF that] by (intro gone) (force simp: open_waits_def dest: map_of_SomeD)+
  have "\<forall>r \<in> set (filter (\<lambda>r. wr_token r = token) (rt_pending s)). ws_cancelled (rt_states s ! wr_state r)"
    using gone by (auto simp: open_waits_def waiting_def)
  then show ?thesis
    using assms(1) reg
    by (auto simp: Cancel_def Let_def fold_finish_queues answered_fold_finish split: option.splits intro!: answered_finish)
qed

lemma held_open_waits: "held_waits [] s = wr_state ` open_waits s"
  by (simp add: held_waits_def open_waits_def)

lemma answered_drop:
  assumes inv: "rt_inv [] s" "kept [] s" and ans: "answered s" and i: "i < length (rt_states s)"
  shows "answered (FdAwaiter_destroy os i s)"
proof -
  let ?ws = "rt_states s ! i"
  let ?s = "set_state i (?ws\<lparr>ws_cancelled := True\<rparr>) s"
  have s: "answered ?s" using ans by (auto simp: answered_def nth_upd)
  have same: "open_waits ?s = open_waits s" by (simp add: open_waits_def waiting_def)
  have "ws_cancelled (rt_states ?s ! wr_state r)"
    if "r \<in> open_waits ?s" "wr_token r = ws_token ?ws" "\<not> ws_completed ?ws" for r
  proof -
    from that(3) i inv(2) obtain q where q: "q \<in> open_waits s" "wr_state q = i"
      by (auto simp: kept_def held_open_waits)
    with open_waits_ok [OF inv(1) q(1)] that(2) have "wr_token r = wr_token q" by (simp add: wait_ok_def)
    with open_waits_token [OF inv(1), of r q] that(1) q same have "wr_state r = i" by simp
    with i show ?thesis by simp
  qed
  moreover have "wr_token r = t" if "umap_find (rt_registrations ?s) t = Some r" for r t
    using inv(1) that by (auto simp: rt_inv_def dest!: map_of_SomeD)
  ultimately show ?thesis using s answered_Cancel [of ?s "ws_token ?ws" os] by (simp add: FdAwaiter_destroy_def Let_def)
qed

lemma answered_step:
  assumes "rt_step os s s'" and "rt_inv [] s" "kept [] s" "answered s"
  shows "answered s'"
  using assms(1)
proof cases
  case (wait i s1 now fd events timeout)
  then have "rt_states s' = rt_states s @ [new_wait_state\<lparr>ws_token := rt_next_token s\<rparr>]" "rt_resumed s' = rt_resumed s"
    by (auto simp: WaitFor_def await_suspend_def Enqueue_def Let_def)
  with assms(4) show ?thesis by (auto simp: answered_def nth_append less_Suc_eq new_wait_state_def)
next
  case (drop i)
  then show ?thesis using answered_drop [OF assms(2-4)] by simp
next
  case register
  then show ?thesis using assms(4)
    by (auto simp: register_next_def register_one_def Let_def answered_ResumeReady split: list.splits prod.splits sum.splits)
next
  case (event token)
  then show ?thesis using assms(4) by (auto simp: handle_token_def answered_ResumeReady split: option.splits)
next
  case (expire now)
  then show ?thesis using assms(4) by (simp add: ExpireTimedOut_def Let_def answered_fold_resume)
qed (use assms(4) in \<open>simp_all add: grab_pending_def\<close>)

lemma answered_reachable: "rt_reachable os w0 s \<Longrightarrow> answered s"
proof (induction rule: rt_reachable.induct)
  case init
  show ?case by (simp add: answered_def AsyncRuntime_new_def)
next
  case (step s s')
  show ?case
    by (rule answered_step [OF step.hyps(2) rt_inv_reachable [OF step.hyps(1)] kept_reachable [OF step.hyps(1)] step.IH])
qed

section \<open>Every wait ends\<close>

lemma once_in_list: "distinct (map fst xs) \<Longrightarrow> i \<in> fst ` set xs \<Longrightarrow> length (filter (\<lambda>p. fst p = i) xs) = 1"
  by (induction xs) (auto simp: filter_empty_conv image_iff)

lemma await_suspend_open:
  assumes "WaitFor s = (i, s1)"
  shows "\<exists>r \<in> open_waits (await_suspend now fd events timeout i s1). wr_state r = i \<and> wr_deadline r = now + timeout"
    and "i < length (rt_states (await_suspend now fd events timeout i s1))"
  using assms by (auto simp: WaitFor_def await_suspend_def Enqueue_def Let_def open_waits_def waiting_def)

lemma wait_over:
  assumes reach: "rt_reachable os w0 s" and token: "rt_next_token s \<noteq> 0" and start: "WaitFor s = (i, s1)"
    and run: "(rt_step os)\<^sup>*\<^sup>* (await_suspend t0 fd events timeout i s1) s2"
    and ready: "rts_epoll_wait os (rt_world (RegisterPending os s2)) = (Ok tokens, w)" and late: "t0 + timeout \<le> now"
  shows "ws_completed (rt_states (Run_turn os now s2) ! i) \<and>
    (ws_cancelled (rt_states (Run_turn os now s2) ! i) \<or>
     length (filter (\<lambda>p. fst p = i) (rt_resumed (Run_turn os now s2))) = 1)"
proof -
  let ?s0 = "await_suspend t0 fd events timeout i s1" and ?s3 = "Run_turn os now s2"
  have r0: "rt_reachable os w0 ?s0" by (rule rt_reachable.step [OF reach rt_step.wait [OF token start]])
  have r2: "rt_reachable os w0 s2" by (rule rt_reachable_steps [OF r0 run])
  have r3: "rt_reachable os w0 ?s3" by (rule rt_reachable_steps [OF r2 Run_turn_steps])
  note old = await_suspend_open [OF start, of t0 fd events timeout]
  note grow = open_waits_steps [OF run] open_waits_steps [OF Run_turn_steps [of os s2 now]]
  have i: "i < length (rt_states ?s3)" using old(2) grow by simp
  have over: "ws_completed (rt_states ?s3 ! i)"
  proof (rule ccontr)
    assume "\<not> ?thesis"
    from Run_turn_deadlines [OF r2 ready i this]
    obtain r where r: "r \<in> open_waits s2" "wr_state r = i" "now < wr_deadline r" by blast
    with grow(1) old(2) have "r \<in> open_waits ?s0" by auto
    with old(1) r(2) open_waits_unique [OF rt_inv_reachable [OF r0]] have "wr_deadline r = t0 + timeout" by metis
    with r(3) late show False by simp
  qed
  have "length (filter (\<lambda>p. fst p = i) (rt_resumed ?s3)) = 1" if "i \<in> fst ` set (rt_resumed ?s3)"
    using that rt_inv_reachable [OF r3] by (intro once_in_list) (simp_all add: rt_inv_def resumed_ok_def)
  with over answered_reachable [OF r3] i show ?thesis by (auto simp: answered_def)
qed



section \<open>The runtime as the provider of waits\<close>

text \<open>
  A coroutine that waits while nothing else happens: its wait is started, the loop turns until
  the coroutine is resumed, and the awaiter is destroyed. \<open>clock\<close> reads the time of the world; a
  turn checks the deadlines at the time its events have been handled.
\<close>

definition turn_time :: "'w rt_sys \<Rightarrow> ('w \<Rightarrow> int) \<Rightarrow> 'w runtime \<Rightarrow> int" where
  "turn_time os clock s =
     (let s1 = RegisterPending os s in
      case rts_epoll_wait os (rt_world s1) of
        (Err _, w) \<Rightarrow> clock w
      | (Ok tokens, w) \<Rightarrow> clock (rt_world (fold (handle_token os) tokens (s1\<lparr>rt_world := w\<rparr>))))"

partial_function (option) turns_until :: "'w rt_sys \<Rightarrow> ('w \<Rightarrow> int) \<Rightarrow> nat \<Rightarrow> 'w runtime \<Rightarrow> 'w runtime option" where
  "turns_until os clock i s =
     (if list_ex (\<lambda>p. fst p = i) (rt_resumed s) then Some s
      else turns_until os clock i (Run_turn os (turn_time os clock s) s))"

definition await_turns ::
  "'w rt_sys \<Rightarrow> ('w \<Rightarrow> int) \<Rightarrow> int \<Rightarrow> u32 \<Rightarrow> int \<Rightarrow> 'w runtime \<Rightarrow> (bool \<times> 'w runtime) option" where
  "await_turns os clock fd events timeout s =
     (case WaitFor s of (i, s1) \<Rightarrow>
      case turns_until os clock i (await_suspend (clock (rt_world s)) fd events timeout i s1) of
        None \<Rightarrow> None
      | Some s2 \<Rightarrow> Some (await_resume i s2, FdAwaiter_destroy os i s2))"

text \<open>
  The loop touches the world only through \<open>epoll_ctl\<close> and \<open>epoll_wait\<close>.
\<close>

definition ctl :: "'w rt_sys \<Rightarrow> 'w \<Rightarrow> 'w \<Rightarrow> bool" where
  "ctl os w w' \<longleftrightarrow> (\<exists>oper fd events token. w' = snd (rts_epoll_ctl os oper fd events token w))"

abbreviation ctls :: "'w rt_sys \<Rightarrow> 'w \<Rightarrow> 'w \<Rightarrow> bool" where
  "ctls os \<equiv> (ctl os)\<^sup>*\<^sup>*"

lemma ctl_call: "rts_epoll_ctl os oper fd events token w = (r, w') \<Longrightarrow> ctls os w w'"
  by (rule r_into_rtranclp) (metis ctl_def snd_conv)

lemma ctl_snd: "ctls os w (snd (rts_epoll_ctl os oper fd events token w))"
  by (rule r_into_rtranclp) (auto simp: ctl_def)

lemma world_finish [simp]: "rt_world (finish_state i s) = rt_world s" "rt_world (ResumeReady r to s) = rt_world s"
  by (simp_all add: finish_state_def ResumeReady_def Let_def)

lemma world_folds [simp]:
  "rt_world (fold (\<lambda>r. finish_state (wr_state r)) rs s) = rt_world s"
  "rt_world (fold (\<lambda>(_, r). ResumeReady r to) exs s) = rt_world s"
  by (induction rs arbitrary: s, simp_all) (induction exs arbitrary: s, simp_all add: case_prod_beta)

lemma ctls_register_one: "ctls os (rt_world s) (rt_world (register_one os r s))"
  by (auto simp: register_one_def Let_def split: prod.splits sum.splits intro: ctl_call rtranclp_trans [OF ctl_call ctl_call])

lemma ctls_register_next: "ctls os (rt_world s) (rt_world ((register_next os ^^ n) s))"
proof (induction n)
  case (Suc n)
  let ?t = "(register_next os ^^ n) s"
  have "ctls os (rt_world ?t) (rt_world (register_next os ?t))"
    using ctls_register_one [of os "?t\<lparr>rt_grabbed := _\<rparr>"] by (auto simp: register_next_def split: list.splits)
  with Suc show ?case by (simp add: rtranclp_trans)
qed simp

lemma ctls_RegisterPending: "ctls os (rt_world s) (rt_world (RegisterPending os s))"
  using ctls_register_next [of os "grab_pending s"] by (simp add: RegisterPending_def Let_def grab_pending_def)

lemma ctls_handle_token: "ctls os (rt_world s) (rt_world (handle_token os token s))"
  by (auto simp: handle_token_def ctls_RegisterPending ctl_snd split: option.splits)

lemma ctls_handle_tokens: "ctls os (rt_world s) (rt_world (fold (handle_token os) tokens s))"
proof (induction tokens arbitrary: s)
  case (Cons t ts)
  show ?case using rtranclp_trans [OF ctls_handle_token Cons.IH] by simp
qed simp

lemma ctls_ExpireTimedOut: "ctls os (rt_world s) (rt_world (ExpireTimedOut os now s))"
proof -
  have "ctls os w (fold (\<lambda>(_, r) w. snd (rts_epoll_ctl os EPOLL_CTL_DEL (wr_fd r) 0 0 w)) exs w)" for exs w
  proof (induction exs arbitrary: w)
    case (Cons e es)
    show ?case using rtranclp_trans [OF ctl_snd Cons.IH] by (simp add: case_prod_beta)
  qed simp
  then show ?thesis by (simp add: ExpireTimedOut_def Let_def)
qed

lemma ctls_FdAwaiter_destroy: "ctls os (rt_world s) (rt_world (FdAwaiter_destroy os i s))"
  by (auto simp: FdAwaiter_destroy_def Cancel_def Let_def ctl_snd split: option.splits)

text \<open>
  Time passes in \<open>epoll_wait\<close>, it does not go back, and \<open>epoll_wait\<close> fails only finitely often.
\<close>

fun waits_on :: "('w \<Rightarrow> int) \<Rightarrow> ('w \<Rightarrow> nat) \<Rightarrow> 'w \<Rightarrow> (errno + 'a) \<times> 'w \<Rightarrow> bool" where
  "waits_on clock patience w (Ok x, w') \<longleftrightarrow> clock w < clock w' \<and> patience w' \<le> patience w"
| "waits_on clock patience w (Err e, w') \<longleftrightarrow> clock w \<le> clock w' \<and> patience w' < patience w"

definition clock_laws :: "'w rt_sys \<Rightarrow> ('w \<Rightarrow> int) \<Rightarrow> ('w \<Rightarrow> nat) \<Rightarrow> bool" where
  "clock_laws os clock patience \<longleftrightarrow>
     (\<forall>w w'. ctl os w w' \<longrightarrow> clock w \<le> clock w' \<and> patience w' \<le> patience w) \<and>
     (\<forall>w. waits_on clock patience w (rts_epoll_wait os w))"

lemma ctls_clock:
  assumes "clock_laws os clock patience" and "ctls os w w'"
  shows "clock w \<le> clock w' \<and> patience w' \<le> patience w"
  using assms(2)
proof (induction rule: rtranclp_induct)
  case (step w1 w2)
  with assms(1) show ?case unfolding clock_laws_def by (meson le_trans order_trans)
qed simp

lemma Run_turn_time:
  assumes laws: "clock_laws os clock patience"
  shows "case rts_epoll_wait os (rt_world (RegisterPending os s)) of
      (Ok _, _) \<Rightarrow> clock (rt_world s) < turn_time os clock s \<and>
        turn_time os clock s \<le> clock (rt_world (Run_turn os now s)) \<and> patience (rt_world (Run_turn os now s)) \<le> patience (rt_world s)
    | (Err _, _) \<Rightarrow> clock (rt_world s) \<le> clock (rt_world (Run_turn os now s)) \<and>
        patience (rt_world (Run_turn os now s)) < patience (rt_world s)"
proof -
  let ?s1 = "RegisterPending os s"
  obtain x w where wait: "rts_epoll_wait os (rt_world ?s1) = (x, w)" by fastforce
  have on: "waits_on clock patience (rt_world ?s1) (x, w)" using laws wait unfolding clock_laws_def by metis
  note first = ctls_clock [OF laws ctls_RegisterPending, of s]
  show ?thesis
  proof (cases x)
    case (Inl e)
    with wait on first show ?thesis by (simp add: Run_turn_def Let_def)
  next
    case (Inr tokens)
    let ?s2 = "fold (handle_token os) tokens (?s1\<lparr>rt_world := w\<rparr>)"
    have "clock w \<le> clock (rt_world ?s2) \<and> patience (rt_world ?s2) \<le> patience w"
      using ctls_clock [OF laws ctls_handle_tokens, of "?s1\<lparr>rt_world := w\<rparr>" tokens] by simp
    moreover have "clock (rt_world ?s2) \<le> clock (rt_world (ExpireTimedOut os now ?s2)) \<and>
        patience (rt_world (ExpireTimedOut os now ?s2)) \<le> patience (rt_world ?s2)"
      by (rule ctls_clock [OF laws ctls_ExpireTimedOut])
    ultimately show ?thesis using wait on first Inr by (simp add: Run_turn_def turn_time_def Let_def)
  qed
qed

text \<open>A turn drops no awaiter.\<close>

lemma ResumeReady_cancelled [simp]: "ws_cancelled (rt_states (ResumeReady r to s) ! i) = ws_cancelled (rt_states s ! i)"
  by (simp add: ResumeReady_frame)

lemma register_next_cancelled: "ws_cancelled (rt_states ((register_next os ^^ n) s) ! i) = ws_cancelled (rt_states s ! i)"
  by (induction n) (auto simp: register_next_def register_one_def Let_def split: list.splits prod.splits sum.splits)

lemma RegisterPending_cancelled: "ws_cancelled (rt_states (RegisterPending os s) ! i) = ws_cancelled (rt_states s ! i)"
  by (simp add: RegisterPending_def Let_def register_next_cancelled grab_pending_def)

lemma handle_token_cancelled: "ws_cancelled (rt_states (handle_token os token s) ! i) = ws_cancelled (rt_states s ! i)"
  by (auto simp: handle_token_def RegisterPending_cancelled split: option.splits)

lemma handle_tokens_cancelled:
  "ws_cancelled (rt_states (fold (handle_token os) tokens s) ! i) = ws_cancelled (rt_states s ! i)"
  by (induction tokens arbitrary: s) (simp_all add: handle_token_cancelled)

lemma fold_resume_cancelled:
  "ws_cancelled (rt_states (fold (\<lambda>(_, r). ResumeReady r to) exs s) ! i) = ws_cancelled (rt_states s ! i)"
  by (induction exs arbitrary: s) (simp_all add: case_prod_beta)

lemma ExpireTimedOut_cancelled: "ws_cancelled (rt_states (ExpireTimedOut os now s) ! i) = ws_cancelled (rt_states s ! i)"
  by (simp only: ExpireTimedOut_def Let_def fold_resume_cancelled runtime.select_convs runtime.update_convs runtime.surjective)
    (simp add: fold_resume_cancelled)

lemma Run_turn_cancelled: "ws_cancelled (rt_states (Run_turn os now s) ! i) = ws_cancelled (rt_states s ! i)"
proof -
  obtain x w where wait: "rts_epoll_wait os (rt_world (RegisterPending os s)) = (x, w)" by fastforce
  then show ?thesis
    by (cases x) (simp_all add: Run_turn_def Let_def ExpireTimedOut_cancelled handle_tokens_cancelled RegisterPending_cancelled)
qed

text \<open>The loop turns until the coroutine is resumed, at the latest when its deadline has passed.\<close>

lemma turns_until_returns:
  assumes laws: "clock_laws os clock patience" and reach: "rt_reachable os w0 s" and token: "rt_next_token s \<noteq> 0"
    and start: "WaitFor s = (i, s1)"
  shows "(rt_step os)\<^sup>*\<^sup>* (await_suspend t0 fd events timeout i s1) s2 \<Longrightarrow> \<not> ws_cancelled (rt_states s2 ! i) \<Longrightarrow>
    \<exists>s'. turns_until os clock i s2 = Some s' \<and> (rt_step os)\<^sup>*\<^sup>* s2 s' \<and> i \<in> fst ` set (rt_resumed s')"
proof (induction "nat (t0 + timeout - clock (rt_world s2)) + patience (rt_world s2)" arbitrary: s2 rule: less_induct)
  case less
  note unfold = turns_until.simps [of os clock i s2] and run = less.prems(1)
  show ?case
  proof (cases "list_ex (\<lambda>p. fst p = i) (rt_resumed s2)")
    case True
    then show ?thesis by (auto simp: unfold list_ex_iff)
  next
    case waiting: False
    let ?now = "turn_time os clock s2"
    let ?s3 = "Run_turn os ?now s2"
    have run3: "(rt_step os)\<^sup>*\<^sup>* (await_suspend t0 fd events timeout i s1) ?s3" by (rule rtranclp_trans [OF run Run_turn_steps])
    have gone: "\<not> ws_cancelled (rt_states ?s3 ! i)" using less.prems(2) by (simp add: Run_turn_cancelled)
    obtain x w where wait: "rts_epoll_wait os (rt_world (RegisterPending os s2)) = (x, w)" by fastforce
    note time = Run_turn_time [OF laws, of s2 ?now, unfolded wait]
    have again: ?thesis
      if "nat (t0 + timeout - clock (rt_world ?s3)) + patience (rt_world ?s3) < nat (t0 + timeout - clock (rt_world s2)) + patience (rt_world s2)"
      using less.hyps [OF that run3 gone] rtranclp_trans [OF Run_turn_steps [of os s2 ?now]] waiting by (auto simp: unfold)
    show ?thesis
    proof (cases x)
      case (Inl e)
      with time show ?thesis by (intro again add_le_less_mono nat_mono) simp_all
    next
      case (Inr tokens)
      show ?thesis
      proof (cases "t0 + timeout \<le> ?now")
        case True
        from wait_over [OF reach token start run wait [unfolded Inr] this] gone
        have "length (filter (\<lambda>p. fst p = i) (rt_resumed ?s3)) = 1" by blast
        then have "filter (\<lambda>p. fst p = i) (rt_resumed ?s3) \<noteq> []" by (metis list.size(3) zero_neq_one)
        then have resumed: "\<exists>p \<in> set (rt_resumed ?s3). fst p = i" by (simp only: filter_empty_conv) blast
        then have "turns_until os clock i s2 = Some ?s3"
          using waiting by (simp add: unfold turns_until.simps [of os clock i ?s3] list_ex_iff)
        with resumed Run_turn_steps [of os s2 ?now] show ?thesis by auto
      next
        case False
        with time Inr show ?thesis by (intro again add_less_le_mono) simp_all
      qed
    qed
  qed
qed

text \<open>
  A coroutine that waits on the runtime goes on: if time passes in \<open>epoll_wait\<close> and \<open>epoll_wait\<close> fails
  only finitely often, every wait on every descriptor returns, and it answers whether the
  coroutine was resumed by its event or by its deadline; the runtime is then again in a state
  of its machine.
\<close>

lemma runtime_await_returns:
  assumes laws: "clock_laws os clock patience" and reach: "rt_reachable os w0 s" and token: "rt_next_token s \<noteq> 0"
  shows "\<exists>ready s'. await_turns os clock fd events timeout s = Some (ready, s') \<and> rt_reachable os w0 s' \<and>
    (length (rt_states s), \<not> ready) \<in> set (rt_resumed s')"
proof -
  obtain i s1 where start: "WaitFor s = (i, s1)" by fastforce
  let ?s2 = "await_suspend (clock (rt_world s)) fd events timeout i s1"
  have i: "i = length (rt_states s)" and fresh: "\<not> ws_cancelled (rt_states ?s2 ! i)"
    using start by (auto simp: WaitFor_def await_suspend_def Enqueue_def Let_def new_wait_state_def)
  obtain s3 where s3: "turns_until os clock i ?s2 = Some s3" "(rt_step os)\<^sup>*\<^sup>* ?s2 s3" "i \<in> fst ` set (rt_resumed s3)"
    using turns_until_returns [OF laws reach token start rtranclp.rtrancl_refl fresh] by blast
  have r3: "rt_reachable os w0 s3"
    by (rule rt_reachable_steps [OF rt_reachable.step [OF reach rt_step.wait [OF token start]] s3(2)])
  from s3(3) obtain to where to: "(i, to) \<in> set (rt_resumed s3)" by auto
  have ok: "i < length (rt_states s3)" "await_resume i s3 = (\<not> to)"
    using rt_inv_reachable [OF r3] to by (auto simp: rt_inv_def resumed_ok_def await_resume_def)
  have "rt_reachable os w0 (FdAwaiter_destroy os i s3)" by (rule rt_reachable.step [OF r3 rt_step.drop [OF ok(1)]])
  with start s3(1) to ok show ?thesis by (auto simp: await_turns_def drop_resumed i [symmetric])
qed

section \<open>Receiving over the runtime\<close>

text \<open>
  The kernel below the runtime: the calls of the transport act on the world of the runtime, and
  the coroutine waits on the runtime. \<open>hang\<close> stands for the rest of a coroutine that is never
  resumed; nothing is assumed about it.
\<close>

definition on_world :: "('w \<Rightarrow> 'a \<times> 'w) \<Rightarrow> 'w runtime \<Rightarrow> 'a \<times> 'w runtime" where
  "on_world f s = (case f (rt_world s) of (r, w) \<Rightarrow> (r, s\<lparr>rt_world := w\<rparr>))"

definition over_runtime :: "'w sys \<Rightarrow> 'w runtime sys" where
  "over_runtime os =
     \<lparr>sys_socket = on_world (sys_socket os), sys_setsockopt = \<lambda>fd opt. on_world (sys_setsockopt os fd opt),
      sys_getfl = \<lambda>fd. on_world (sys_getfl os fd), sys_setfl = \<lambda>fd fl. on_world (sys_setfl os fd fl),
      sys_inet_pton = sys_inet_pton os, sys_bind = \<lambda>fd a p. on_world (sys_bind os fd a p),
      sys_listen = \<lambda>fd. on_world (sys_listen os fd), sys_accept = \<lambda>fd. on_world (sys_accept os fd),
      sys_connect = \<lambda>fd a p. on_world (sys_connect os fd a p), sys_so_error = \<lambda>fd. on_world (sys_so_error os fd),
      sys_recv = \<lambda>fd n. on_world (sys_recv os fd n), sys_send = \<lambda>fd d. on_world (sys_send os fd d),
      sys_close = \<lambda>fd s. s\<lparr>rt_world := sys_close os fd (rt_world s)\<rparr>, sys_epoll_create = on_world (sys_epoll_create os),
      sys_epoll_ctl = \<lambda>ep oper fd ev. on_world (sys_epoll_ctl os ep oper fd ev),
      sys_epoll_wait = \<lambda>ep n t. on_world (sys_epoll_wait os ep n t), sys_strerror = sys_strerror os\<rparr>"

definition runtime_await ::
  "'w rt_sys \<Rightarrow> ('w \<Rightarrow> int) \<Rightarrow> bool \<times> 'w runtime \<Rightarrow> int \<Rightarrow> u32 \<Rightarrow> int \<Rightarrow> 'w runtime \<Rightarrow> bool \<times> 'w runtime" where
  "runtime_await rt clock hang fd events timeout s =
     (case await_turns rt clock fd events timeout s of None \<Rightarrow> hang | Some x \<Rightarrow> x)"

text \<open>What the loop does to the world, in one wait.\<close>

definition kernel_step :: "'w rt_sys \<Rightarrow> 'w \<Rightarrow> 'w \<Rightarrow> bool" where
  "kernel_step rt w w' \<longleftrightarrow> ctl rt w w' \<or> w' = snd (rts_epoll_wait rt w)"

lemma ctls_kernel: "ctls rt w w' \<Longrightarrow> (kernel_step rt)\<^sup>*\<^sup>* w w'"
  by (erule rtranclp_mono [THEN predicate2D, rotated]) (simp add: kernel_step_def le_fun_def)

lemma Run_turn_kernel: "(kernel_step rt)\<^sup>*\<^sup>* (rt_world s) (rt_world (Run_turn rt now s))"
proof -
  obtain x w where wait: "rts_epoll_wait rt (rt_world (RegisterPending rt s)) = (x, w)" by fastforce
  have polled: "(kernel_step rt)\<^sup>*\<^sup>* (rt_world s) w"
    by (rule rtranclp.rtrancl_into_rtrancl [OF ctls_kernel [OF ctls_RegisterPending]]) (simp add: kernel_step_def wait)
  show ?thesis
  proof (cases x)
    case (Inr tokens)
    let ?s2 = "fold (handle_token rt) tokens ((RegisterPending rt s)\<lparr>rt_world := w\<rparr>)"
    have "(kernel_step rt)\<^sup>*\<^sup>* w (rt_world ?s2)"
      using ctls_kernel [OF ctls_handle_tokens, of rt "(RegisterPending rt s)\<lparr>rt_world := w\<rparr>" tokens] by simp
    from rtranclp_trans [OF rtranclp_trans [OF polled this] ctls_kernel [OF ctls_ExpireTimedOut]] wait Inr
    show ?thesis by (simp add: Run_turn_def Let_def)
  qed (use polled wait in \<open>simp add: Run_turn_def Let_def\<close>)
qed

lemma Run_turn_token: "rt_next_token (Run_turn os now s) = rt_next_token s"
proof -
  have resume: "rt_next_token (ResumeReady r to s) = rt_next_token s" for r to and s :: "'a runtime"
    by (simp add: ResumeReady_def finish_state_def Let_def)
  have register: "rt_next_token ((register_next os ^^ n) s) = rt_next_token s" for n s
    by (induction n) (auto simp: register_next_def register_one_def Let_def resume split: list.splits prod.splits sum.splits)
  have pending: "rt_next_token (RegisterPending os s) = rt_next_token s" for s
    by (simp add: RegisterPending_def Let_def register grab_pending_def)
  have handle: "rt_next_token (fold (handle_token os) tokens s) = rt_next_token s" for tokens s
    by (induction tokens arbitrary: s) (auto simp: handle_token_def pending resume split: option.splits)
  have expire: "rt_next_token (fold (\<lambda>(_, r). ResumeReady r True) exs s) = rt_next_token s" for exs and s :: "'a runtime"
    by (induction exs arbitrary: s) (simp_all add: case_prod_beta resume)
  obtain x w where "rts_epoll_wait os (rt_world (RegisterPending os s)) = (x, w)" by fastforce
  then show ?thesis
    by (cases x) (simp_all add: Run_turn_def ExpireTimedOut_def Let_def pending handle expire)
qed

lemma turns_until_kernel:
  assumes "turns_until rt clock i s = Some s'"
  shows "(kernel_step rt)\<^sup>*\<^sup>* (rt_world s) (rt_world s') \<and> rt_next_token s' = rt_next_token s"
  using assms
proof (rule turns_until.raw_induct [where P = "\<lambda>rt clock i s s'. (kernel_step rt)\<^sup>*\<^sup>* (rt_world s) (rt_world s') \<and>
    rt_next_token s' = rt_next_token s", rotated], goal_cases)
  case (1 f rt clock i s s')
  then show ?case
    using rtranclp_trans [OF Run_turn_kernel [of rt s "turn_time rt clock s"]]
    by (auto simp: Run_turn_token split: if_splits)
qed

lemma FdAwaiter_destroy_token: "rt_next_token (FdAwaiter_destroy os i s) = rt_next_token s"
proof -
  have finish: "rt_next_token (fold (\<lambda>r. finish_state (wr_state r)) rs s) = rt_next_token s" for rs and s :: "'a runtime"
    by (induction rs arbitrary: s) (simp_all add: finish_state_def)
  show ?thesis
    by (auto simp: FdAwaiter_destroy_def Cancel_def Let_def finish finish_state_def split: option.splits)
qed

lemma await_turns_kernel:
  assumes "await_turns rt clock fd events timeout s = Some (b, s')"
  shows "(kernel_step rt)\<^sup>*\<^sup>* (rt_world s) (rt_world s') \<and> rt_next_token s' = rt_next_token s + 1"
proof -
  obtain i s1 where start: "WaitFor s = (i, s1)" by fastforce
  let ?s2 = "await_suspend (clock (rt_world s)) fd events timeout i s1"
  from assms start obtain s3 where s3: "turns_until rt clock i ?s2 = Some s3" "s' = FdAwaiter_destroy rt i s3"
    by (auto simp: await_turns_def split: option.splits)
  have "rt_world ?s2 = rt_world s" "rt_next_token ?s2 = rt_next_token s + 1"
    using start by (auto simp: WaitFor_def await_suspend_def Enqueue_def Let_def)
  with turns_until_kernel [OF s3(1)] rtranclp_trans [OF _ ctls_kernel [OF ctls_FdAwaiter_destroy [of rt s3 i]]] s3(2)
  show ?thesis by (simp add: FdAwaiter_destroy_token)
qed

text \<open>
  The kernel makes a receiving call stop and be retried finitely often, and the runtime's calls
  of \<open>epoll\<close> leave the streams alone.
\<close>

fun stops :: "('w \<Rightarrow> nat) \<Rightarrow> 'w \<Rightarrow> (errno + 'a) \<times> 'w \<Rightarrow> bool" where
  "stops patience w (Err e, w') \<longleftrightarrow> (e = EINTR \<or> e = EAGAIN \<longrightarrow> patience w' < patience w)"
| "stops patience w (Ok x, w') \<longleftrightarrow> patience w' \<le> patience w"

definition stream_laws :: "'w sys \<Rightarrow> 'w rt_sys \<Rightarrow> ('w \<Rightarrow> int) \<Rightarrow> ('w \<Rightarrow> nat) \<Rightarrow> ('w \<Rightarrow> int \<Rightarrow> string) \<Rightarrow> bool" where
  "stream_laws os rt clock patience inbox \<longleftrightarrow>
     clock_laws rt clock patience \<and> recv_laws os inbox \<and> (\<forall>fd n w. stops patience w (sys_recv os fd n w)) \<and>
     (\<forall>w w'. kernel_step rt w w' \<longrightarrow> inbox w' = inbox w)"

lemma kernel_steps_streams:
  assumes laws: "stream_laws os rt clock patience inbox" and run: "(kernel_step rt)\<^sup>*\<^sup>* w w'"
  shows "inbox w' = inbox w \<and> patience w' \<le> patience w"
  using run
proof (induction rule: rtranclp_induct)
  case (step w1 w2)
  have "waits_on clock patience w1 (rts_epoll_wait rt w1)" using laws by (simp add: stream_laws_def clock_laws_def)
  then have "patience (snd (rts_epoll_wait rt w1)) \<le> patience w1" by (cases "rts_epoll_wait rt w1"; cases "fst (rts_epoll_wait rt w1)") auto
  then have "patience w2 \<le> patience w1"
    using step.hyps(2) laws by (auto simp: kernel_step_def stream_laws_def clock_laws_def)
  moreover have "inbox w2 = inbox w1" using step.hyps(2) laws by (simp add: stream_laws_def)
  ultimately show ?case using step.IH by simp
qed simp

text \<open>
  The states a receiving coroutine goes through: of the machine, with more tokens left than the
  call can still be stopped.
\<close>

definition roomy :: "'w rt_sys \<Rightarrow> ('w \<Rightarrow> nat) \<Rightarrow> 'w \<Rightarrow> 'w runtime \<Rightarrow> bool" where
  "roomy rt patience w0 s \<longleftrightarrow> rt_reachable rt w0 s \<and> rt_next_token s \<noteq> 0 \<and>
     unat (rt_next_token s) + patience (rt_world s) < 2 ^ 64"

lemma roomy_world: "roomy rt patience w0 s \<Longrightarrow> patience w \<le> patience (rt_world s) \<Longrightarrow> roomy rt patience w0 (s\<lparr>rt_world := w\<rparr>)"
  unfolding roomy_def by (auto intro: rt_reachable.step [OF _ rt_step.poll])

lemma roomy_await:
  assumes laws: "stream_laws os rt clock patience inbox" and room: "roomy rt patience w0 s"
    and fewer: "patience w < patience (rt_world s)"
  obtains b s' where "runtime_await rt clock hang fd events timeout (s\<lparr>rt_world := w\<rparr>) = (b, s')"
    "roomy rt patience w0 s'" "patience (rt_world s') \<le> patience w" "inbox (rt_world s') = inbox w"
proof -
  let ?s = "s\<lparr>rt_world := w\<rparr>"
  have clock: "clock_laws rt clock patience" using laws by (simp add: stream_laws_def)
  have good: "roomy rt patience w0 ?s" using roomy_world [OF room, of w] fewer by simp
  then obtain b s' where ret: "await_turns rt clock fd events timeout ?s = Some (b, s')" and reach: "rt_reachable rt w0 s'"
    using runtime_await_returns [OF clock, of w0 ?s fd events timeout] by (auto simp: roomy_def)
  have world: "(kernel_step rt)\<^sup>*\<^sup>* w (rt_world s')" and token: "rt_next_token s' = rt_next_token s + 1"
    using await_turns_kernel [OF ret] by simp_all
  from kernel_steps_streams [OF laws world] have streams: "inbox (rt_world s') = inbox w" "patience (rt_world s') \<le> patience w" by auto
  have "unat (rt_next_token s) + 1 < 2 ^ 64" using room fewer by (simp add: roomy_def)
  then have "unat (rt_next_token s') = unat (rt_next_token s) + 1" unfolding token by (simp add: unat_word_ariths)
  with room fewer streams(2) reach have "roomy rt patience w0 s'" by (auto simp: roomy_def)
  with ret streams show ?thesis by (intro that) (simp_all add: runtime_await_def)
qed

lemma over_runtime_recv: "sys_recv (over_runtime os) fd n s = on_world (sys_recv os fd n) s"
  by (simp add: over_runtime_def)

text \<open>What was taken off a stream on the way to \<open>n\<close> bytes, of which \<open>got\<close> were there before.\<close>

definition took :: "('w \<Rightarrow> int \<Rightarrow> string) \<Rightarrow> int \<Rightarrow> nat \<Rightarrow> string \<Rightarrow> 'w \<Rightarrow> RpcError + string \<Rightarrow> 'w \<Rightarrow> bool" where
  "took inbox fd n got w r w' \<longleftrightarrow> (\<exists>d. inbox w = (inbox w')(fd := d @ inbox w' fd) \<and>
     (case r of Ok x \<Rightarrow> x = got @ d \<and> length x = n | Err err \<Rightarrow> err_code err = kNetworkError \<and> length (got @ d) < n))"

lemma took_more:
  assumes "took inbox fd n (got @ data) w1 r w'" and "inbox w = (inbox w1)(fd := data @ inbox w1 fd)"
  shows "took inbox fd n got w r w'"
proof -
  from assms(1) obtain d where d: "inbox w1 = (inbox w')(fd := d @ inbox w' fd)"
    "case r of Ok x \<Rightarrow> x = (got @ data) @ d \<and> length x = n | Err err \<Rightarrow> err_code err = kNetworkError \<and> length ((got @ data) @ d) < n"
    unfolding took_def by blast
  with assms(2) show ?thesis unfolding took_def by (intro exI [of _ "data @ d"]) (simp split: sum.splits)
qed

lemma took_none: "length got < n \<Longrightarrow> inbox w' = inbox w \<Longrightarrow> err_code err = kNetworkError \<Longrightarrow> took inbox fd n got w (Err err) w'"
  unfolding took_def by (intro exI [of _ "[]"]) simp

lemma took_same: "inbox w1 = inbox w \<Longrightarrow> took inbox fd n got w1 r w' = took inbox fd n got w r w'"
  by (simp add: took_def)

text \<open>One call of the loop: it ends, or goes on with less to do.\<close>

lemma recv_over_runtime_step:
  fixes hang timeout
  defines "go \<equiv> \<lambda>os rt clock. recv_until_async (over_runtime os) (runtime_await rt clock hang) timeout"
  assumes laws: "stream_laws os rt clock patience inbox" and room: "roomy rt patience w0 s" and less: "length got < n"
  obtains (ended) r s' where "go os rt clock fd n got s = Some (r, s')" "took inbox fd n got (rt_world s) r (rt_world s')"
  | (more) data s2 where "go os rt clock fd n got s = go os rt clock fd n (got @ data) s2" "roomy rt patience w0 s2"
      "length (got @ data) \<le> n" "inbox (rt_world s) = (inbox (rt_world s2))(fd := data @ inbox (rt_world s2) fd)"
      "n - length (got @ data) + patience (rt_world s2) < n - length got + patience (rt_world s)"
proof -
  note unfold = recv_until_async.simps [of "over_runtime os" "runtime_await rt clock hang" timeout fd n got s]
  obtain y w1 where call: "sys_recv os fd (n - length got) (rt_world s) = (y, w1)" by fastforce
  have reads: "reads_front inbox fd (n - length got) (rt_world s) (y, w1)" and stops: "stops patience (rt_world s) (y, w1)"
    using laws call unfolding stream_laws_def recv_laws_def by metis+
  have step: "sys_recv (over_runtime os) fd (n - length got) s = (y, s\<lparr>rt_world := w1\<rparr>)"
    by (simp add: over_runtime_recv on_world_def call)
  consider data where "y = Ok data" "data \<noteq> []" | "y = Ok []" | "y = Err EINTR" | "y = Err EAGAIN"
    | e where "y = Err e" "e \<noteq> EINTR" "e \<noteq> EAGAIN"
    by (cases y) auto
  then show ?thesis
  proof cases
    case 1
    with reads stops less roomy_world [OF room, of w1] show ?thesis
      by (intro more [of data "s\<lparr>rt_world := w1\<rparr>"]) (cases data; auto simp: go_def unfold step)+
  next
    case 2
    with reads less step show ?thesis
      by (intro ended [of "Err (net_error ''peer closed connection'')" "s\<lparr>rt_world := w1\<rparr>"])
        (simp_all add: go_def unfold took_none fun_upd_idem_iff)
  next
    case 3
    with reads stops less step roomy_world [OF room, of w1] show ?thesis
      by (intro more [of "[]" "s\<lparr>rt_world := w1\<rparr>"]) (simp_all add: go_def unfold)
  next
    case 4
    with stops have fewer: "patience w1 < patience (rt_world s)" by simp
    obtain b s2 where s2: "runtime_await rt clock hang fd EPOLLIN timeout (s\<lparr>rt_world := w1\<rparr>) = (b, s2)"
      "roomy rt patience w0 s2" "patience (rt_world s2) \<le> patience w1" "inbox (rt_world s2) = inbox w1"
      by (rule roomy_await [OF laws room fewer])
    with 4 reads fewer less step show ?thesis
      by (cases b) (intro more [of "[]" s2] ended [of "Err (net_error ''recv timed out'')" s2]; simp add: go_def unfold took_none)+
  next
    case 5
    with reads less step show ?thesis
      by (intro ended [of "Err (net_error (BuildSystemError (over_runtime os) ''recv failed'' e))" "s\<lparr>rt_world := w1\<rparr>"])
        (simp_all add: go_def unfold took_none)
  qed
qed

lemma recv_over_runtime:
  assumes laws: "stream_laws os rt clock patience inbox"
  shows "roomy rt patience w0 s \<Longrightarrow> length got \<le> n \<Longrightarrow>
    \<exists>r s'. recv_until_async (over_runtime os) (runtime_await rt clock hang) timeout fd n got s = Some (r, s') \<and>
      took inbox fd n got (rt_world s) r (rt_world s')"
proof (induction "n - length got + patience (rt_world s)" arbitrary: got s rule: less_induct)
  case less
  show ?case
  proof (cases "length got < n")
    case False
    with less.prems(2) show ?thesis
      by (intro exI [of _ "Ok got"] exI [of _ s]) (simp add: recv_until_async.simps [of _ _ _ _ _ got s] took_def)
  next
    case True
    show ?thesis
    proof (rule recv_over_runtime_step [OF laws less.prems(1) True, of hang timeout fd], goal_cases)
      case (1 r s')
      then show ?case by blast
    next
      case (2 data s2)
      from less.hyps [OF 2(5,2,3)] 2(1,4) show ?case by (metis took_more)
    qed
  qed
qed

text \<open>
  C12. Receiving over the coroutine runtime: a coroutine that calls \<open>RecvAllAsync\<close> and waits on the
  runtime returns, if a call is stopped finitely often, time passes in \<open>epoll_wait\<close> and the tokens
  of the runtime last. It has then read exactly the next \<open>n\<close> bytes of its connection, or fewer of
  them and reports a network error; no other connection was touched. What a wait that never ends
  would do (\<open>hang\<close>) is irrelevant, since every wait ends.
\<close>

theorem RecvAllAsync_over_runtime:
  assumes laws: "stream_laws os rt clock patience inbox" and reach: "rt_reachable rt w0 s" and token: "rt_next_token s \<noteq> 0"
    and room: "unat (rt_next_token s) + patience (rt_world s) < 2 ^ 64"
  shows "\<exists>r s' d. RecvAllAsync (over_runtime os) (runtime_await rt clock hang) fd n timeout s = Some (r, s') \<and>
    inbox (rt_world s) = (inbox (rt_world s'))(fd := d @ inbox (rt_world s') fd) \<and>
    (case r of Ok x \<Rightarrow> x = d \<and> length x = n | Err err \<Rightarrow> err_code err = kNetworkError \<and> length d < n)"
proof -
  have "roomy rt patience w0 s" using reach token room by (simp add: roomy_def)
  from recv_over_runtime [OF laws this, of "[]" n hang timeout fd] show ?thesis
    unfolding RecvAllAsync_def took_def append_Nil by (simp only: list.size le0 simp_thms) blast
qed

text \<open>A connection on descriptor 5 that makes its reader wait twice.\<close>

type_synonym slow = "int \<times> string \<times> nat"

definition slow_recv :: "int \<Rightarrow> nat \<Rightarrow> slow \<Rightarrow> (errno + string) \<times> slow" where
  "slow_recv fd n w =
     (case w of (t, bytes, blocks) \<Rightarrow>
        if fd \<noteq> 5 then (Ok [], w)
        else if 0 < blocks then (Err EAGAIN, (t, bytes, blocks - 1))
        else (Ok (take n bytes), (t, drop n bytes, blocks)))"

definition slow_sys :: "slow sys" where
  "slow_sys =
     \<lparr>sys_socket = \<lambda>w. (Ok 5, w), sys_setsockopt = \<lambda>fd opt w. (Ok (), w), sys_getfl = \<lambda>fd w. (Ok 0, w),
      sys_setfl = \<lambda>fd fl w. (Ok (), w), sys_inet_pton = \<lambda>host. None, sys_bind = \<lambda>fd a p w. (Ok (), w),
      sys_listen = \<lambda>fd w. (Ok (), w), sys_accept = \<lambda>fd w. (Err EAGAIN, w), sys_connect = \<lambda>fd a p w. (Ok (), w),
      sys_so_error = \<lambda>fd w. (Ok None, w), sys_recv = slow_recv, sys_send = \<lambda>fd d w. (Ok 0, w), sys_close = \<lambda>fd w. w,
      sys_epoll_create = \<lambda>w. (Ok 6, w), sys_epoll_ctl = \<lambda>ep oper fd ev w. (Ok (), w),
      sys_epoll_wait = \<lambda>ep n t w. (Ok [], w), sys_strerror = \<lambda>e. ''error''\<rparr>"

definition slow_epoll :: "slow rt_sys" where
  "slow_epoll = \<lparr>rts_epoll_ctl = (\<lambda>oper fd ev token w. (Ok (), w)), rts_epoll_wait = (\<lambda>w. (Ok [1, 2], (fst w + 50, snd w)))\<rparr>"

definition slow_inbox :: "slow \<Rightarrow> int \<Rightarrow> string" where
  "slow_inbox w = (\<lambda>_. [])(5 := fst (snd w))"

lemma slow_laws: "stream_laws slow_sys slow_epoll fst (\<lambda>w. snd (snd w)) slow_inbox"
proof -
  have "clock_laws slow_epoll fst (\<lambda>w. snd (snd w))" by (auto simp: clock_laws_def ctl_def slow_epoll_def)
  moreover have "recv_laws slow_sys slow_inbox"
    by (auto simp: recv_laws_def slow_sys_def slow_recv_def slow_inbox_def fun_eq_iff split: prod.split)
  moreover have "stops (\<lambda>w. snd (snd w)) w (sys_recv slow_sys fd n w)" for fd n w
    by (auto simp: slow_sys_def slow_recv_def split: prod.split)
  moreover have "slow_inbox w' = slow_inbox w" if "kernel_step slow_epoll w w'" for w w'
    using that by (auto simp: kernel_step_def ctl_def slow_epoll_def slow_inbox_def)
  ultimately show ?thesis by (simp add: stream_laws_def)
qed

theorem RecvAllAsync_over_runtime_witness:
  "\<exists>r s' d. RecvAllAsync (over_runtime slow_sys) (runtime_await slow_epoll fst (False, AsyncRuntime_new (0, [], 0))) 5 3 1000
       (AsyncRuntime_new (0, ''abcd'', 2)) = Some (r, s') \<and>
     (case r of Ok x \<Rightarrow> x = d \<and> length x = 3 | Err err \<Rightarrow> err_code err = kNetworkError \<and> length d < 3)"
  using RecvAllAsync_over_runtime [OF slow_laws rt_reachable.init, of "(0, ''abcd'', 2)" "(False, AsyncRuntime_new (0, [], 0))" 5 3 1000]
  by (force simp: AsyncRuntime_new_def)

end
