(* ===== verification/TaskVoid.thy ===== *)
theory TaskVoid
  imports Task
begin

text \<open>
  Tasks without a result, the specialisation \<open>Task<void>\<close> of \<open>src/src/include/task.h\<close>: a promise without
  a value, the same ownership of frames, and no move assignment. They are related to \<open>Task<T>\<close> by
  erasing the value: every run over \<open>Task<void>\<close> is the erasure of a run over \<open>Task<T>\<close>, so that the
  guarantees on frames carry over, and a result is read as \<open>Task<T>\<close> reads it.
\<close>

section \<open>The promise\<close>

record 'e void_promise =
  vp_exception :: "'e option"
  vp_done :: bool
  vp_continuation :: "nat option"

definition void_new_promise :: "'e void_promise" where
  "void_new_promise = \<lparr>vp_exception = None, vp_done = False, vp_continuation = None\<rparr>"

definition return_void :: "'e void_promise \<Rightarrow> 'e void_promise" where
  "return_void p = p"

definition void_unhandled_exception :: "'e \<Rightarrow> 'e void_promise \<Rightarrow> 'e void_promise" where
  "void_unhandled_exception e p = p\<lparr>vp_exception := Some e\<rparr>"

definition void_FinalAwaiter_await_suspend :: "'e void_promise \<Rightarrow> nat option \<times> 'e void_promise" where
  "void_FinalAwaiter_await_suspend p = (let p1 = p\<lparr>vp_done := True\<rparr> in (vp_continuation p1, p1))"

definition void_result :: "'e void_promise \<Rightarrow> 'e + unit" where
  "void_result p = (case vp_exception p of Some e \<Rightarrow> Err e | None \<Rightarrow> Ok ())"

text \<open>\<open>Get\<close> blocks, here \<open>None\<close>, until the promise is done.\<close>

definition Task_void_Get :: "'e void_promise \<Rightarrow> ('e + unit) option" where
  "Task_void_Get p = (if \<not> vp_done p then None else Some (void_result p))"

definition Awaiter_void_await_ready :: "'e void_promise \<Rightarrow> bool" where
  "Awaiter_void_await_ready p = vp_done p"

definition Awaiter_void_await_suspend :: "nat \<Rightarrow> nat \<Rightarrow> 'e void_promise \<Rightarrow> nat \<times> 'e void_promise" where
  "Awaiter_void_await_suspend handle continuation p = (handle, p\<lparr>vp_continuation := Some continuation\<rparr>)"

definition Awaiter_void_await_resume :: "'e void_promise \<Rightarrow> 'e + unit" where
  "Awaiter_void_await_resume p = void_result p"

section \<open>Ownership of frames\<close>

record 'e void_state =
  vs_next :: nat
  vs_frames :: "(nat, 'e void_promise) umap"
  vs_tasks :: "nat option list"
  vs_awaiters :: "Awaiter list"

definition void_start :: "'e void_state" where
  "void_start = \<lparr>vs_next = 0, vs_frames = [], vs_tasks = [], vs_awaiters = []\<rparr>"

definition void_destroy_handle :: "nat option \<Rightarrow> 'e void_state \<Rightarrow> task_fault + 'e void_state" where
  "void_destroy_handle h s =
     (case h of
        None \<Rightarrow> Ok s
      | Some i \<Rightarrow>
          (case umap_find (vs_frames s) i of
             None \<Rightarrow> Err DeadFrame
           | Some _ \<Rightarrow> Ok (s\<lparr>vs_frames := umap_erase i (vs_frames s)\<rparr>)))"

definition Task_void_new :: "'e void_state \<Rightarrow> 'e void_state" where
  "Task_void_new s =
     s\<lparr>vs_next := Suc (vs_next s), vs_frames := umap_put (vs_next s) void_new_promise (vs_frames s),
       vs_tasks := vs_tasks s @ [Some (vs_next s)]\<rparr>"

definition Task_void_move :: "nat \<Rightarrow> 'e void_state \<Rightarrow> 'e void_state" where
  "Task_void_move other s = s\<lparr>vs_tasks := (vs_tasks s)[other := None] @ [vs_tasks s ! other]\<rparr>"

definition Task_void_destroy :: "nat \<Rightarrow> 'e void_state \<Rightarrow> task_fault + 'e void_state" where
  "Task_void_destroy this s =
     (case void_destroy_handle (vs_tasks s ! this) s of
        Err e \<Rightarrow> Err e
      | Ok s1 \<Rightarrow> Ok (s1\<lparr>vs_tasks := (vs_tasks s1)[this := None]\<rparr>))"

definition void_co_await_lvalue :: "nat \<Rightarrow> 'e void_state \<Rightarrow> 'e void_state" where
  "void_co_await_lvalue this s =
     s\<lparr>vs_awaiters := vs_awaiters s @ [\<lparr>aw_handle = vs_tasks s ! this, owns_handle = False\<rparr>]\<rparr>"

definition void_co_await_rvalue :: "nat \<Rightarrow> 'e void_state \<Rightarrow> 'e void_state" where
  "void_co_await_rvalue this s =
     s\<lparr>vs_awaiters := vs_awaiters s @ [\<lparr>aw_handle = vs_tasks s ! this, owns_handle = True\<rparr>],
       vs_tasks := (vs_tasks s)[this := None]\<rparr>"

definition Awaiter_void_destroy :: "nat \<Rightarrow> 'e void_state \<Rightarrow> task_fault + 'e void_state" where
  "Awaiter_void_destroy this s =
     (let a = vs_awaiters s ! this in
      case (if owns_handle a then void_destroy_handle (aw_handle a) s else Ok s) of
        Err e \<Rightarrow> Err e
      | Ok s1 \<Rightarrow> Ok (s1\<lparr>vs_awaiters := (vs_awaiters s1)[this := \<lparr>aw_handle = None, owns_handle = False\<rparr>]\<rparr>))"

datatype void_op = VNew | VMove nat | VDestroy nat | VAwaitRef nat | VAwaitMove nat | VAwaiterDestroy nat

fun void_perform :: "void_op \<Rightarrow> 'e void_state \<Rightarrow> task_fault + 'e void_state" where
  "void_perform VNew s = Ok (Task_void_new s)"
| "void_perform (VMove j) s = Ok (Task_void_move j s)"
| "void_perform (VDestroy i) s = Task_void_destroy i s"
| "void_perform (VAwaitRef i) s = Ok (void_co_await_lvalue i s)"
| "void_perform (VAwaitMove i) s = Ok (void_co_await_rvalue i s)"
| "void_perform (VAwaiterDestroy a) s = Awaiter_void_destroy a s"

fun void_op_names :: "'e void_state \<Rightarrow> void_op \<Rightarrow> bool" where
  "void_op_names s VNew \<longleftrightarrow> True"
| "void_op_names s (VMove j) \<longleftrightarrow> j < length (vs_tasks s)"
| "void_op_names s (VDestroy i) \<longleftrightarrow> i < length (vs_tasks s)"
| "void_op_names s (VAwaitRef i) \<longleftrightarrow> i < length (vs_tasks s)"
| "void_op_names s (VAwaitMove i) \<longleftrightarrow> i < length (vs_tasks s)"
| "void_op_names s (VAwaiterDestroy a) \<longleftrightarrow> a < length (vs_awaiters s)"

inductive void_run :: "task_fault + 'e void_state \<Rightarrow> bool" where
  void_init: "void_run (Ok void_start)"
| void_step: "void_run (Ok s) \<Longrightarrow> void_op_names s op \<Longrightarrow> void_run (void_perform op s)"

definition void_owners :: "'e void_state \<Rightarrow> nat option multiset" where
  "void_owners s = filter_mset (\<lambda>h. h \<noteq> None) (mset (vs_tasks s) + mset (map owned_handle (vs_awaiters s)))"

section \<open>Erasing the value\<close>

definition erase_promise :: "('a, 'e) promise \<Rightarrow> 'e void_promise" where
  "erase_promise p = \<lparr>vp_exception = pr_exception p, vp_done = pr_done p, vp_continuation = pr_continuation p\<rparr>"

definition erase_state :: "('a, 'e) task_state \<Rightarrow> 'e void_state" where
  "erase_state s =
     \<lparr>vs_next = fr_next (ts_frames s), vs_frames = map (map_prod id erase_promise) (fr_table (ts_frames s)),
      vs_tasks = ts_tasks s, vs_awaiters = ts_awaiters s\<rparr>"

primrec op_of_void :: "void_op \<Rightarrow> task_op" where
  "op_of_void VNew = OpNew"
| "op_of_void (VMove j) = OpMove j"
| "op_of_void (VDestroy i) = OpDestroy i"
| "op_of_void (VAwaitRef i) = OpAwaitRef i"
| "op_of_void (VAwaitMove i) = OpAwaitMove i"
| "op_of_void (VAwaiterDestroy a) = OpAwaiterDestroy a"

lemma erase_state_sel [simp]:
  "vs_next (erase_state s) = fr_next (ts_frames s)"
  "vs_frames (erase_state s) = map (map_prod id erase_promise) (fr_table (ts_frames s))"
  "vs_tasks (erase_state s) = ts_tasks s" "vs_awaiters (erase_state s) = ts_awaiters s"
  by (simp_all add: erase_state_def)

lemma erase_state_upd [simp]:
  "erase_state (s\<lparr>ts_tasks := ts\<rparr>) = (erase_state s)\<lparr>vs_tasks := ts\<rparr>"
  "erase_state (s\<lparr>ts_awaiters := as\<rparr>) = (erase_state s)\<lparr>vs_awaiters := as\<rparr>"
  by (simp_all add: erase_state_def)

lemma erase_new_promise [simp]: "erase_promise new_promise = void_new_promise"
  by (simp add: erase_promise_def new_promise_def void_new_promise_def)

lemma umap_map_values:
  "umap_find (map (map_prod id f) m) k = map_option f (umap_find m k)"
  "map (map_prod id f) (umap_put k v m) = umap_put k (f v) (map (map_prod id f) m)"
  "map (map_prod id f) (umap_erase k m) = umap_erase k (map (map_prod id f) m)"
  by (induction m) auto

lemma erase_destroy_handle: "void_destroy_handle h (erase_state s) = map_sum id erase_state (destroy_handle h s)"
  by (auto simp: void_destroy_handle_def destroy_handle_def umap_map_values erase_state_def split: option.splits)

lemma erase_perform: "void_perform op (erase_state s) = map_sum id erase_state (perform (op_of_void op) s)"
proof (cases op)
  case (VDestroy i)
  then show ?thesis
    by (auto simp: Task_void_destroy_def Task_destroy_def erase_destroy_handle split: sum.splits)
next
  case (VAwaiterDestroy a)
  then show ?thesis
    by (auto simp: Awaiter_void_destroy_def Awaiter_destroy_def Let_def erase_destroy_handle split: sum.splits)
qed (simp_all add: erase_state_def Task_void_new_def Task_new_def get_return_object_def umap_map_values Task_void_move_def
    Task_move_def void_co_await_lvalue_def co_await_lvalue_def void_co_await_rvalue_def co_await_rvalue_def)

lemma erase_op_names: "void_op_names (erase_state s) op = op_names s (op_of_void op)"
  by (cases op) simp_all

lemma void_run_erases:
  assumes "void_run x"
  shows "\<exists>y :: task_fault + ('a, 'e) task_state. task_run y \<and> x = map_sum id erase_state y"
  using assms
proof (induction rule: void_run.induct)
  case void_init
  have "void_start = erase_state (task_start :: ('a, 'e) task_state)" by (simp add: void_start_def task_start_def erase_state_def)
  then show ?case using task_run.init by (intro exI [of _ "Ok task_start"]) simp
next
  case (void_step v op)
  then obtain s :: "('a, 'e) task_state" where s: "task_run (Ok s)" "v = erase_state s"
    using void_step.IH by (metis (no_types) map_sum.simps sum.exhaust sum.inject(2) Inl_Inr_False)
  with void_step.hyps(2) have "task_run (perform (op_of_void op) s)"
    by (intro task_run.step) (simp_all add: erase_op_names)
  moreover have "void_perform op v = map_sum id erase_state (perform (op_of_void op) s)" unfolding s(2) by (rule erase_perform)
  ultimately show ?case by blast
qed

text \<open>Reading the result: as for \<open>Task<T>\<close>, once the coroutine has stored its outcome.\<close>

lemma erase_promise_ops:
  "erase_promise (return_value v p) = return_void (erase_promise p)"
  "erase_promise (unhandled_exception e p) = void_unhandled_exception e (erase_promise p)"
  "map_prod id erase_promise (FinalAwaiter_await_suspend p) = void_FinalAwaiter_await_suspend (erase_promise p)"
  "Awaiter_void_await_ready (erase_promise p) = Awaiter_await_ready p"
  "map_prod id erase_promise (Awaiter_await_suspend h c p) = Awaiter_void_await_suspend h c (erase_promise p)"
  by (simp_all add: erase_promise_def return_value_def return_void_def unhandled_exception_def void_unhandled_exception_def
      FinalAwaiter_await_suspend_def final_mark_def void_FinalAwaiter_await_suspend_def Awaiter_void_await_ready_def
      Awaiter_await_ready_def Awaiter_await_suspend_def Awaiter_void_await_suspend_def Let_def)

lemma erase_result:
  "pr_value p \<noteq> Empty \<or> pr_exception p \<noteq> None \<Longrightarrow>
     Task_Get p = None \<and> Task_void_Get (erase_promise p) = None \<or>
     (\<exists>r p'. Task_Get p = Some (Ok (r, p')) \<and> Task_void_Get (erase_promise p) = Some (map_sum id (\<lambda>_. ()) r) \<and>
        erase_promise p' = erase_promise p)"
  by (auto simp: Task_Get_def Task_void_Get_def take_result_def void_result_def erase_promise_def split: slot.splits option.splits)

section \<open>What tasks without a result guarantee\<close>



end
