(* ===== verification/Logger.thy ===== *)
theory Logger
  imports Settings "HOL-Library.Multiset"
begin

text \<open>
  The logger, \<open>src/src/logger.cc\<close>: threads submit messages under a mutex; in synchronous mode the
  caller writes the line itself, in asynchronous mode it queues the entry and a worker thread
  moves the queue into a batch and writes the batch without the mutex.

  \<open>lg_written\<close> is the trace of \<open>WriteUnlocked\<close>: one element per call, with the line and the
  streams that received it. Every line ends in \<open>std::endl\<close>, so flushing needs no state. The file
  system is the record \<open>log_fs\<close> of the two calls that \<open>Configure\<close> makes; local time formatting, which
  depends on the time zone, is the argument \<open>put_time\<close>. The worker's position in \<open>Run\<close> is
  \<open>lg_worker\<close>: \<open>Looping\<close> holds the mutex at the loop head, \<open>Flushing\<close> is inside \<open>WriteBatch\<close>.
\<close>

record LogEntry =
  le_level :: LogLevel
  le_timestamp :: int
  le_message :: string

record log_line =
  ll_text :: string
  ll_stderr :: bool
  ll_file :: "string option"

record 'f log_fs =
  create_directories :: "string \<Rightarrow> 'f \<Rightarrow> (string + unit) \<times> 'f"
  open_append :: "string \<Rightarrow> 'f \<Rightarrow> bool \<times> 'f"

datatype worker = Looping | Flushing | Finished

record 'f logger =
  lg_options :: LoggerOptions
  lg_queue :: "LogEntry list"
  lg_file_stream :: "string option"
  lg_stopping :: bool
  lg_batch :: "LogEntry list"
  lg_worker :: worker
  lg_fs :: 'f
  lg_written :: "log_line list"

record LogMessage =
  lm_level :: LogLevel
  lm_stream :: string

section \<open>Levels are ordered as the enumeration lists them\<close>

primrec level_rank :: "LogLevel \<Rightarrow> nat" where
  "level_rank kInfo = 0"
| "level_rank kWarn = 1"
| "level_rank kError = 2"

instantiation LogLevel :: linorder
begin

definition less_eq_LogLevel :: "LogLevel \<Rightarrow> LogLevel \<Rightarrow> bool" where
  "less_eq_LogLevel a b \<longleftrightarrow> level_rank a \<le> level_rank b"

definition less_LogLevel :: "LogLevel \<Rightarrow> LogLevel \<Rightarrow> bool" where
  "less_LogLevel a b \<longleftrightarrow> level_rank a < level_rank b"

instance
proof
  fix a b :: LogLevel
  show "a \<le> b \<Longrightarrow> b \<le> a \<Longrightarrow> a = b"
    by (cases a; cases b) (simp_all add: less_eq_LogLevel_def)
qed (auto simp: less_eq_LogLevel_def less_LogLevel_def)

end

section \<open>Operations\<close>

definition default_logger_options :: LoggerOptions where
  "default_logger_options =
     \<lparr>async_enabled = True, stderr_enabled = True, lo_file_path = [], lo_min_level = kInfo\<rparr>"

definition LoggerImpl_new :: "'f \<Rightarrow> 'f logger" where
  "LoggerImpl_new fs = \<lparr>lg_options = default_logger_options, lg_queue = [], lg_file_stream = None, lg_stopping = False,
     lg_batch = [], lg_worker = Looping, lg_fs = fs, lg_written = []\<rparr>"

text \<open>\<open>std::filesystem::path::parent_path\<close> on POSIX.\<close>

definition parent_path :: "string \<Rightarrow> string" where
  "parent_path p =
     (case find_last_char CHR ''/'' p of
        None \<Rightarrow> []
      | Some i \<Rightarrow>
          let dir = rev (dropWhile (\<lambda>c. c = CHR ''/'') (rev (take i p)))
          in if dir = [] then ''/'' else dir)"

definition Configure :: "'f log_fs \<Rightarrow> LoggerOptions \<Rightarrow> 'f logger \<Rightarrow> (string + unit) \<times> 'f logger" where
  "Configure fso options s =
     (if lo_file_path options = []
      then (Ok (), s\<lparr>lg_options := options, lg_file_stream := None\<rparr>)
      else
        let parent = parent_path (lo_file_path options);
            (made, f1) = (if parent \<noteq> [] then create_directories fso parent (lg_fs s) else (Ok (), lg_fs s))
        in case made of
             Err message \<Rightarrow> (Err (''failed to create log directory: '' @ message), s\<lparr>lg_fs := f1\<rparr>)
           | Ok _ \<Rightarrow>
               let (is_open, f2) = open_append fso (lo_file_path options) f1
               in if \<not> is_open
                  then (Err (''failed to open log file: '' @ lo_file_path options), s\<lparr>lg_fs := f2\<rparr>)
                  else (Ok (), s\<lparr>lg_fs := f2, lg_options := options, lg_file_stream := Some (lo_file_path options)\<rparr>))"

definition LogLevel_ToString :: "LogLevel \<Rightarrow> string" where
  "LogLevel_ToString level = (case level of kInfo \<Rightarrow> ''INFO'' | kWarn \<Rightarrow> ''WARN'' | kError \<Rightarrow> ''ERROR'')"

text \<open>\<open>to_time_t\<close> truncates the nanoseconds of the clock to seconds, towards zero.\<close>

definition to_time_t :: "int \<Rightarrow> int" where
  "to_time_t ns = (if ns < 0 then - ((- ns) div 1000000000) else ns div 1000000000)"

definition FormatLine :: "(int \<Rightarrow> string) \<Rightarrow> LogEntry \<Rightarrow> string" where
  "FormatLine put_time entry =
     ''['' @ LogLevel_ToString (le_level entry) @ ''] '' @ put_time (to_time_t (le_timestamp entry)) @ '' '' @ le_message entry"

definition WriteUnlocked :: "string \<Rightarrow> 'f logger \<Rightarrow> 'f logger" where
  "WriteUnlocked line s = s\<lparr>lg_written := lg_written s @
     [\<lparr>ll_text = line, ll_stderr = stderr_enabled (lg_options s), ll_file = lg_file_stream s\<rparr>]\<rparr>"

definition Write :: "(int \<Rightarrow> string) \<Rightarrow> int \<Rightarrow> LogLevel \<Rightarrow> string \<Rightarrow> 'f logger \<Rightarrow> 'f logger" where
  "Write put_time now level message s =
     (let entry = \<lparr>le_level = level, le_timestamp = now, le_message = message\<rparr> in
      if level < lo_min_level (lg_options s) then s
      else if \<not> async_enabled (lg_options s) then WriteUnlocked (FormatLine put_time entry) s
      else s\<lparr>lg_queue := lg_queue s @ [entry]\<rparr>)"

definition WriteBatch :: "(int \<Rightarrow> string) \<Rightarrow> LogEntry list \<Rightarrow> 'f logger \<Rightarrow> 'f logger" where
  "WriteBatch put_time batch s = fold (\<lambda>entry. WriteUnlocked (FormatLine put_time entry)) batch s"

text \<open>
  One step of the worker thread; \<open>None\<close> when it waits for work or has ended. The entries of a
  batch are written one step each, since the mutex is not held meanwhile.
\<close>

definition LoggerImpl_Run_step :: "(int \<Rightarrow> string) \<Rightarrow> 'f logger \<Rightarrow> 'f logger option" where
  "LoggerImpl_Run_step put_time s =
     (case lg_worker s of
        Looping \<Rightarrow>
          if lg_queue s \<noteq> [] then Some (s\<lparr>lg_batch := lg_batch s @ lg_queue s, lg_queue := [], lg_worker := Flushing\<rparr>)
          else if lg_stopping s then Some (s\<lparr>lg_worker := Finished\<rparr>)
          else None
      | Flushing \<Rightarrow>
          (case lg_batch s of
             [] \<Rightarrow> Some (s\<lparr>lg_worker := Looping\<rparr>)
           | entry # rest \<Rightarrow> Some (WriteUnlocked (FormatLine put_time entry) (s\<lparr>lg_batch := rest\<rparr>)))
      | Finished \<Rightarrow> None)"

text \<open>The worker left to itself: it runs until it waits or ends.\<close>

definition worker_work :: "'f logger \<Rightarrow> nat" where
  "worker_work s = 3 * length (lg_queue s) + length (lg_batch s) +
     (case lg_worker s of Looping \<Rightarrow> 1 | Flushing \<Rightarrow> 2 | Finished \<Rightarrow> 0)"

lemma worker_step_work: "LoggerImpl_Run_step put_time s = Some s' \<Longrightarrow> worker_work s' < worker_work s"
  by (cases "lg_worker s"; cases "lg_queue s")
    (auto simp: LoggerImpl_Run_step_def worker_work_def WriteUnlocked_def split: if_splits list.splits)

function LoggerImpl_Run :: "(int \<Rightarrow> string) \<Rightarrow> 'f logger \<Rightarrow> 'f logger" where
  "LoggerImpl_Run put_time s = (case LoggerImpl_Run_step put_time s of None \<Rightarrow> s | Some s' \<Rightarrow> LoggerImpl_Run put_time s')"
  by pat_completeness auto
termination
  by (relation "measure (\<lambda>(_, s). worker_work s)") (auto simp: worker_step_work)

declare LoggerImpl_Run.simps [simp del]

definition LoggerImpl_stop :: "'f logger \<Rightarrow> 'f logger" where
  "LoggerImpl_stop s = s\<lparr>lg_stopping := True\<rparr>"

definition LoggerImpl_destroy :: "(int \<Rightarrow> string) \<Rightarrow> 'f logger \<Rightarrow> 'f logger" where
  "LoggerImpl_destroy put_time s = LoggerImpl_Run put_time (LoggerImpl_stop s)"

definition LogMessage_new :: "LogLevel \<Rightarrow> LogMessage" where
  "LogMessage_new level = \<lparr>lm_level = level, lm_stream = []\<rparr>"

definition LogMessage_put :: "string \<Rightarrow> LogMessage \<Rightarrow> LogMessage" where
  "LogMessage_put text m = m\<lparr>lm_stream := lm_stream m @ text\<rparr>"

definition LogMessage_destroy :: "(int \<Rightarrow> string) \<Rightarrow> int \<Rightarrow> LogMessage \<Rightarrow> 'f logger \<Rightarrow> 'f logger" where
  "LogMessage_destroy put_time now m s = Write put_time now (lm_level m) (lm_stream m) s"

section \<open>The machine\<close>

text \<open>
  All interleavings of submitting threads, reconfiguring threads, the worker and the
  destructor. A run carries the entries accepted by the level filter, in order.
\<close>

definition accepted :: "int \<Rightarrow> LogLevel \<Rightarrow> string \<Rightarrow> 'f logger \<Rightarrow> LogEntry list" where
  "accepted now level message s =
     (if level < lo_min_level (lg_options s) then []
      else [\<lparr>le_level = level, le_timestamp = now, le_message = message\<rparr>])"

inductive log_run :: "'f log_fs \<Rightarrow> (int \<Rightarrow> string) \<Rightarrow> (LoggerOptions \<Rightarrow> bool) \<Rightarrow> 'f \<Rightarrow> LogEntry list \<Rightarrow> 'f logger \<Rightarrow> bool"
  for fso put_time allowed f0 where
  start: "log_run fso put_time allowed f0 [] (LoggerImpl_new f0)"
| submit: "log_run fso put_time allowed f0 es s \<Longrightarrow>
    log_run fso put_time allowed f0 (es @ accepted now level message s) (Write put_time now level message s)"
| configure: "log_run fso put_time allowed f0 es s \<Longrightarrow> allowed options \<Longrightarrow>
    log_run fso put_time allowed f0 es (snd (Configure fso options s))"
| work: "log_run fso put_time allowed f0 es s \<Longrightarrow> LoggerImpl_Run_step put_time s = Some s' \<Longrightarrow>
    log_run fso put_time allowed f0 es s'"
| stop: "log_run fso put_time allowed f0 es s \<Longrightarrow> log_run fso put_time allowed f0 es (LoggerImpl_stop s)"

text \<open>The lines written so far, and those still to be written in queue order.\<close>

definition written_texts :: "'f logger \<Rightarrow> string list" where
  "written_texts s = map ll_text (lg_written s)"

definition waiting_texts :: "(int \<Rightarrow> string) \<Rightarrow> 'f logger \<Rightarrow> string list" where
  "waiting_texts put_time s = map (FormatLine put_time) (lg_batch s @ lg_queue s)"

section \<open>Lemmas\<close>

lemma WriteUnlocked_fields [simp]:
  "lg_options (WriteUnlocked l s) = lg_options s" "lg_queue (WriteUnlocked l s) = lg_queue s"
  "lg_batch (WriteUnlocked l s) = lg_batch s" "lg_stopping (WriteUnlocked l s) = lg_stopping s"
  "lg_worker (WriteUnlocked l s) = lg_worker s" "lg_file_stream (WriteUnlocked l s) = lg_file_stream s"
  "written_texts (WriteUnlocked l s) = written_texts s @ [l]"
  by (simp_all add: WriteUnlocked_def written_texts_def)

text \<open>\<open>Configure\<close> either installs everything it was given or keeps options and stream.\<close>

lemma Configure_cases:
  assumes "Configure fso options s = (r, s')"
  shows "lg_queue s' = lg_queue s \<and> lg_batch s' = lg_batch s \<and> lg_worker s' = lg_worker s \<and>
    lg_stopping s' = lg_stopping s \<and> lg_written s' = lg_written s \<and>
    (case r of
       Ok _ \<Rightarrow> lg_options s' = options \<and>
         lg_file_stream s' = (if lo_file_path options = [] then None else Some (lo_file_path options))
     | Err _ \<Rightarrow> lg_options s' = lg_options s \<and> lg_file_stream s' = lg_file_stream s \<and> lo_file_path options \<noteq> [])"
  using assms by (auto simp: Configure_def Let_def split: if_splits prod.splits sum.splits)

lemma Configure_keeps:
  "written_texts (snd (Configure fso options s)) = written_texts s"
  "waiting_texts put_time (snd (Configure fso options s)) = waiting_texts put_time s"
  "async_enabled options \<Longrightarrow> async_enabled (lg_options s) \<Longrightarrow> async_enabled (lg_options (snd (Configure fso options s)))"
  using Configure_cases [of fso options s "fst (Configure fso options s)" "snd (Configure fso options s)"]
  by (auto simp: written_texts_def waiting_texts_def split: sum.splits)

text \<open>A worker step moves lines from waiting to written, in order.\<close>

lemma worker_step_lines:
  assumes "LoggerImpl_Run_step put_time s = Some s'"
  shows "written_texts s' @ waiting_texts put_time s' = written_texts s @ waiting_texts put_time s"
    "lg_options s' = lg_options s" "lg_file_stream s' = lg_file_stream s" "lg_stopping s' = lg_stopping s"
    "lg_worker s' = Finished \<longrightarrow> lg_queue s' = []"
    "lg_worker s = Looping \<longrightarrow> lg_batch s = [] \<Longrightarrow> lg_worker s' \<noteq> Flushing \<longrightarrow> lg_batch s' = []"
  using assms
  by (auto simp: LoggerImpl_Run_step_def written_texts_def waiting_texts_def WriteUnlocked_def
      split: worker.splits if_splits list.splits)

lemma Write_lines:
  "async_enabled (lg_options s) \<Longrightarrow>
     written_texts (Write put_time now level message s) @ waiting_texts put_time (Write put_time now level message s) =
     written_texts s @ waiting_texts put_time s @ map (FormatLine put_time) (accepted now level message s)"
  "mset (written_texts (Write put_time now level message s)) + mset (waiting_texts put_time (Write put_time now level message s)) =
     mset (written_texts s) + mset (waiting_texts put_time s) + mset (map (FormatLine put_time) (accepted now level message s))"
  "lg_options (Write put_time now level message s) = lg_options s"
  by (simp_all add: Write_def accepted_def Let_def written_texts_def waiting_texts_def WriteUnlocked_def)

text \<open>The file stream is open exactly when the options name a file, and the batch belongs to a flush.\<close>

definition logger_ok :: "'f logger \<Rightarrow> bool" where
  "logger_ok s \<longleftrightarrow> lg_file_stream s = (if lo_file_path (lg_options s) = [] then None else Some (lo_file_path (lg_options s))) \<and>
     (lg_worker s \<noteq> Flushing \<longrightarrow> lg_batch s = [])"

lemma logger_ok_Configure: "logger_ok s \<Longrightarrow> logger_ok (snd (Configure fso options s))"
  using Configure_cases [of fso options s "fst (Configure fso options s)" "snd (Configure fso options s)"]
  by (auto simp: logger_ok_def split: sum.splits)

lemma logger_ok_step: "logger_ok s \<Longrightarrow> LoggerImpl_Run_step put_time s = Some s' \<Longrightarrow> logger_ok s'"
  using worker_step_lines [of put_time s s'] by (auto simp: logger_ok_def)

lemma logger_ok_Write: "logger_ok s \<Longrightarrow> logger_ok (Write put_time now level message s)"
  by (simp add: logger_ok_def Write_def Let_def)

lemma logger_ok_run: "log_run fso put_time allowed f0 es s \<Longrightarrow> logger_ok s"
proof (induction rule: log_run.induct)
  case start
  show ?case by (simp add: logger_ok_def LoggerImpl_new_def default_logger_options_def)
next
  case (stop es s)
  then show ?case by (simp add: logger_ok_def LoggerImpl_stop_def)
qed (auto intro: logger_ok_Configure logger_ok_step logger_ok_Write)

lemma LoggerImpl_stop_fields [simp]:
  "written_texts (LoggerImpl_stop s) = written_texts s" "waiting_texts put_time (LoggerImpl_stop s) = waiting_texts put_time s"
  "lg_options (LoggerImpl_stop s) = lg_options s" "lg_stopping (LoggerImpl_stop s)"
  "lg_file_stream (LoggerImpl_stop s) = lg_file_stream s" "lg_worker (LoggerImpl_stop s) = lg_worker s"
  "lg_batch (LoggerImpl_stop s) = lg_batch s" "lg_written (LoggerImpl_stop s) = lg_written s"
  by (simp_all add: LoggerImpl_stop_def written_texts_def waiting_texts_def)

text \<open>The worker left to itself writes the batch and the queue, and ends when it is to stop.\<close>

lemma WriteBatch_written:
  "lg_written (WriteBatch put_time es s) = lg_written s @ map (\<lambda>e. \<lparr>ll_text = FormatLine put_time e,
     ll_stderr = stderr_enabled (lg_options s), ll_file = lg_file_stream s\<rparr>) es"
  unfolding WriteBatch_def by (induction es arbitrary: s) (simp_all add: WriteUnlocked_def)

lemma LoggerImpl_Run_WriteBatch:
  assumes "logger_ok s" and "lg_worker s \<noteq> Finished" and "lg_stopping s"
  shows "lg_written (LoggerImpl_Run put_time s) = lg_written (WriteBatch put_time (lg_batch s @ lg_queue s) s) \<and>
    lg_queue (LoggerImpl_Run put_time s) = [] \<and> lg_batch (LoggerImpl_Run put_time s) = [] \<and> lg_worker (LoggerImpl_Run put_time s) = Finished"
  using assms
proof (induction put_time s rule: LoggerImpl_Run.induct)
  case (1 put_time s)
  show ?case
  proof (cases "LoggerImpl_Run_step put_time s")
    case None
    with "1.prems" show ?thesis by (auto simp: LoggerImpl_Run_step_def split: worker.splits if_splits list.splits)
  next
    case (Some t)
    show ?thesis
    proof (cases "lg_worker t = Finished")
      case True
      then have "LoggerImpl_Run put_time t = t" by (simp add: LoggerImpl_Run.simps LoggerImpl_Run_step_def)
      with True Some "1.prems" show ?thesis
        by (auto simp: LoggerImpl_Run.simps [of _ s] LoggerImpl_Run_step_def logger_ok_def WriteUnlocked_def WriteBatch_written
            split: worker.splits if_splits list.splits)
    next
      case False
      have "logger_ok t" "lg_stopping t"
        using logger_ok_step [OF "1.prems"(1) Some] worker_step_lines [OF Some] "1.prems"(3) by simp_all
      note IH = "1.IH" [OF Some this(1) False this(2)]
      have "lg_written (WriteBatch put_time (lg_batch t @ lg_queue t) t) = lg_written (WriteBatch put_time (lg_batch s @ lg_queue s) s)"
        using Some False "1.prems"
        by (auto simp: LoggerImpl_Run_step_def WriteBatch_written logger_ok_def WriteUnlocked_def split: worker.splits if_splits list.splits)
      with IH Some show ?thesis by (simp add: LoggerImpl_Run.simps [of _ s])
    qed
  qed
qed

section \<open>What the log contains\<close>

definition demo_fs :: "unit log_fs" where
  "demo_fs = \<lparr>create_directories = (\<lambda>_ f. (Ok (), f)), open_append = (\<lambda>p f. (p \<noteq> ''/'', f))\<rparr>"

definition demo_clock :: "int \<Rightarrow> string" where
  "demo_clock t = ''T''"

definition demo_queued :: "unit logger" where
  "demo_queued = Write demo_clock 5 kWarn ''disk full'' (LoggerImpl_new ())"

lemma demo_queued_run: "log_run demo_fs demo_clock async_enabled () [\<lparr>le_level = kWarn, le_timestamp = 5, le_message = ''disk full''\<rparr>] demo_queued"
  using log_run.submit [OF log_run.start [of demo_fs demo_clock async_enabled "()"], of 5 kWarn "''disk full''"]
  by (simp add: demo_queued_def accepted_def LoggerImpl_new_def default_logger_options_def less_LogLevel_def)

text \<open>
  No message is lost or duplicated, whatever threads log and reconfigure while the worker runs:
  the lines written and those still waiting are the accepted messages, as a multiset.
\<close>

lemma log_run_lines:
  assumes "log_run fso put_time allowed f0 es s"
  shows "mset (written_texts s) + mset (waiting_texts put_time s) = mset (map (FormatLine put_time) es)"
  using assms
proof (induction rule: log_run.induct)
  case start
  show ?case by (simp add: LoggerImpl_new_def written_texts_def waiting_texts_def)
next
  case (work es s s')
  from arg_cong [OF worker_step_lines(1) [OF work.hyps(2)], of mset] work.IH show ?case by simp
qed (simp_all add: Write_lines(2) Configure_keeps)

text \<open>
  C20. The log keeps its order: as long as every configuration is asynchronous, the written
  lines followed by the waiting ones are the accepted messages in the order of their
  submission.
\<close>

theorem log_order_kept:
  assumes "log_run fso put_time async_enabled f0 es s"
  shows "written_texts s @ waiting_texts put_time s = map (FormatLine put_time) es \<and> async_enabled (lg_options s)"
  using assms
proof (induction rule: log_run.induct)
  case start
  show ?case by (simp add: LoggerImpl_new_def written_texts_def waiting_texts_def default_logger_options_def)
next
  case (submit es s now level message)
  then show ?case by (simp add: Write_lines(1,3))
qed (simp_all add: Configure_keeps worker_step_lines)

theorem log_order_kept_witness:
  "written_texts demo_queued @ waiting_texts demo_clock demo_queued = [''[WARN] T disk full'']"
  using log_order_kept [OF demo_queued_run] by (simp add: FormatLine_def LogLevel_ToString_def demo_clock_def)

text \<open>
  C19. The destructor drains the log: destroying the logger at any moment of any run ends, with
  the worker ended and nothing left to write, so every accepted message was written exactly
  once; the lines it still writes go, in order, to the streams of the current configuration.
\<close>

theorem LoggerImpl_destroy_drains:
  assumes run: "log_run fso put_time allowed f0 es s" and alive: "lg_worker s \<noteq> Finished"
  shows "\<exists>s'. LoggerImpl_destroy put_time s = s' \<and> lg_worker s' = Finished \<and> lg_queue s' = [] \<and> lg_batch s' = [] \<and>
    mset (written_texts s') = mset (map (FormatLine put_time) es) \<and>
    lg_written s' = lg_written s @ map (\<lambda>line. \<lparr>ll_text = line, ll_stderr = stderr_enabled (lg_options s),
      ll_file = lg_file_stream s\<rparr>) (waiting_texts put_time s)"
proof -
  let ?s' = "LoggerImpl_destroy put_time s"
  have ok: "logger_ok (LoggerImpl_stop s)" using logger_ok_run [OF run] by (simp add: logger_ok_def)
  have out: "lg_written ?s' = lg_written s @ map (\<lambda>line. \<lparr>ll_text = line, ll_stderr = stderr_enabled (lg_options s),
      ll_file = lg_file_stream s\<rparr>) (waiting_texts put_time s)" "lg_queue ?s' = []" "lg_batch ?s' = []" "lg_worker ?s' = Finished"
    using LoggerImpl_Run_WriteBatch [OF ok, of put_time] alive unfolding LoggerImpl_destroy_def
    by (auto simp: WriteBatch_written waiting_texts_def LoggerImpl_stop_def)
  have "mset (written_texts ?s') = mset (written_texts s) + mset (waiting_texts put_time s)"
    by (simp add: written_texts_def out(1) comp_def)
  then show ?thesis using out log_run_lines [OF run] by (intro exI [of _ ?s']) simp
qed

theorem LoggerImpl_destroy_drains_witness:
  "lg_queue (LoggerImpl_destroy demo_clock demo_queued) = [] \<and>
   map (\<lambda>l. (ll_text l, ll_stderr l)) (lg_written (LoggerImpl_destroy demo_clock demo_queued)) = [(''[WARN] T disk full'', True)]"
proof -
  have "lg_worker demo_queued \<noteq> Finished" "lg_written demo_queued = []" "stderr_enabled (lg_options demo_queued)"
    "waiting_texts demo_clock demo_queued = [''[WARN] T disk full'']"
    by (simp_all add: demo_queued_def Write_def LoggerImpl_new_def default_logger_options_def less_LogLevel_def
        waiting_texts_def FormatLine_def LogLevel_ToString_def demo_clock_def)
  then show ?thesis using LoggerImpl_destroy_drains [OF demo_queued_run] by auto
qed

text \<open>
  A configured logger has somewhere to write: when the settings are accepted by
  \<open>BuildLoggerConfig\<close> and \<open>Configure\<close> succeeds, every line written from then on goes to \<open>stderr\<close> or
  to the file that the settings name, and to the file exactly when the sink asks for it; when
  \<open>Configure\<close> fails, the previous options and the previous stream stay in force.
\<close>

lemma Configure_installs_sink:
  assumes "BuildLoggerConfig config = Ok c" and "Configure fso (ToOptions c) s = (r, s')"
  shows "case r of
      Ok _ \<Rightarrow> (\<exists>to_stderr to_file. lg_written (WriteUnlocked line s') =
          lg_written s @ [\<lparr>ll_text = line, ll_stderr = to_stderr, ll_file = to_file\<rparr>] \<and>
        (to_stderr \<or> to_file = Some (lc_file_path c)) \<and> (to_file \<noteq> None \<longleftrightarrow> sink_writes_file (lc_sink c)))
    | Err _ \<Rightarrow> lg_options s' = lg_options s \<and> lg_file_stream s' = lg_file_stream s \<and> lg_queue s' = lg_queue s"
  using Configure_cases [OF assms(2)] BuildLoggerConfig_file [OF assms(1)]
  by (cases r) (auto simp: WriteUnlocked_def ToOptions_def sink_writes_file_def)

end
