(* ===== verification/DeploymentGuarantees.thy ===== *)
theory DeploymentGuarantees
  imports ServerGuarantees
begin

text \<open>
  From configuration files to endpoints: what the YAML reader, the settings, the resolvers, the
  registrars and the server's registration guarantee together.
\<close>

section \<open>Configuration files\<close>

lemma find_store_all:
  "umap_find (store_all es m) k = (case map_of (rev es) k of None \<Rightarrow> umap_find m k | Some v \<Rightarrow> Some v)"
  by (induction es arbitrary: m) (auto simp: store_all_def map_add_def split: option.splits)

lemma umap_ok_store_all: "umap_ok m \<Longrightarrow> umap_ok (store_all es m)"
  by (induction es arbitrary: m) (auto simp: store_all_def)

abbreviation tree_entries :: "cfg_tree list \<Rightarrow> (string \<times> string) list" where
  "tree_entries ts \<equiv> concat (map (entries []) ts)"

lemma document_config:
  assumes "list_all plain_tree ts" and "list_all (\<lambda>l. length l < 1023) (concat (map (render 0) ts))"
  obtains config where "LoadConfigFile (Some (document ts)) = Ok config" "umap_ok config"
    "\<forall>k. umap_find config k = map_of (rev (tree_entries ts)) k"
proof
  show "LoadConfigFile (Some (document ts)) = Ok (store_all (tree_entries ts) [])"
    by (rule Load_document) (use assms in \<open>auto simp: list_all_iff\<close>)
qed (auto simp: find_store_all umap_ok_store_all split: option.splits)

abbreviation demo_trees :: "cfg_tree list" where
  "demo_trees \<equiv> [Node ''discovery'' [Leaf ''backend'' ''static'', Node ''services'' [Leaf ''Echo.Say'' ''a:1,b:2'']]]"

text \<open>
  C25. A configuration file means what it says: for every document of sections and values that
  the YAML subset can express, with lines that fit the reading buffer, loading succeeds and
  looking up a dotted path gives the value last written under that path, and the empty text
  for a path that is not in the document.
\<close>

theorem config_document_loaded:
  assumes "list_all plain_tree ts" and "list_all (\<lambda>l. length l < 1023) (concat (map (render 0) ts))"
  shows "\<exists>config. LoadConfigFile (Some (document ts)) = Ok config \<and>
    (\<forall>k. Load config k = (case map_of (rev (tree_entries ts)) k of None \<Rightarrow> [] | Some v \<Rightarrow> v))"
  by (rule document_config [OF assms]) (auto simp: Load_def)

lemma demo_trees_plain:
  "list_all plain_tree demo_trees" "list_all (\<lambda>l. length l < 1023) (concat (map (render 0) demo_trees))"
  by (simp_all add: plain_name_def plain_text_def trimmed_def trim_char_def StripQuotes_def)

theorem config_document_loaded_witness:
  "\<exists>config. LoadConfigFile (Some (document demo_trees)) = Ok config \<and>
     Load config ''discovery.services.Echo.Say'' = ''a:1,b:2'' \<and> Load config ''server.port'' = []"
  using config_document_loaded [OF demo_trees_plain] by auto

section \<open>Endpoints and addresses\<close>

abbreviation demo_endpoints :: "Endpoint list" where
  "demo_endpoints \<equiv> [\<lparr>ep_host = ''a'', ep_port = 1\<rparr>, \<lparr>ep_host = ''b'', ep_port = 2\<rparr>]"

lemma demo_endpoints_ok: "list_all endpoint_text_ok demo_endpoints"
  by (simp add: endpoint_text_ok_def Endpoint_IsValid_def trimmed_def trim_char_def)

lemma demo_endpoints_text: "join CHR '','' (map Endpoint_ToString demo_endpoints) = ''a:1,b:2''"
  by (simp add: Endpoint_ToString_def nat_to_string.simps digit_char_def char_of_def bit_Suc_0_iff)



section \<open>Static deployments\<close>

text \<open>
  C21. A static deployment resolves from its file: when a configuration file lists endpoints for
  \<open>discovery.services.<service>.<method>\<close> and does not select ZooKeeper, then the client settings
  load, unless its timeout is refused, the factory makes a resolver, and resolving that method
  gives one of the listed endpoints, whatever the random choice.
\<close>

theorem static_file_resolves:
  assumes doc: "list_all plain_tree ts" "list_all (\<lambda>l. length l < 1023) (concat (map (render 0) ts))"
      "fs path = Some (document ts)" "path \<noteq> []"
    and listed: "map_of (rev (tree_entries ts)) (''discovery.services.'' @ s @ ''.'' @ m) =
        Some (join CHR '','' (map Endpoint_ToString es))"
    and backend: "map_of (rev (tree_entries ts)) ''discovery.backend'' \<notin> {Some ''zookeeper'', Some ''zk''}"
    and es: "es \<noteq> []" "list_all endpoint_text_ok es" and pick: "pick_ok pick"
  shows "case ClientSettings_Load fs path of
      Err e \<Rightarrow> e \<in> {''rpc_timeout_ms is invalid'', ''rpc_timeout_ms must be positive''}
    | Ok c \<Rightarrow> (\<exists>r inst r'. CreateResolver api (cc_discovery c) g z = Some r \<and>
        Resolve api pick s m r = (Returned (Ok inst), r') \<and> inst_endpoint inst \<in> set es)"
proof -
  obtain config where config: "LoadConfigFile (Some (document ts)) = Ok config" "umap_ok config"
    "\<forall>k. umap_find config k = map_of (rev (tree_entries ts)) k"
    by (rule document_config [OF doc(1,2)])
  have load: "ClientSettings_Load fs path = BuildClientConfig config"
    using doc(3,4) config(1) by (simp add: ClientSettings_Load_def LoadRawConfig_def)
  have found: "umap_find (dc_static_services (LoadDiscoveryConfig config)) (MakeServiceKey s m) = Some es"
    using static_services_find [OF config(2)] config(3) listed ParseEndpointList_join [OF es(1)] es(2)
    by (simp add: list_all_iff services_prefix_def MakeServiceKey_def)
  have static: "dc_backend (LoadDiscoveryConfig config) = kStatic"
    using backend config(3) by (auto simp: LoadDiscoveryConfig_def ParseDiscoveryBackend_def Load_def split: option.splits)
  let ?r = "\<lparr>sr_config = LoadDiscoveryConfig config, sr_random = g\<rparr>"
  obtain x r' where res: "StaticResolver_Resolve pick s m ?r = (x, r')" by fastforce
  from StaticResolver_Resolve_result [OF pick res] found es(1)
  obtain inst where "x = Returned (Ok inst)" "inst_endpoint inst \<in> set es"
    by (auto split: outcome.splits sum.splits)
  with res static have "\<exists>r inst r'. CreateResolver api (LoadDiscoveryConfig config) g z = Some r \<and>
        Resolve api pick s m r = (Returned (Ok inst), r') \<and> inst_endpoint inst \<in> set es"
    by (intro exI [of _ "StaticResolver ?r"] exI [of _ inst] exI [of _ "StaticResolver r'"])
      (simp add: CreateResolver_def Resolve_def Let_def)
  then show ?thesis
    by (auto simp: load BuildClientConfig_def Let_def split: sum.splits if_splits option.splits)
qed

theorem static_file_resolves_witness:
  "\<exists>c r inst r'. ClientSettings_Load (\<lambda>_. Some (document demo_trees)) ''client.yaml'' = Ok c \<and>
     CreateResolver sim_zk (cc_discovery c) 0 [] = Some r \<and>
     Resolve sim_zk sim_pick ''Echo'' ''Say'' r = (Returned (Ok inst), r') \<and> inst_endpoint inst \<in> set demo_endpoints"
proof -
  have listed: "map_of (rev (tree_entries demo_trees)) (''discovery.services.'' @ ''Echo'' @ ''.'' @ ''Say'') =
      Some (join CHR '','' (map Endpoint_ToString demo_endpoints))"
    unfolding demo_endpoints_text by simp
  have backend: "map_of (rev (tree_entries demo_trees)) ''discovery.backend'' \<notin> {Some ''zookeeper'', Some ''zk''}"
    by simp
  obtain config where config: "LoadConfigFile (Some (document demo_trees)) = Ok config" "umap_ok config"
    "\<forall>k. umap_find config k = map_of (rev (tree_entries demo_trees)) k"
    by (rule document_config [OF demo_trees_plain])
  have "Load config ''client.rpc_timeout_ms'' = []" using config(3) by (simp add: Load_def)
  then obtain c where c: "ClientSettings_Load (\<lambda>_. Some (document demo_trees)) ''client.yaml'' = Ok c"
    using config(1) by (simp add: ClientSettings_Load_def LoadRawConfig_def BuildClientConfig_def)
  have "demo_endpoints \<noteq> []" "''client.yaml'' \<noteq> []" by simp_all
  from static_file_resolves [OF demo_trees_plain refl this(2) listed backend this(1) demo_endpoints_ok sim_pick_ok,
      of sim_zk 0 "[]"]
  show ?thesis unfolding c sum.case by (elim exE conjE) (intro exI conjI, rule refl)
qed

section \<open>Dynamic deployments\<close>


text \<open>The simulated ensemble accepts every registration and answers every query.\<close>

lemma sim_CreateNode: "\<exists>z'. CreateNode sim_zk p d b z = (Ok (), z')"
  by (simp add: CreateNode_def sim_zk_def ZOK_def ZNONODE_def)

lemma sim_register:
  assumes names: "path_name s" "path_name m"
  shows "\<exists>z'. ZkRegistrar_Register sim_zk s m e z = (Ok (), z')"
proof -
  obtain z1 where z1: "CreateNode sim_zk (''/'' @ s) [] False z = (Ok (), z1)" using sim_CreateNode by blast
  obtain z2 where z2: "CreateNode sim_zk (''/'' @ s) [] False z1 = (Ok (), z2)" using sim_CreateNode by blast
  obtain z3 where z3: "CreateNode sim_zk (''/'' @ s @ ''/'' @ m) [] False z2 = (Ok (), z3)" using sim_CreateNode by blast
  have "EnsurePath sim_zk (BuildServicePath s) z = (Ok (), z1)"
    using EnsurePath_one [of s sim_zk z] names z1 by (simp add: BuildServicePath_def path_name_def)
  moreover have "EnsurePath sim_zk (BuildMethodPath s m) z1 = (Ok (), z3)"
    using EnsurePath_two [of s m sim_zk z1] names z2 z3 by (simp add: BuildServicePath_def BuildMethodPath_def path_name_def)
  ultimately show ?thesis
    using sim_CreateNode by (simp add: ZkRegistrar_Register_def Let_def)
qed

lemma sim_register_all:
  "list_all (\<lambda>q. path_name (rm_service_name q) \<and> path_name (rm_method_name q)) ms \<Longrightarrow>
   \<exists>z'. register_all (ZkRegistrar_Register sim_zk) e ms z = (Ok (), z')"
proof (induction ms arbitrary: z)
  case (Cons q ms)
  then obtain z1 where "ZkRegistrar_Register sim_zk (rm_service_name q) (rm_method_name q) e z = (Ok (), z1)"
    using sim_register by fastforce
  with Cons show ?case by simp
qed simp

lemma sim_RefreshMethod: "\<exists>is r'. RefreshMethod sim_zk s m r = (Returned (Ok is), r')"
proof -
  obtain ks where ks: "zoo_wget_children sim_zk (BuildMethodPath s m) (zr_zk r) = ((ZOK, ks), zr_zk r)"
    by (simp add: sim_zk_def)
  from sim_read_instances obtain xs where "read_instances sim_zk (BuildMethodPath s m) ks (zr_zk r) = (Returned xs, zr_zk r)" by blast
  with ks show ?thesis by (simp add: RefreshMethod_def GetChildrenWatched_def Let_def)
qed


section \<open>Resolvers\<close>



text \<open>
  The fallback to the static backend does not cover an unreachable ensemble: with the
  ZooKeeper backend, when the client library has started but no session is ever established,
  making a resolver or a registrar does not return. The fallback is taken only when the
  library itself cannot start.
\<close>

lemma CreateResolver_waits_forever:
  assumes "dc_backend config = kZookeeper"
  shows "case zookeeper_init api (Endpoint_ToString (dc_zookeeper_endpoint config)) z of (started, z1) \<Rightarrow>
    (CreateResolver api config g z = None \<longleftrightarrow> started \<and> zk_session api z1 = None) \<and>
    (CreateRegistrar api config z = None \<longleftrightarrow> started \<and> zk_session api z1 = None) \<and>
    (\<not> started \<longrightarrow> CreateResolver api config g z = Some (StaticResolver \<lparr>sr_config = config, sr_random = g\<rparr>))"
  using assms
  by (auto simp: CreateResolver_def CreateRegistrar_def ZkClient_Start_def Let_def split: option.splits prod.splits)

lemma CreateResolver_waits_forever_example:
  "CreateResolver (sim_zk\<lparr>zk_session := \<lambda>_. None\<rparr>) ((LoadDiscoveryConfig [])\<lparr>dc_backend := kZookeeper\<rparr>) (0 :: nat) [] = None"
  using CreateResolver_waits_forever [of "(LoadDiscoveryConfig [])\<lparr>dc_backend := kZookeeper\<rparr>"
      "sim_zk\<lparr>zk_session := \<lambda>_. None\<rparr>" "0 :: nat" "[]"]
  by (simp add: sim_zk_def)

end
