(* ===== verification/ZkWatch.thy ===== *)
theory ZkWatch
  imports DiscoveryProps SimServices
begin

text \<open>
  Notifications from ZooKeeper: the watchers of \<open>src/src/zookeeperutil.cc\<close> and the cache of
  \<open>ZkResolver\<close>, which they keep up to date.

  ZooKeeper calls a child watch once, after the next change of the children it was set on; the
  callback runs in a thread of the library. \<open>RefreshMethod\<close> reads ZooKeeper without the mutex of the
  cache and takes it only to store what it has read, so the machine \<open>watch_run\<close> splits it into the
  two steps \<open>fetch_instances\<close> and \<open>store_instances\<close>. Reading the children and their data is one
  step. The nodes below a method are created and deleted but not rewritten: the registrar
  leaves an existing node alone.
\<close>

datatype zoo_event = ZOO_CREATED_EVENT | ZOO_DELETED_EVENT | ZOO_CHANGED_EVENT | ZOO_CHILD_EVENT | ZOO_SESSION_EVENT
  | ZOO_NOTWATCHING_EVENT

datatype zoo_state = ZOO_EXPIRED_SESSION_STATE | ZOO_AUTH_FAILED_STATE | ZOO_CONNECTING_STATE | ZOO_ASSOCIATING_STATE
  | ZOO_CONNECTED_STATE

record ChildWatch =
  cw_path :: string

section \<open>Watchers\<close>

definition GlobalWatcher :: "zoo_event \<Rightarrow> zoo_state \<Rightarrow> bool \<Rightarrow> bool" where
  "GlobalWatcher type state g_connected =
     (if type = ZOO_SESSION_EVENT \<and> state = ZOO_CONNECTED_STATE then True else g_connected)"

definition ChildWatcher ::
  "(string \<Rightarrow> 's \<Rightarrow> unit outcome \<times> 's) \<Rightarrow> zoo_event \<Rightarrow> string option \<Rightarrow> ChildWatch option \<Rightarrow> 's \<Rightarrow> unit outcome \<times> 's" where
  "ChildWatcher callback type path watcher_ctx s =
     (case watcher_ctx of
        None \<Rightarrow> (Returned (), s)
      | Some watch \<Rightarrow>
          if type = ZOO_CHILD_EVENT \<or> type = ZOO_CREATED_EVENT \<or> type = ZOO_DELETED_EVENT
          then callback (case path of Some p \<Rightarrow> p | None \<Rightarrow> cw_path watch) s
          else (Returned (), s))"

definition ZkClient_destroy :: "('h \<Rightarrow> 'z \<Rightarrow> 'z) \<Rightarrow> 'h option \<Rightarrow> 'z \<Rightarrow> 'z" where
  "ZkClient_destroy zookeeper_close handle z = (case handle of None \<Rightarrow> z | Some h \<Rightarrow> zookeeper_close h z)"

section \<open>Refreshing in two steps\<close>

definition fetch_instances ::
  "'z zk_api \<Rightarrow> string \<Rightarrow> string \<Rightarrow> ('z, 'g) zk_resolver \<Rightarrow>
   (RpcError + ServiceInstance list) outcome \<times> ('z, 'g) zk_resolver" where
  "fetch_instances api service_name method_name r =
     (let method_path = BuildMethodPath service_name method_name in
      case GetChildrenWatched api method_path (zr_zk r, zr_watches r) of (children_result, z1, watches) \<Rightarrow>
        let r1 = r\<lparr>zr_zk := z1, zr_watches := watches\<rparr> in
        case children_result of
          Err e \<Rightarrow> (Returned (Err e), r1)
        | Ok children \<Rightarrow>
            (case read_instances api method_path children z1 of
               (Thrown e, z2) \<Rightarrow> (Thrown e, r1\<lparr>zr_zk := z2\<rparr>)
             | (Returned insts, z2) \<Rightarrow> (Returned (Ok insts), r1\<lparr>zr_zk := z2\<rparr>)))"

definition store_instances :: "string \<Rightarrow> string \<Rightarrow> ServiceInstance list \<Rightarrow> ('z, 'g) zk_resolver \<Rightarrow> ('z, 'g) zk_resolver" where
  "store_instances service_name method_name insts r =
     r\<lparr>zr_cache := umap_put (BuildMethodPath service_name method_name) insts (zr_cache r)\<rparr>"

lemma RefreshMethod_split:
  "RefreshMethod api s m r =
     (case fetch_instances api s m r of
        (Returned (Ok insts), r1) \<Rightarrow> (Returned (Ok insts), store_instances s m insts r1)
      | other \<Rightarrow> other)"
  by (auto simp: RefreshMethod_def fetch_instances_def store_instances_def Let_def split: prod.splits sum.splits outcome.splits)

section \<open>The machine\<close>

record ('z, 'g) watched =
  wd_resolver :: "('z, 'g) zk_resolver"
  wd_armed :: bool
  wd_pending :: nat
  wd_flights :: "ServiceInstance list list"

abbreviation wd_nodes :: "('z \<Rightarrow> string \<rightharpoonup> string) \<Rightarrow> ('z, 'g) watched \<Rightarrow> string \<rightharpoonup> string" where
  "wd_nodes nodes w \<equiv> nodes (zr_zk (wd_resolver w))"

abbreviation wd_cached :: "string \<Rightarrow> string \<Rightarrow> ('z, 'g) watched \<Rightarrow> ServiceInstance list option" where
  "wd_cached s m w \<equiv> umap_find (zr_cache (wd_resolver w)) (BuildMethodPath s m)"

text \<open>The nodes below a method, and the instances they announce.\<close>

definition method_view :: "string \<Rightarrow> string \<Rightarrow> (string \<rightharpoonup> string) \<Rightarrow> (string \<rightharpoonup> string)" where
  "method_view s m N = (\<lambda>c. if CHR ''/'' \<in> set c then None else N (BuildMethodPath s m @ ''/'' @ c))"

definition registered :: "string \<Rightarrow> string \<Rightarrow> (string \<rightharpoonup> string) \<Rightarrow> ServiceInstance set" where
  "registered s m N = {\<lparr>inst_id = c, inst_endpoint = e\<rparr> | c d e.
     method_view s m N c = Some d \<and> ZkResolver_ParseEndpoint (take 512 d) = Ok e}"

text \<open>
  With \<open>serial\<close>, at most one refresh is under way at a time; with \<open>reliable\<close>, none fails. A lookup
  refreshes when the method is not cached; a notification refreshes always.
\<close>

inductive watch_step ::
  "'z zk_api \<Rightarrow> ('z \<Rightarrow> string \<rightharpoonup> string) \<Rightarrow> string \<Rightarrow> string \<Rightarrow> bool \<Rightarrow> bool \<Rightarrow> ('z, 'g) watched \<Rightarrow> ('z, 'g) watched \<Rightarrow> bool"
  for api nodes s m serial reliable where
  change: "dom (method_view s m (nodes z)) \<noteq> dom (method_view s m (wd_nodes nodes w)) \<Longrightarrow>
    watch_step api nodes s m serial reliable w
      (w\<lparr>wd_resolver := (wd_resolver w)\<lparr>zr_zk := z\<rparr>, wd_armed := False, wd_pending := wd_pending w + (if wd_armed w then 1 else 0)\<rparr>)"
| elsewhere: "method_view s m (nodes z) = method_view s m (wd_nodes nodes w) \<Longrightarrow>
    watch_step api nodes s m serial reliable w (w\<lparr>wd_resolver := (wd_resolver w)\<lparr>zr_zk := z\<rparr>\<rparr>)"
| lookup: "wd_cached s m w = None \<Longrightarrow> serial \<longrightarrow> wd_flights w = [] \<Longrightarrow>
    fetch_instances api s m (wd_resolver w) = (Returned (Ok insts), r) \<Longrightarrow>
    watch_step api nodes s m serial reliable w
      (w\<lparr>wd_resolver := r, wd_armed := True, wd_flights := wd_flights w @ [insts]\<rparr>)"
| notify: "wd_pending w = Suc n \<Longrightarrow> serial \<longrightarrow> wd_flights w = [] \<Longrightarrow>
    fetch_instances api s m (wd_resolver w) = (Returned (Ok insts), r) \<Longrightarrow>
    watch_step api nodes s m serial reliable w
      (w\<lparr>wd_resolver := r, wd_armed := True, wd_pending := n, wd_flights := wd_flights w @ [insts]\<rparr>)"
| lookup_fails: "\<not> reliable \<Longrightarrow> fetch_instances api s m (wd_resolver w) = (Returned (Err e), r) \<Longrightarrow>
    watch_step api nodes s m serial reliable w (w\<lparr>wd_resolver := r\<rparr>)"
| notify_fails: "\<not> reliable \<Longrightarrow> wd_pending w = Suc n \<Longrightarrow> fetch_instances api s m (wd_resolver w) = (Returned (Err e), r) \<Longrightarrow>
    watch_step api nodes s m serial reliable w (w\<lparr>wd_resolver := r, wd_pending := n\<rparr>)"
| store: "wd_flights w = xs @ insts # ys \<Longrightarrow>
    watch_step api nodes s m serial reliable w
      (w\<lparr>wd_resolver := store_instances s m insts (wd_resolver w), wd_flights := xs @ ys\<rparr>)"

inductive watch_run ::
  "'z zk_api \<Rightarrow> ('z \<Rightarrow> string \<rightharpoonup> string) \<Rightarrow> string \<Rightarrow> string \<Rightarrow> bool \<Rightarrow> bool \<Rightarrow> ('z, 'g) watched \<Rightarrow> bool"
  for api nodes s m serial reliable where
  watch_init: "watch_run api nodes s m serial reliable
    \<lparr>wd_resolver = \<lparr>zr_zk = z, zr_watches = [], zr_cache = [], zr_random = g\<rparr>, wd_armed = False, wd_pending = 0, wd_flights = []\<rparr>"
| watch_next: "watch_run api nodes s m serial reliable w \<Longrightarrow> watch_step api nodes s m serial reliable w w' \<Longrightarrow>
    watch_run api nodes s m serial reliable w'"

section \<open>What a fetch returns\<close>

lemma read_instances_only:
  assumes laws: "zk_laws api nodes"
  shows "read_instances api p cs z = (Returned insts, z') \<Longrightarrow> nodes z' = nodes z \<and>
    (\<forall>i \<in> set insts. inst_id i \<in> set cs \<and> (\<exists>d. nodes z (p @ ''/'' @ inst_id i) = Some d \<and>
       ZkResolver_ParseEndpoint (take 512 d) = Ok (inst_endpoint i)))"
proof (induction cs arbitrary: z insts z')
  case (Cons c cs)
  obtain g z1 where g: "GetData api (p @ ''/'' @ c) z = (g, z1)" by fastforce
  note keep = GetData_value [OF laws g]
  obtain t z2 where t: "read_instances api p cs z1 = (t, z2)" by fastforce
  from Cons.prems g t obtain gr rest where gt: "g = Returned gr" "t = Returned rest"
    by (auto split: outcome.splits)
  from Cons.IH [of z1 rest z2] t gt keep have "nodes z2 = nodes z" and rest: "\<forall>i \<in> set rest. inst_id i \<in> set cs \<and>
      (\<exists>d. nodes z (p @ ''/'' @ inst_id i) = Some d \<and> ZkResolver_ParseEndpoint (take 512 d) = Ok (inst_endpoint i))"
    by simp_all
  with Cons.prems g t gt keep show ?case by (auto split: sum.splits)
qed simp

lemma fetch_registered:
  assumes laws: "zk_laws api nodes" and reach: "\<And>q n z. nodes z q \<noteq> None \<Longrightarrow> fst (fst (zoo_get api q n z)) = ZOK"
    and ret: "fetch_instances api s m r = (Returned (Ok insts), r')"
  shows "set insts = registered s m (nodes (zr_zk r)) \<and> nodes (zr_zk r') = nodes (zr_zk r) \<and> zr_cache r' = zr_cache r"
proof -
  let ?p = "BuildMethodPath s m"
  obtain rc cs z1 where ch: "zoo_wget_children api ?p (zr_zk r) = ((rc, cs), z1)" by (metis prod.collapse)
  note kids = zk_laws_calls(4) [OF laws ch]
  from ret ch have rc: "rc = ZOK" and "\<exists>z2. read_instances api ?p cs z1 = (Returned insts, z2) \<and> zr_zk r' = z2 \<and> zr_cache r' = zr_cache r"
    by (auto simp: fetch_instances_def GetChildrenWatched_def Let_def split: if_splits prod.splits outcome.splits)
  then obtain z2 where read: "read_instances api ?p cs z1 = (Returned insts, z2)" and r': "zr_zk r' = z2" "zr_cache r' = zr_cache r"
    by blast
  from kids rc have z1: "nodes z1 = nodes (zr_zk r)"
    and cs: "\<And>c. c \<in> set cs \<longleftrightarrow> CHR ''/'' \<notin> set c \<and> nodes (zr_zk r) (?p @ ''/'' @ c) \<noteq> None" by auto
  have "i \<in> set insts \<longleftrightarrow> i \<in> registered s m (nodes (zr_zk r))" for i
  proof
    assume "i \<in> set insts"
    with read_instances_only [OF laws read] z1 cs show "i \<in> registered s m (nodes (zr_zk r))"
      by (cases i) (auto simp: registered_def method_view_def)
  next
    assume "i \<in> registered s m (nodes (zr_zk r))"
    then obtain c d e where i: "i = \<lparr>inst_id = c, inst_endpoint = e\<rparr>" "CHR ''/'' \<notin> set c"
      "nodes (zr_zk r) (?p @ ''/'' @ c) = Some d" "ZkResolver_ParseEndpoint (take 512 d) = Ok e"
      by (auto simp: registered_def method_view_def split: if_splits)
    then have "c \<in> set cs" "nodes z1 (?p @ ''/'' @ c) = Some d" using cs z1 by simp_all
    from read_instances_found [OF laws read reach this i(4)] i(1) show "i \<in> set insts" by simp
  qed
  with r' read_instances_only [OF laws read] z1 show ?thesis by auto
qed

lemma registered_view: "method_view s m N = method_view s m N' \<Longrightarrow> registered s m N = registered s m N'"
  by (simp add: registered_def)

lemma fetch_refused:
  assumes laws: "zk_laws api nodes" and ret: "fetch_instances api s m r = (Returned (Err e), r')"
  shows "nodes (zr_zk r') = nodes (zr_zk r) \<and> zr_cache r' = zr_cache r"
proof -
  obtain rc cs z1 where ch: "zoo_wget_children api (BuildMethodPath s m) (zr_zk r) = ((rc, cs), z1)" by (metis prod.collapse)
  with zk_laws_calls(4) [OF laws ch] ret show ?thesis
    by (auto simp: fetch_instances_def GetChildrenWatched_def Let_def split: if_splits prod.splits outcome.splits)
qed

section \<open>The cache and the registrations\<close>

text \<open>
  While the watch is set nothing has changed since the last fetch, so what that fetch brought,
  stored or still under way, is current; without failures a change of a cached method is
  always announced.
\<close>

definition watch_inv :: "('z \<Rightarrow> string \<rightharpoonup> string) \<Rightarrow> string \<Rightarrow> string \<Rightarrow> bool \<Rightarrow> ('z, 'g) watched \<Rightarrow> bool" where
  "watch_inv nodes s m reliable w \<longleftrightarrow>
     length (wd_flights w) \<le> 1 \<and>
     (wd_armed w \<longrightarrow> (case wd_flights w of
        [] \<Rightarrow> (\<forall>insts. wd_cached s m w = Some insts \<longrightarrow> set insts = registered s m (wd_nodes nodes w))
      | f # _ \<Rightarrow> set f = registered s m (wd_nodes nodes w))) \<and>
     (reliable \<longrightarrow> wd_cached s m w \<noteq> None \<or> wd_flights w \<noteq> [] \<longrightarrow> wd_armed w \<or> 0 < wd_pending w)"

lemma watch_inv_step:
  assumes laws: "zk_laws api nodes" and reach: "\<And>q n z. nodes z q \<noteq> None \<Longrightarrow> fst (fst (zoo_get api q n z)) = ZOK"
    and inv: "watch_inv nodes s m reliable w" and step: "watch_step api nodes s m True reliable w w'"
  shows "watch_inv nodes s m reliable w'"
  using step
proof cases
  case (change z)
  with inv show ?thesis by (auto simp: watch_inv_def)
next
  case (elsewhere z)
  with inv registered_view [OF elsewhere(2)] show ?thesis by (cases "wd_flights w") (simp_all add: watch_inv_def)
next
  case (lookup insts r)
  with inv fetch_registered [OF laws reach lookup(4)] show ?thesis by (simp add: watch_inv_def)
next
  case (notify n insts r)
  with inv fetch_registered [OF laws reach notify(4)] show ?thesis by (simp add: watch_inv_def)
next
  case (lookup_fails e r)
  with inv fetch_refused [OF laws lookup_fails(3)] show ?thesis by (cases "wd_flights w") (simp_all add: watch_inv_def)
next
  case (notify_fails n e r)
  with inv fetch_refused [OF laws notify_fails(4)] show ?thesis by (cases "wd_flights w") (simp_all add: watch_inv_def)
next
  case (store xs insts ys)
  with inv have "xs = []" "ys = []" by (auto simp: watch_inv_def)
  with store inv show ?thesis by (simp add: watch_inv_def store_instances_def)
qed

lemma watch_run_inv:
  assumes laws: "zk_laws api nodes" and reach: "\<And>q n z. nodes z q \<noteq> None \<Longrightarrow> fst (fst (zoo_get api q n z)) = ZOK"
  shows "watch_run api nodes s m True reliable w \<Longrightarrow> watch_inv nodes s m reliable w"
proof (induction rule: watch_run.induct)
  case (watch_init z g)
  show ?case by (simp add: watch_inv_def)
next
  case (watch_next w w')
  show ?case by (rule watch_inv_step [OF laws reach watch_next.IH watch_next.hyps(2)])
qed


section \<open>Runs on the simulated ensemble\<close>

lemma sim_fetch: "\<exists>insts r'. fetch_instances sim_zk s m r = (Returned (Ok insts), r') \<and>
    set insts = registered s m (umap_find (zr_zk r)) \<and> zr_zk r' = zr_zk r \<and> zr_cache r' = zr_cache r"
proof -
  obtain ks where ks: "zoo_wget_children sim_zk (BuildMethodPath s m) (zr_zk r) = ((ZOK, ks), zr_zk r)"
    by (simp add: sim_zk_def)
  obtain insts where "read_instances sim_zk (BuildMethodPath s m) ks (zr_zk r) = (Returned insts, zr_zk r)"
    using sim_read_instances by blast
  with ks have ret: "fetch_instances sim_zk s m r =
      (Returned (Ok insts), r\<lparr>zr_watches := zr_watches r @ [BuildMethodPath s m]\<rparr>)"
    by (simp add: fetch_instances_def GetChildrenWatched_def Let_def)
  have "fst (fst (zoo_get sim_zk q n z)) = ZOK" if "umap_find z q \<noteq> None" for q n z
    using that by (auto simp: sim_zk_def)
  from fetch_registered [OF sim_zk_laws this ret] ret show ?thesis by simp
qed

text \<open>One server, and a second one that registers later.\<close>

abbreviation one_server :: "(string, string) umap" where
  "one_server \<equiv> [(''/Echo/Say/a:1'', ''a:1'')]"

abbreviation two_servers :: "(string, string) umap" where
  "two_servers \<equiv> [(''/Echo/Say/a:1'', ''a:1''), (''/Echo/Say/b:2'', ''b:2'')]"

lemma second_server:
  "\<lparr>inst_id = ''b:2'', inst_endpoint = \<lparr>ep_host = ''b'', ep_port = 2\<rparr>\<rparr> \<in>
     registered ''Echo'' ''Say'' (umap_find two_servers) - registered ''Echo'' ''Say'' (umap_find one_server)"
proof -
  have "ZkResolver_ParseEndpoint (take 512 ''b:2'') = Ok \<lparr>ep_host = ''b'', ep_port = 2\<rparr>"
    using ZkResolver_ParseEndpoint_ToString [of "\<lparr>ep_host = ''b'', ep_port = 2\<rparr>"]
    by (simp add: Endpoint_IsValid_def Endpoint_ToString_def nat_to_string.simps digit_char_def char_of_def bit_Suc_0_iff)
  then show ?thesis
    by (simp add: registered_def method_view_def BuildMethodPath_def BuildServicePath_def)
qed

lemma views_differ:
  "dom (method_view ''Echo'' ''Say'' (umap_find two_servers)) \<noteq> dom (method_view ''Echo'' ''Say'' (umap_find one_server))"
proof -
  have "''b:2'' \<in> dom (method_view ''Echo'' ''Say'' (umap_find two_servers)) - dom (method_view ''Echo'' ''Say'' (umap_find one_server))"
    by (simp add: method_view_def BuildMethodPath_def BuildServicePath_def dom_def)
  then show ?thesis by blast
qed

abbreviation first_look :: "((string, string) umap, nat) watched" where
  "first_look \<equiv> \<lparr>wd_resolver = \<lparr>zr_zk = one_server, zr_watches = [], zr_cache = [], zr_random = 0\<rparr>,
     wd_armed = False, wd_pending = 0, wd_flights = []\<rparr>"

lemma fetched_run:
  obtains insts and w :: "((string, string) umap, nat) watched" where
    "watch_run sim_zk umap_find ''Echo'' ''Say'' serial True w" "wd_flights w = [insts]" "wd_armed w"
    "wd_pending w = 0" "zr_zk (wd_resolver w) = one_server" "zr_cache (wd_resolver w) = []"
    "set insts = registered ''Echo'' ''Say'' (umap_find one_server)"
proof -
  obtain insts r where r: "fetch_instances sim_zk ''Echo'' ''Say'' (wd_resolver first_look) = (Returned (Ok insts), r)"
    "set insts = registered ''Echo'' ''Say'' (umap_find one_server)" "zr_zk r = one_server" "zr_cache r = []"
    using sim_fetch [of "''Echo''" "''Say''" "wd_resolver first_look"] by auto
  let ?w = "first_look\<lparr>wd_resolver := r, wd_armed := True, wd_flights := wd_flights first_look @ [insts]\<rparr>"
  have "watch_step sim_zk umap_find ''Echo'' ''Say'' serial True first_look ?w"
    by (rule watch_step.lookup [OF _ _ r(1)]) simp_all
  then have "watch_run sim_zk umap_find ''Echo'' ''Say'' serial True ?w"
    by (rule watch_run.watch_next [OF watch_run.watch_init])
  then show ?thesis using r by (intro that [of ?w insts]) simp_all
qed



text \<open>
  A refresh that fails sets no new watch and keeps the cached instances, from which every later
  lookup answers: nothing brings the cache up to date again.
\<close>

lemma failed_refresh_keeps:
  assumes cached: "umap_find (zr_cache r) (BuildMethodPath s m) = Some insts"
    and failed: "RefreshMethod api s m r = (Returned (Err e), r1)" and lookup: "ZkResolver_Resolve api pick s m r1 = (x, r2)"
  shows "zr_watches r2 = zr_watches r \<and> zr_cache r2 = zr_cache r \<and> zr_zk r2 = zr_zk r1"
proof -
  have "zr_watches r1 = zr_watches r \<and> zr_cache r1 = zr_cache r"
    using failed by (auto simp: RefreshMethod_def GetChildrenWatched_def Let_def split: prod.splits sum.splits outcome.splits if_splits)
  with Resolve_cached [OF _ lookup] cached show ?thesis by simp
qed

section \<open>Starting several clients\<close>

text \<open>
  \<open>Start\<close> clears the flag \<open>g_connected\<close>, makes the handle, whose session events come to
  \<open>GlobalWatcher\<close>, and waits for the flag. The flag is one for all clients of the process. The
  machine runs any number of clients, each with the note whether its session was ever connected.
\<close>

datatype start_phase = NotStarted | Initialising | Waiting | Started

record starts =
  st_flag :: bool
  st_phase :: "start_phase list"
  st_session :: "bool list"

definition starts_new :: "nat \<Rightarrow> starts" where
  "starts_new n = \<lparr>st_flag = False, st_phase = replicate n NotStarted, st_session = replicate n False\<rparr>"

definition session_event :: "nat \<Rightarrow> zoo_event \<Rightarrow> zoo_state \<Rightarrow> starts \<Rightarrow> starts" where
  "session_event i type state s =
     s\<lparr>st_flag := GlobalWatcher type state (st_flag s),
       st_session := (st_session s)[i := st_session s ! i \<or> type = ZOO_SESSION_EVENT \<and> state = ZOO_CONNECTED_STATE]\<rparr>"

inductive start_step :: "starts \<Rightarrow> starts \<Rightarrow> bool" where
  clear: "i < length (st_phase s) \<Longrightarrow> st_phase s ! i = NotStarted \<Longrightarrow>
    start_step s (s\<lparr>st_flag := False, st_phase := (st_phase s)[i := Initialising]\<rparr>)"
| init: "i < length (st_phase s) \<Longrightarrow> st_phase s ! i = Initialising \<Longrightarrow>
    start_step s (s\<lparr>st_phase := (st_phase s)[i := Waiting]\<rparr>)"
| event: "i < length (st_phase s) \<Longrightarrow> st_phase s ! i \<in> {Waiting, Started} \<Longrightarrow> start_step s (session_event i type state s)"
| wake: "i < length (st_phase s) \<Longrightarrow> st_phase s ! i = Waiting \<Longrightarrow> st_flag s \<Longrightarrow>
    start_step s (s\<lparr>st_phase := (st_phase s)[i := Started]\<rparr>)"

text \<open>A client alone in its process has seen its session connected when \<open>Start\<close> returns.\<close>

lemma start_alone:
  assumes "start_step\<^sup>*\<^sup>* (starts_new 1) s"
  shows "length (st_phase s) = 1 \<and> length (st_session s) = 1 \<and>
    (st_flag s \<or> st_phase s ! 0 = Started \<longrightarrow> st_session s ! 0)"
  using assms
proof (induction rule: rtranclp_induct)
  case base
  show ?case by (simp add: starts_new_def)
next
  case (step s t)
  from step.hyps(2) step.IH show ?case
    by cases (auto simp: session_event_def GlobalWatcher_def)
qed

lemma start_step_rule: "start_step\<^sup>*\<^sup>* a s \<Longrightarrow> start_step s t \<Longrightarrow> start_step\<^sup>*\<^sup>* a t"
  by (rule rtranclp.rtrancl_into_rtrancl)

text \<open>
  C38. \<open>Start\<close> may return without a session: when two clients of a process start at the same time,
  the event that connects the first sets the flag that the second waits for, so that its
  \<open>Start\<close> reports success although its session was never connected.
\<close>

theorem Start_shares_flag:
  "\<exists>s. start_step\<^sup>*\<^sup>* (starts_new 2) s \<and> st_phase s ! 1 = Started \<and> \<not> st_session s ! 1"
proof -
  let ?s = "\<lambda>flag a b c. \<lparr>st_flag = flag, st_phase = [a, b], st_session = [c, False]\<rparr>"
  have s0: "start_step\<^sup>*\<^sup>* (starts_new 2) (?s False NotStarted NotStarted False)"
    by (simp add: starts_new_def numeral_2_eq_2)
  have s1: "start_step\<^sup>*\<^sup>* (starts_new 2) (?s False Initialising NotStarted False)"
    by (rule start_step_rule [OF s0]) (use start_step.clear [of 0 "?s False NotStarted NotStarted False"] in simp)
  have s2: "start_step\<^sup>*\<^sup>* (starts_new 2) (?s False Initialising Initialising False)"
    by (rule start_step_rule [OF s1]) (use start_step.clear [of 1 "?s False Initialising NotStarted False"] in simp)
  have s3: "start_step\<^sup>*\<^sup>* (starts_new 2) (?s False Waiting Initialising False)"
    by (rule start_step_rule [OF s2]) (use start_step.init [of 0 "?s False Initialising Initialising False"] in simp)
  have s4: "start_step\<^sup>*\<^sup>* (starts_new 2) (?s False Waiting Waiting False)"
    by (rule start_step_rule [OF s3]) (use start_step.init [of 1 "?s False Waiting Initialising False"] in simp)
  have s5: "start_step\<^sup>*\<^sup>* (starts_new 2) (?s True Waiting Waiting True)"
    by (rule start_step_rule [OF s4])
      (use start_step.event [of 0 "?s False Waiting Waiting False" ZOO_SESSION_EVENT ZOO_CONNECTED_STATE]
        in \<open>simp add: session_event_def GlobalWatcher_def\<close>)
  have "start_step\<^sup>*\<^sup>* (starts_new 2) (?s True Waiting Started True)"
    by (rule start_step_rule [OF s5]) (use start_step.wake [of 1 "?s True Waiting Waiting True"] in simp)
  then show ?thesis by (intro exI [of _ "?s True Waiting Started True"]) simp
qed

end
