(* ===== verification/Spec2Isabelle.thy ===== *)
theory Spec2Isabelle
  imports EndToEnd ClientThreads RuntimeWait TaskVoid Logger WireProps DeploymentGuarantees ZkWatch
begin

text \<open>
  Verification of hxrpc, a C++ RPC framework over TCP with protobuf messages, an epoll server,
  a pooled client with coroutines, and static or ZooKeeper service discovery. Sources are
  under \<open>src/src/\<close>.

  \<^bold>\<open>The program.\<close> A client (\<open>rpc_client.cc\<close>) resolves a method to an endpoint
  (\<open>service_discovery.cc\<close>, \<open>zookeeperutil.cc\<close>), serialises the argument (\<open>serializer.cc\<close>), encodes a frame
  (\<open>codec.cc\<close>), exchanges it on a pooled connection (\<open>client_transport.cc\<close>, whose asynchronous paths
  wait in \<open>async_runtime.cc\<close> through \<open>task.h\<close>) and decodes the answer. The server (\<open>rpc_server.cc\<close>) runs an
  event loop (\<open>reactor.cc\<close>) over connections (\<open>connection_manager.cc\<close>), which cut the byte stream into
  frames and hand each to the dispatcher (\<open>rpc_dispatcher.cc\<close>): it looks the method up
  (\<open>service_registry.cc\<close>), borrows messages from a pool (\<open>message_pool.cc\<close>), calls the service with a
  controller (\<open>controller.cc\<close>) and encodes the reply. Settings come from a YAML subset (\<open>config.cc\<close>,
  \<open>settings.cc\<close>, \<open>string_utils.cc\<close>), messages go to \<open>logger.cc\<close>.

  \<^bold>\<open>How the model is laid out.\<close> Every theory opens with what it holds; names are those of the sources.

  \<^item> \<open>Prelude\<close>, \<open>StdText\<close>: results, unordered maps, big-endian words, and the text functions of the
    C++ library that the sources use. \<open>Sys\<close>: the socket and epoll calls as a record of functions on
    a world, with what POSIX documents of them as the predicates \<open>fd_laws\<close>, \<open>send_laws\<close>, \<open>recv_laws\<close>
    and \<open>signal_laws\<close> (signals interrupt a call only finitely often).
  \<^item> \<open>Types\<close>, \<open>Codec\<close>, \<open>RefHeaders\<close>, \<open>WireProps\<close>: data types, frames, requests and responses. The
    generated header classes are a parameter with the contract \<open>pb_headers_ok\<close>, and \<open>RefHeaders\<close> is
    one implementation of it.
  \<^item> \<open>Reactor\<close>, \<open>Framing\<close>, \<open>ConnectionManager\<close>, \<open>ConnectionInvariant\<close>, \<open>ConnectionStreams\<close>: the event
    loop with its handler table, the specification \<open>cut_frames\<close> of framing, the connections, their
    invariant \<open>cm_inv\<close>, and the conservation of bytes. Locales: \<open>reactor_client\<close> for what callbacks
    keep, \<open>frame_handler\<close> for what a frame handler may do.
  \<^item> \<open>Serializer\<close>, \<open>BoundedPool\<close>, \<open>MessagePool\<close>, \<open>Controller\<close>, \<open>ServiceRegistry\<close>, \<open>RpcDispatcher\<close>: protobuf
    messages are a parameter (\<open>pb_ops_ok\<close>, \<open>pb_wire_ok\<close>); \<open>BoundedPool\<close> is the contract that the
    message pool and the connection pool share; \<open>call_service\<close> is the abstract call that
    \<open>HandleFrame\<close> implements.
  \<^item> \<open>RpcServer\<close>, \<open>ServerProps\<close>, \<open>ServerGuarantees\<close>, \<open>ServiceGuarantees\<close>: the server, and what it
    answers on every input; its invariant over all turns of the loop.
  \<^item> \<open>ClientTransport\<close>, \<open>ClientIO\<close>, \<open>ClientPool\<close>, \<open>RpcClient\<close>, \<open>ClientGuarantees\<close>: the client; round
    trips end, exchange exactly one frame, and leak no descriptor. \<open>ClientThreads\<close>: round trips of
    several threads over one pool, interleaved at the calls of \<open>RoundTrip\<close>.
  \<^item> \<open>AsyncRuntime\<close>, \<open>RuntimeLoop\<close>, \<open>Task\<close>, \<open>TaskVoid\<close>, \<open>Logger\<close>: concurrent parts, as step relations over
    all interleavings, with invariants by rule induction. \<open>RuntimeLoop\<close> holds the life of the
    coroutine runtime (awaiters, constructor, thread, wake-up, destructor) and what its turns do to
    deadlines; \<open>TaskVoid\<close> relates \<open>Task<void>\<close> to \<open>Task<T>\<close> by erasing the value.
  \<^item> \<open>AsyncIO\<close>: the coroutine versions of the client's socket operations as the blocking ones over a kernel
    that waits (\<open>retry_sys\<close>). \<open>RuntimeWait\<close>: every wait of the runtime ends, and the runtime as the wait of
    those operations.
  \<^item> \<open>StringUtils\<close>, \<open>Config\<close>, \<open>Settings\<close>, \<open>ZooKeeper\<close>, \<open>ServiceDiscovery\<close>, \<open>DiscoveryProps\<close>,
    \<open>DeploymentGuarantees\<close>: from configuration files to endpoints. The locale \<open>service_resolver\<close> is
    the resolver interface, interpreted on the model of both backends. The ZooKeeper C library is
    a parameter with the laws \<open>zk_laws\<close>. \<open>ZkWatch\<close>: the watchers, the cache that notifications refresh,
    and clients that start at the same time.
  \<^item> \<open>SimOS\<close>, \<open>SimServices\<close>: a simulated kernel, protobuf library, service and ZooKeeper ensemble that
    satisfy all the laws; the witnesses run on them.
  \<^item> \<open>EndToEnd\<close>: client and server composed through the bytes on the wire.

  \<^bold>\<open>State and effects.\<close> Objects are records of their members, operations return the new record.
  Loops over system calls are \<open>partial_function (option)\<close>: \<open>None\<close> is a call that never returns, and
  termination is proved from \<open>signal_laws\<close>; no fuel is used. Reading freed memory is the value
  \<open>UseAfterFree\<close> (\<open>DeadFrame\<close> for coroutine frames), so its absence or presence is a theorem. Lengths and
  ports have their widths: frame lengths are 32-bit words, sizes narrow where the code casts.

  \<^bold>\<open>What is shown.\<close>
  \<^item> The composition: a remote call has the outcome of a direct call of the service.
  \<^item> The codec round trips; decoding accepts exactly well-formed frames; framing does not depend on
    how the stream is split into reads.
  \<^item> The server answers exactly the replies to the frames it received, in order; its handlers
    return; every reachable state is well formed.
  \<^item> The client's calls return, keep its pools sound and exchange exactly one frame; concurrent
    calls never share a connection. The coroutine versions do what the blocking ones do, up to the
    text of the error after a time-out.
  \<^item> A coroutine wait is resumed at most once, is never lost, is over after a turn past its deadline,
    and is silent after cancellation, and a read over the running runtime returns; frames have exactly one owner, for \<open>Task<void>\<close> by refinement;
    \<open>Get\<close> delivers the outcome of its coroutine.
  \<^item> The log keeps order, loses nothing and is drained on destruction.
  \<^item> Files of settings mean what they say; a static deployment resolves to its listed endpoints; a
    published server is discovered; while refreshes succeed and do not overlap, the discovery cache
    agrees with ZooKeeper.
  \<^item> Some theorems describe defects: dangling references after a failed send and after a close
    inside the event loop, requests dropped at the end of the stream, response identifiers never
    checked, controller errors ignored, ports taken modulo 65536, a factory that can wait forever,
    a task freed while its coroutine still finishes, a suspended task resumed early by the one that
    awaits it, a runtime that accepts waits without a thread, a cache left stale by overlapping
    refreshes, and a connection flag that all ZooKeeper clients of a process share.

  \<^bold>\<open>Bounds.\<close> The token counter of the coroutine runtime is assumed not to wrap (fewer than $2^{64}$
  waits). For a read over the runtime, time passes in \<open>epoll_wait\<close> and that call fails only finitely
  often (\<open>clock_laws\<close>). Configuration lines are shorter than the 1023 characters that one \<open>fgets\<close> reads; the model
  of the reader itself covers longer lines.

  \<^bold>\<open>Granularity.\<close> Threads interleave at the calls that \<open>RoundTrip\<close> makes, at one line for the logger's
  worker and \<open>Configure\<close>, at one access to the promise for the end of a coroutine, at the reading and
  the storing of a list for a refresh of the discovery cache, and at one step under a lock for the
  coroutine runtime. The eventfd of that runtime is the counter of its wake-ups.

  \<^bold>\<open>Not modelled.\<close> Flushing of streams and the singletons of the logger; that \<open>epoll_wait\<close> is interrupted
  by the eventfd in time (a turn comes at the latest after its time-out of 50 ms); singletons and
  factories that only forward; the second copy of \<open>Split\<close> in \<open>settings.cc\<close>, which is that of
  \<open>string_utils.cc\<close>, so one definition serves both; the code that the compiler generates for coroutines
  beyond the steps of their promises; generated protobuf code, ZooKeeper and protobuf themselves;
  benchmark programs and tests.
\<close>

end
